(* ===== verification/Prelude.thy ===== *)
theory Prelude
  imports Complex_Main "HOL-Library.Word"
begin

text \<open>
  Shared vocabulary of the development: the identifiers and times of the model, the decimal
  text of numbers (\<open>fmt\<close>'s percent-d), byte strings, and the row operations that every SQL
  statement of the repositories is made of.

  Go strings are byte strings: a model string is a list of 8-bit characters and its length is
  Go's \<open>len\<close>. A \<open>time.Time\<close> is an integer count of nanoseconds since the Unix epoch.
\<close>

named_theorems source_consts \<open>the string constants of the source\<close>
named_theorems sql_defs \<open>the SQL statements of the repositories\<close>
named_theorems row_simps \<open>how row operations act on lookups, lengths and membership\<close>

section \<open>Identifiers and times\<close>

type_synonym uuid = "128 word"
type_synonym time = int
type_synonym fields = "(string \<times> string) list"

definition UnixMilli :: "time \<Rightarrow> int" where
  "UnixMilli t = t div 1000000"

section \<open>Decimal text\<close>

definition digit_char :: "nat \<Rightarrow> char" where
  "digit_char d = char_of (48 + d)"

fun digits :: "nat \<Rightarrow> string" where
  "digits n = (if n < 10 then [digit_char n] else digits (n div 10) @ [digit_char (n mod 10)])"

declare digits.simps [simp del]

definition int_text :: "int \<Rightarrow> string" where
  "int_text i = (if i < 0 then ''-'' @ digits (nat (- i)) else digits (nat i))"

definition is_digit :: "char \<Rightarrow> bool" where
  "is_digit c \<longleftrightarrow> 48 \<le> (of_char c :: nat) \<and> (of_char c :: nat) \<le> 57"

text \<open>Reading the digits back gives the number, so the text of a number determines it.\<close>

definition digits_value :: "string \<Rightarrow> nat" where
  "digits_value s = foldl (\<lambda>a c. 10 * a + (of_char c - 48)) 0 s"

lemma of_char_digit: "d < 10 \<Longrightarrow> (of_char (digit_char d) :: nat) = 48 + d"
  by (simp add: digit_char_def)

lemma digits_value_digits: "digits_value (digits n) = n"
proof (induction n rule: digits.induct)
  case (1 n)
  then show ?case
    by (subst digits.simps) (auto simp: digits_value_def of_char_digit)
qed

lemma digits_inject [simp]: "digits m = digits n \<longleftrightarrow> m = n"
  by (metis digits_value_digits)

lemma digits_are_digits: "list_all is_digit (digits n)"
proof (induction n rule: digits.induct)
  case (1 n)
  then show ?case
    by (subst digits.simps) (auto simp: list_all_iff is_digit_def of_char_digit)
qed

lemma digits_not_Nil [simp]: "digits n \<noteq> []"
  by (subst digits.simps) simp

lemma list_all_notin: "list_all P xs \<Longrightarrow> \<not> P x \<Longrightarrow> x \<notin> set xs"
  by (auto simp: list_all_iff)

lemma digits_no_dash: "CHR ''-'' \<notin> set (digits n)"
  by (rule list_all_notin [OF digits_are_digits]) (simp add: is_digit_def)

text \<open>Two texts cut at the first occurrence of a separator agree piece by piece.\<close>

lemma append_sep_inject:
  "c \<notin> set a \<Longrightarrow> c \<notin> set b \<Longrightarrow> a @ c # x = b @ c # y \<longleftrightarrow> a = b \<and> x = y"
proof (induction a arbitrary: b)
  case Nil
  then show ?case by (cases b) auto
next
  case (Cons d a)
  then show ?case by (cases b) auto
qed

section \<open>Byte strings\<close>

text \<open>
  \<open>strings.Contains\<close>, and the number of characters of a UTF-8 byte string, which is what a
  Postgres \<open>VARCHAR(n)\<close> limits: every byte that does not continue a character counts one.
\<close>

fun strings_contains :: "string \<Rightarrow> string \<Rightarrow> bool" where
  "strings_contains [] sub = (sub = [])"
| "strings_contains (c # s) sub = (take (length sub) (c # s) = sub \<or> strings_contains s sub)"

definition char_count :: "string \<Rightarrow> nat" where
  "char_count s = length (filter (\<lambda>c. (of_char c :: nat) div 64 \<noteq> 2) s)"

text \<open>
  What Postgres accepts as text: well-formed UTF-8 without the NUL character. The automaton
  counts the continuation bytes still due; \<open>lo\<close> and \<open>hi\<close> bound the next one.
\<close>

fun utf8_run :: "nat \<Rightarrow> nat \<Rightarrow> nat \<Rightarrow> nat list \<Rightarrow> bool" where
  "utf8_run k lo hi [] \<longleftrightarrow> k = 0"
| "utf8_run k lo hi (b # bs) \<longleftrightarrow>
     (if k = 0 then
        (if 1 \<le> b \<and> b < 128 then utf8_run 0 128 191 bs
         else if 194 \<le> b \<and> b \<le> 223 then utf8_run 1 128 191 bs
         else if b = 224 then utf8_run 2 160 191 bs
         else if b = 237 then utf8_run 2 128 159 bs
         else if 225 \<le> b \<and> b \<le> 239 then utf8_run 2 128 191 bs
         else if b = 240 then utf8_run 3 144 191 bs
         else if 241 \<le> b \<and> b \<le> 243 then utf8_run 3 128 191 bs
         else if b = 244 then utf8_run 3 128 143 bs
         else False)
      else lo \<le> b \<and> b \<le> hi \<and> utf8_run (k - 1) 128 191 bs)"

definition text_ok :: "string \<Rightarrow> bool" where
  "text_ok s \<longleftrightarrow> utf8_run 0 128 191 (map of_char s)"

lemma text_ok_Nil [simp]: "text_ok ''''"
  by (simp add: text_ok_def)

lemma text_ok_ascii: "\<forall>c \<in> set s. 1 \<le> (of_char c :: nat) \<and> (of_char c :: nat) < 128 \<Longrightarrow> text_ok s"
  unfolding text_ok_def by (induction s) auto

lemma char_count_le_length: "char_count s \<le> length s"
  by (simp add: char_count_def)

section \<open>Rows\<close>

text \<open>
  A table is the list of its rows. \<open>update_rows\<close> is \<open>UPDATE .. SET f WHERE p\<close>, \<open>find_row\<close> is
  \<open>SELECT .. WHERE key = k\<close> on a unique key.
\<close>

definition find_row :: "('a \<Rightarrow> 'k) \<Rightarrow> 'k \<Rightarrow> 'a list \<Rightarrow> 'a option" where
  "find_row key k rows = find (\<lambda>r. key r = k) rows"

definition update_rows :: "('a \<Rightarrow> bool) \<Rightarrow> ('a \<Rightarrow> 'a) \<Rightarrow> 'a list \<Rightarrow> 'a list" where
  "update_rows p f rows = map (\<lambda>r. if p r then f r else r) rows"

lemma find_row_Nil [simp, row_simps]: "find_row key k [] = None"
  by (simp add: find_row_def)

lemma find_row_Cons [simp, row_simps]:
  "find_row key k (r # rows) = (if key r = k then Some r else find_row key k rows)"
  by (simp add: find_row_def)

lemma find_row_append [row_simps]:
  "find_row key k (xs @ ys) =
     (case find_row key k xs of None \<Rightarrow> find_row key k ys | Some r \<Rightarrow> Some r)"
  by (induction xs) auto

lemma find_row_SomeD: "find_row key k rows = Some r \<Longrightarrow> r \<in> set rows \<and> key r = k"
  by (induction rows) (auto split: if_splits)

lemma find_row_None: "find_row key k rows = None \<longleftrightarrow> k \<notin> key ` set rows"
  by (induction rows) auto

lemma find_row_unique:
  "distinct (map key rows) \<Longrightarrow> r \<in> set rows \<Longrightarrow> find_row key (key r) rows = Some r"
  by (induction rows) auto

lemma map_update_rows [row_simps]:
  "(\<And>r. g (f r) = g r) \<Longrightarrow> map g (update_rows p f rows) = map g rows"
  by (induction rows) (auto simp: update_rows_def)

lemma set_update_rows [row_simps]:
  "set (update_rows p f rows) = {f r | r. r \<in> set rows \<and> p r} \<union> {r \<in> set rows. \<not> p r}"
  by (auto simp: update_rows_def)

lemma length_update_rows [simp, row_simps]: "length (update_rows p f rows) = length rows"
  by (simp add: update_rows_def)

lemma find_update_key [row_simps]:
  assumes "\<And>r. key (f r) = key r"
  shows "find_row key k (update_rows (\<lambda>r. key r = j) f rows) =
    (if k = j then map_option f (find_row key k rows) else find_row key k rows)"
  using assms by (induction rows) (auto simp: update_rows_def)

lemma find_update_guarded [row_simps]:
  assumes "\<And>r. key (f r) = key r"
  shows "find_row key k (update_rows p f rows) =
    map_option (\<lambda>r. if p r then f r else r) (find_row key k rows)"
  using assms by (induction rows) (auto simp: update_rows_def)

lemma update_rows_none: "(\<And>r. r \<in> set rows \<Longrightarrow> \<not> p r) \<Longrightarrow> update_rows p f rows = rows"
  by (induction rows) (auto simp: update_rows_def)

text \<open>A predicate on rows that holds of every updated row holds of the updated table.\<close>

lemma update_rows_all:
  "\<forall>r \<in> set rows. P r \<Longrightarrow> (\<And>r. P r \<Longrightarrow> p r \<Longrightarrow> P (f r)) \<Longrightarrow>
     \<forall>r \<in> set (update_rows p f rows). P r"
  by (auto simp: update_rows_def)

section \<open>Sorted pages\<close>

lemma sorted_wrt_filter_take:
  "sorted_wrt R xs \<Longrightarrow> sorted_wrt R (take n xs)"
  by (metis append_take_drop_id sorted_wrt_append)

end
