(* ===== verification/Domain.thy ===== *)
theory Domain
  imports Prelude
begin

text \<open>
  Package \<open>internal/domain\<close>: channels, priorities and statuses (typed strings in Go), the
  notification, template and attempt records, the requests and filters, the cursor with its
  order, and the sentinel errors with \<open>fmt.Errorf\<close> wrapping and \<open>errors.Is\<close>.

  A \<open>*T\<close> field is an option; \<open>map[string]string\<close> is \<open>None\<close> for the nil map and otherwise
  its entries in key order (the order \<open>encoding/json\<close> writes them in).
\<close>

section \<open>Channels, priorities, statuses\<close>

type_synonym channel = string
type_synonym priority = string
type_synonym status = string
type_synonym vars = "fields option"

definition ChannelSMS :: channel where [source_consts]: "ChannelSMS = ''sms''"
definition ChannelEmail :: channel where [source_consts]: "ChannelEmail = ''email''"
definition ChannelPush :: channel where [source_consts]: "ChannelPush = ''push''"

definition channel_valid :: "channel \<Rightarrow> bool" where
  "channel_valid c \<longleftrightarrow> c = ChannelSMS \<or> c = ChannelEmail \<or> c = ChannelPush"

definition PriorityHigh :: priority where [source_consts]: "PriorityHigh = ''high''"
definition PriorityNormal :: priority where [source_consts]: "PriorityNormal = ''normal''"
definition PriorityLow :: priority where [source_consts]: "PriorityLow = ''low''"

definition priority_valid :: "priority \<Rightarrow> bool" where
  "priority_valid p \<longleftrightarrow> p = PriorityHigh \<or> p = PriorityNormal \<or> p = PriorityLow"

definition StreamKey :: "priority \<Rightarrow> string" where
  "StreamKey p = ''notifications:'' @ p"

definition StatusPending :: status where [source_consts]: "StatusPending = ''pending''"
definition StatusScheduled :: status where [source_consts]: "StatusScheduled = ''scheduled''"
definition StatusQueued :: status where [source_consts]: "StatusQueued = ''queued''"
definition StatusProcessing :: status where [source_consts]: "StatusProcessing = ''processing''"
definition StatusDelivered :: status where [source_consts]: "StatusDelivered = ''delivered''"
definition StatusFailed :: status where [source_consts]: "StatusFailed = ''failed''"
definition StatusCancelled :: status where [source_consts]: "StatusCancelled = ''cancelled''"

lemma StreamKey_inject [simp]: "StreamKey p = StreamKey q \<longleftrightarrow> p = q"
  by (simp add: StreamKey_def)

section \<open>Records\<close>

record notification =
  n_id :: uuid
  n_idempotency_key :: string
  n_batch_id :: "uuid option"
  n_channel :: channel
  n_priority :: priority
  n_recipient :: string
  n_subject :: string
  n_body :: string
  n_template_id :: "uuid option"
  n_template_vars :: vars
  n_status :: status
  n_scheduled_at :: "time option"
  n_attempt_count :: int
  n_max_retries :: int
  n_last_error :: string
  n_delivered_at :: "time option"
  n_created_at :: time
  n_updated_at :: time

record create_request =
  q_idempotency_key :: string
  q_channel :: channel
  q_priority :: priority
  q_recipient :: string
  q_subject :: string
  q_body :: string
  q_template_id :: "uuid option"
  q_template_vars :: vars
  q_scheduled_at :: "time option"
  q_max_retries :: "int option"

text \<open>The cursor, ordered as SQL orders the row \<open>(created_at, id)\<close>.\<close>

datatype cursor = Cursor (cursor_created_at: time) (cursor_id: uuid)

instantiation cursor :: linorder
begin

definition less_eq_cursor :: "cursor \<Rightarrow> cursor \<Rightarrow> bool" where
  "less_eq_cursor a b \<longleftrightarrow> cursor_created_at a < cursor_created_at b \<or>
     cursor_created_at a = cursor_created_at b \<and> cursor_id a \<le> cursor_id b"

definition less_cursor :: "cursor \<Rightarrow> cursor \<Rightarrow> bool" where
  "less_cursor a b \<longleftrightarrow> cursor_created_at a < cursor_created_at b \<or>
     cursor_created_at a = cursor_created_at b \<and> cursor_id a < cursor_id b"

instance
  by standard
    (auto simp: less_eq_cursor_def less_cursor_def intro: cursor.expand)

end

record notification_filter =
  f_status :: "status option"
  f_channel :: "channel option"
  f_batch_id :: "uuid option"
  f_cursor :: "cursor option"
  f_limit :: int

record notification_list =
  l_notifications :: "notification list"
  l_next_cursor :: "cursor option"

record delivery_attempt =
  a_id :: uuid
  a_notification_id :: uuid
  a_attempt_number :: int
  a_status_code :: int
  a_response_body :: string
  a_error :: string
  a_duration_ms :: int
  a_created_at :: time

record template =
  t_id :: uuid
  t_name :: string
  t_channel :: channel
  t_subject :: string
  t_body :: string
  t_created_at :: time
  t_updated_at :: time

record create_template_request =
  ct_name :: string
  ct_channel :: channel
  ct_subject :: string
  ct_body :: string

record update_template_request =
  ut_name :: "string option"
  ut_channel :: "channel option"
  ut_subject :: "string option"
  ut_body :: "string option"

section \<open>Errors\<close>

datatype sentinel =
    ErrNotFound | ErrDuplicate | ErrIdempotencyConflict | ErrInvalidStatus | ErrCannotCancel
  | ErrBatchTooLarge | ErrInvalidChannel | ErrInvalidPriority | ErrTemplateRender
  | ErrRateLimited | ErrProviderFailure | ErrValidation

fun sentinel_text :: "sentinel \<Rightarrow> string" where
  "sentinel_text ErrNotFound = ''not found''"
| "sentinel_text ErrDuplicate = ''duplicate entry''"
| "sentinel_text ErrIdempotencyConflict = ''idempotency key already exists with different parameters''"
| "sentinel_text ErrInvalidStatus = ''invalid status transition''"
| "sentinel_text ErrCannotCancel = ''notification cannot be cancelled in current status''"
| "sentinel_text ErrBatchTooLarge = ''batch size exceeds maximum of 1000''"
| "sentinel_text ErrInvalidChannel = ''invalid channel''"
| "sentinel_text ErrInvalidPriority = ''invalid priority''"
| "sentinel_text ErrTemplateRender = ''template rendering failed''"
| "sentinel_text ErrRateLimited = ''rate limited''"
| "sentinel_text ErrProviderFailure = ''delivery provider failure''"
| "sentinel_text ErrValidation = ''validation error''"

text \<open>
  \<open>Errorf pre e post\<close> is \<open>fmt.Errorf\<close> with one percent-w verb, \<open>pre\<close> and \<open>post\<close> the formatted
  text around it; an error formatted with percent-v is plain text. \<open>Plain\<close> is an error value
  that wraps nothing (one of a library).
\<close>

datatype go_error = Sentinel sentinel | Errorf string go_error string | Plain string

fun error_text :: "go_error \<Rightarrow> string" where
  "error_text (Sentinel s) = sentinel_text s"
| "error_text (Errorf pre e post) = pre @ error_text e @ post"
| "error_text (Plain s) = s"

fun errors_Is :: "go_error \<Rightarrow> sentinel \<Rightarrow> bool" where
  "errors_Is (Sentinel s) t = (s = t)"
| "errors_Is (Errorf pre e post) t = errors_Is e t"
| "errors_Is (Plain s) t = False"

text \<open>An error chain holds one sentinel at most.\<close>

lemma errors_Is_unique: "errors_Is e s \<Longrightarrow> errors_Is e t \<Longrightarrow> s = t"
  by (induction e) auto

lemma sentinel_text_nonempty: "sentinel_text s \<noteq> ''''"
  by (cases s) simp_all

end
