(* ===== verification/Postgres.thy ===== *)
theory Postgres
  imports Domain
begin

text \<open>
  The database: the three tables of \<open>migrations/\<close> with their constraints, the SQL statements of
  package \<open>internal/repository\<close> as functions on the tables, and the calls that run them.

  The server may fail a call in three ways, which the fault script of the database state
  prescribes call by call: the statement is not run, it is run and its answer is lost, or the
  connection breaks after some rows have been delivered. Everything else is the text of the
  statements and the table definitions.
\<close>

section \<open>Tables\<close>

datatype json_vars = JNull | JObject fields

record nrow =
  r_id :: uuid
  r_idempotency_key :: "string option"
  r_batch_id :: "uuid option"
  r_channel :: string
  r_priority :: string
  r_recipient :: string
  r_subject :: "string option"
  r_body :: string
  r_template_id :: "uuid option"
  r_template_vars :: json_vars
  r_status :: string
  r_scheduled_at :: "time option"
  r_attempt_count :: int
  r_max_retries :: int
  r_last_error :: "string option"
  r_delivered_at :: "time option"
  r_created_at :: time
  r_updated_at :: time

record trow =
  tr_id :: uuid
  tr_name :: string
  tr_channel :: string
  tr_subject :: "string option"
  tr_body :: string
  tr_created_at :: time
  tr_updated_at :: time

record arow =
  ar_id :: uuid
  ar_notification_id :: uuid
  ar_attempt_number :: int
  ar_status_code :: int
  ar_response_body :: "string option"
  ar_error :: "string option"
  ar_duration_ms :: int
  ar_created_at :: time

record tables =
  notifications :: "nrow list"
  templates :: "trow list"
  attempts :: "arow list"

text \<open>The enumerated types of the schema, and the limits of its column types.\<close>

definition channel_type :: "string list" where
  "channel_type = [''sms'', ''email'', ''push'']"

definition priority_type :: "string list" where
  "priority_type = [''high'', ''normal'', ''low'']"

definition status_type :: "string list" where
  "status_type = [''pending'', ''scheduled'', ''queued'', ''processing'', ''delivered'',
     ''failed'', ''cancelled'']"

definition varchar_ok :: "nat \<Rightarrow> string option \<Rightarrow> bool" where
  "varchar_ok n s = (case s of None \<Rightarrow> True | Some s \<Rightarrow> char_count s \<le> n)"

definition opt_text_ok :: "string option \<Rightarrow> bool" where
  "opt_text_ok s = (case s of None \<Rightarrow> True | Some s \<Rightarrow> text_ok s)"

definition json_ok :: "json_vars \<Rightarrow> bool" where
  "json_ok j = (case j of JNull \<Rightarrow> True
     | JObject fs \<Rightarrow> list_all (\<lambda>(k, v). text_ok k \<and> text_ok v) fs)"

text \<open>A \<open>TIMESTAMPTZ\<close> counts microseconds; the client drops what is finer.\<close>

definition timestamptz :: "time \<Rightarrow> time" where
  "timestamptz t = t div 1000 * 1000"

lemma timestamptz_idem [simp]: "timestamptz (timestamptz t) = timestamptz t"
  by (simp add: timestamptz_def)

lemma timestamptz_mono: "s \<le> t \<Longrightarrow> timestamptz s \<le> timestamptz t"
  by (simp add: timestamptz_def zdiv_mono1)

definition int4_ok :: "int \<Rightarrow> bool" where
  "int4_ok i \<longleftrightarrow> - (2 ^ 31) \<le> i \<and> i < 2 ^ 31"

text \<open>
  A server error carries its code and the constraint it names; \<open>pgx\<close> adds \<open>ErrNoRows\<close> and
  connection errors.
\<close>

datatype pg_error = PgError (pg_code: string) (pg_constraint: string) | NoRows | ConnError string

fun pg_text :: "pg_error \<Rightarrow> string" where
  "pg_text (PgError code con) = ''ERROR: '' @ con @ '' (SQLSTATE '' @ code @ '')''"
| "pg_text NoRows = ''no rows in result set''"
| "pg_text (ConnError e) = e"

section \<open>Calls\<close>

datatype fault = Refused string | Lost string | RowsCut nat

record db =
  db_tables :: tables
  db_faults :: "nat \<Rightarrow> fault option"
  db_calls :: nat

type_synonym 'a statement = "tables \<Rightarrow> (pg_error + 'a) \<times> tables"

definition next_call :: "db \<Rightarrow> fault option \<times> db" where
  "next_call d = (db_faults d (db_calls d), d\<lparr>db_calls := Suc (db_calls d)\<rparr>)"

text \<open>\<open>Exec\<close> and \<open>QueryRow(..).Scan\<close>.\<close>

definition pg_exec :: "'a statement \<Rightarrow> db \<Rightarrow> (pg_error + 'a) \<times> db" where
  "pg_exec q d =
     (case next_call d of (fl, d) \<Rightarrow>
       (case q (db_tables d) of (res, t) \<Rightarrow>
         (case fl of
            None \<Rightarrow> (res, d\<lparr>db_tables := t\<rparr>)
          | Some (Refused e) \<Rightarrow> (Inl (ConnError e), d)
          | Some (Lost e) \<Rightarrow> (Inl (ConnError e), d\<lparr>db_tables := t\<rparr>)
          | Some (RowsCut n) \<Rightarrow> (Inl (ConnError ''unexpected EOF''), d\<lparr>db_tables := t\<rparr>))))"

text \<open>
  \<open>Query\<close> and its loop over \<open>rows.Next()\<close>. An error the server raises while it binds or executes
  the statement, and a connection that breaks while rows are read, are left in \<open>rows.Err()\<close>,
  which the code never asks: the loop ends early, without an error.
\<close>

definition rows_seen :: "pg_error + 'a list \<Rightarrow> pg_error + 'a list" where
  "rows_seen res = (case res of Inl _ \<Rightarrow> Inr [] | Inr rows \<Rightarrow> Inr rows)"


definition pg_query :: "'a list statement \<Rightarrow> db \<Rightarrow> (pg_error + 'a list) \<times> db" where
  "pg_query q d =
     (case next_call d of (fl, d) \<Rightarrow>
       (case q (db_tables d) of (res, t) \<Rightarrow>
         (case fl of
            None \<Rightarrow> (rows_seen res, d\<lparr>db_tables := t\<rparr>)
          | Some (Refused e) \<Rightarrow> (Inl (ConnError e), d)
          | Some (Lost e) \<Rightarrow> (Inl (ConnError e), d\<lparr>db_tables := t\<rparr>)
          | Some (RowsCut n) \<Rightarrow> (map_sum id (take n) (rows_seen res), d\<lparr>db_tables := t\<rparr>))))"

definition no_faults :: "db \<Rightarrow> bool" where
  "no_faults d \<longleftrightarrow> (\<forall>k. db_faults d k = None)"

lemma pg_exec_faultless:
  "no_faults d \<Longrightarrow> pg_exec q d =
     (fst (q (db_tables d)), d\<lparr>db_tables := snd (q (db_tables d)), db_calls := Suc (db_calls d)\<rparr>)"
  by (simp add: pg_exec_def next_call_def no_faults_def split: prod.splits)

lemma pg_query_faultless:
  "no_faults d \<Longrightarrow> pg_query q d =
     (rows_seen (fst (q (db_tables d))), d\<lparr>db_tables := snd (q (db_tables d)), db_calls := Suc (db_calls d)\<rparr>)"
  by (simp add: pg_query_def next_call_def no_faults_def split: prod.splits)

lemma no_faults_update [simp]:
  "no_faults (d\<lparr>db_tables := t\<rparr>) \<longleftrightarrow> no_faults d"
  "no_faults (d\<lparr>db_calls := k\<rparr>) \<longleftrightarrow> no_faults d"
  by (simp_all add: no_faults_def)

text \<open>Whatever the fault, the tables end up as before the call or as the statement leaves them.\<close>

lemma pg_exec_tables:
  "db_tables (snd (pg_exec q d)) = db_tables d \<or>
   db_tables (snd (pg_exec q d)) = snd (q (db_tables d))"
  by (auto simp: pg_exec_def next_call_def split: prod.splits option.splits fault.splits)

lemma pg_query_tables:
  "db_tables (snd (pg_query q d)) = db_tables d \<or>
   db_tables (snd (pg_query q d)) = snd (q (db_tables d))"
  by (auto simp: pg_query_def next_call_def split: prod.splits option.splits fault.splits)

lemma pg_exec_ok:
  "pg_exec q d = (Inr x, d') \<Longrightarrow>
     fst (q (db_tables d)) = Inr x \<and> db_tables d' = snd (q (db_tables d))"
  by (auto simp: pg_exec_def next_call_def split: prod.splits option.splits fault.splits)

lemma pg_faults [simp]:
  "db_faults (snd (pg_exec q d)) = db_faults d" "db_faults (snd (pg_query p d)) = db_faults d"
  by (auto simp: pg_exec_def pg_query_def next_call_def
      split: prod.splits option.splits fault.splits)

lemma pg_faults_eq:
  "pg_exec q d = (res, d') \<Longrightarrow> db_faults d' = db_faults d"
  "pg_query p d = (res', d') \<Longrightarrow> db_faults d' = db_faults d"
  by (metis pg_faults snd_conv)+

section \<open>Statements on notifications\<close>

definition nrow_type_error :: "nrow \<Rightarrow> pg_error option" where
  "nrow_type_error r =
     (if r_channel r \<notin> set channel_type \<or> r_priority r \<notin> set priority_type
         \<or> r_status r \<notin> set status_type
      then Some (PgError ''22P02'' '''')
      else if \<not> opt_text_ok (r_idempotency_key r) \<or> \<not> text_ok (r_recipient r)
         \<or> \<not> opt_text_ok (r_subject r) \<or> \<not> text_ok (r_body r)
      then Some (PgError ''22021'' '''')
      else if \<not> json_ok (r_template_vars r) then Some (PgError ''22P05'' '''')
      else if \<not> varchar_ok 255 (r_idempotency_key r) \<or> \<not> varchar_ok 500 (Some (r_recipient r))
         \<or> \<not> varchar_ok 500 (r_subject r)
      then Some (PgError ''22001'' '''')
      else if \<not> int4_ok (r_attempt_count r) \<or> \<not> int4_ok (r_max_retries r)
      then Some (PgError ''22003'' '''')
      else None)"

definition sql_insert_notification :: "nrow \<Rightarrow> unit statement" where [sql_defs]:
  "sql_insert_notification row t =
     (case nrow_type_error row of
        Some e \<Rightarrow> (Inl e, t)
      | None \<Rightarrow>
        if r_id row \<in> r_id ` set (notifications t)
        then (Inl (PgError ''23505'' ''notifications_pkey''), t)
        else if r_idempotency_key row \<noteq> None \<and>
          r_idempotency_key row \<in> r_idempotency_key ` set (notifications t)
        then (Inl (PgError ''23505'' ''idx_notifications_idempotency_key''), t)
        else if r_template_id row \<noteq> None \<and>
          r_template_id row \<notin> (Some \<circ> tr_id) ` set (templates t)
        then (Inl (PgError ''23503'' ''fk_notifications_template_id''), t)
        else (Inr (), t\<lparr>notifications := notifications t @ [row]\<rparr>))"

definition sql_select_notification :: "uuid \<Rightarrow> nrow statement" where [sql_defs]:
  "sql_select_notification i t =
     (case find_row r_id i (notifications t) of None \<Rightarrow> (Inl NoRows, t) | Some r \<Rightarrow> (Inr r, t))"

definition row_cursor :: "nrow \<Rightarrow> cursor" where
  "row_cursor r = Cursor (r_created_at r) (r_id r)"

definition cursor_param :: "cursor \<Rightarrow> cursor" where
  "cursor_param c = Cursor (timestamptz (cursor_created_at c)) (cursor_id c)"

text \<open>The conditions of the \<open>WHERE\<close> clause, each present when the filter's field is.\<close>

definition filter_matches :: "notification_filter \<Rightarrow> nrow \<Rightarrow> bool" where
  "filter_matches f r \<longleftrightarrow>
     (case f_status f of None \<Rightarrow> True | Some s \<Rightarrow> r_status r = s) \<and>
     (case f_channel f of None \<Rightarrow> True | Some c \<Rightarrow> r_channel r = c) \<and>
     (case f_batch_id f of None \<Rightarrow> True | Some b \<Rightarrow> r_batch_id r = Some b) \<and>
     (case f_cursor f of None \<Rightarrow> True | Some c \<Rightarrow> row_cursor r < cursor_param c)"

text \<open>A filter value outside the enumerated type is refused when the parameters are bound.\<close>

definition filter_type_error :: "notification_filter \<Rightarrow> bool" where
  "filter_type_error f \<longleftrightarrow>
     (case f_status f of None \<Rightarrow> False | Some s \<Rightarrow> s \<notin> set status_type) \<or>
     (case f_channel f of None \<Rightarrow> False | Some c \<Rightarrow> c \<notin> set channel_type)"

definition newest_first :: "nrow list \<Rightarrow> nrow list" where
  "newest_first rows = rev (sort_key row_cursor rows)"

definition sql_list_notifications :: "notification_filter \<Rightarrow> int \<Rightarrow> nrow list statement" where [sql_defs]:
  "sql_list_notifications f limit t =
     (if filter_type_error f then (Inl (PgError ''22P02'' ''''), t)
      else (Inr (take (nat limit) (newest_first (filter (filter_matches f) (notifications t)))), t))"

text \<open>An update answers with the number of rows it touched.\<close>

definition update_notifications ::
  "(nrow \<Rightarrow> bool) \<Rightarrow> (nrow \<Rightarrow> nrow) \<Rightarrow> nat statement" where
  "update_notifications p g t =
     (Inr (length (filter p (notifications t))), t\<lparr>notifications := update_rows p g (notifications t)\<rparr>)"

definition sql_set_delivered :: "status \<Rightarrow> time \<Rightarrow> uuid \<Rightarrow> nat statement" where [sql_defs]:
  "sql_set_delivered st now i = update_notifications (\<lambda>r. r_id r = i)
     (\<lambda>r. r\<lparr>r_status := st, r_delivered_at := Some (timestamptz now),
       r_updated_at := timestamptz now\<rparr>)"

definition sql_set_status_error :: "status \<Rightarrow> string \<Rightarrow> time \<Rightarrow> uuid \<Rightarrow> nat statement" where [sql_defs]:
  "sql_set_status_error st e now i t =
     (if \<not> text_ok e then (Inl (PgError ''22021'' ''''), t)
      else update_notifications (\<lambda>r. r_id r = i)
        (\<lambda>r. r\<lparr>r_status := st, r_last_error := Some e, r_updated_at := timestamptz now\<rparr>) t)"

definition sql_set_status :: "status \<Rightarrow> time \<Rightarrow> uuid \<Rightarrow> nat statement" where [sql_defs]:
  "sql_set_status st now i = update_notifications (\<lambda>r. r_id r = i)
     (\<lambda>r. r\<lparr>r_status := st, r_updated_at := timestamptz now\<rparr>)"

definition sql_increment_attempt :: "time \<Rightarrow> uuid \<Rightarrow> nat statement" where [sql_defs]:
  "sql_increment_attempt dbnow i t =
     (if \<exists>r \<in> set (notifications t). r_id r = i \<and> \<not> int4_ok (r_attempt_count r + 1)
      then (Inl (PgError ''22003'' ''''), t)
      else update_notifications (\<lambda>r. r_id r = i)
        (\<lambda>r. r\<lparr>r_attempt_count := r_attempt_count r + 1, r_updated_at := dbnow\<rparr>) t)"

definition cancellable :: "status \<Rightarrow> bool" where
  "cancellable s \<longleftrightarrow> s \<in> {''pending'', ''scheduled'', ''queued''}"

definition sql_cancel :: "time \<Rightarrow> uuid \<Rightarrow> uuid statement" where [sql_defs]:
  "sql_cancel dbnow i t =
     (let p = (\<lambda>r. r_id r = i \<and> cancellable (r_status r)) in
      case find p (notifications t) of
        None \<Rightarrow> (Inl NoRows, t)
      | Some r \<Rightarrow> (Inr i, t\<lparr>notifications := update_rows p
          (\<lambda>r. r\<lparr>r_status := ''cancelled'', r_updated_at := dbnow\<rparr>) (notifications t)\<rparr>))"

text \<open>
  The scheduled rows that are due: the inner \<open>SELECT\<close> orders by \<open>scheduled_at\<close>, takes the first
  \<open>limit\<close> and skips the rows another transaction has locked (\<open>locked\<close>). Rows of equal time may
  come in any order in SQL; here they come in table order.
\<close>

definition due_row :: "time \<Rightarrow> nrow \<Rightarrow> bool" where
  "due_row dbnow r \<longleftrightarrow> r_status r = ''scheduled'' \<and>
     (case r_scheduled_at r of None \<Rightarrow> False | Some s \<Rightarrow> s \<le> dbnow)"

definition scheduled_key :: "nrow \<Rightarrow> time" where
  "scheduled_key r = (case r_scheduled_at r of None \<Rightarrow> 0 | Some s \<Rightarrow> s)"

definition due_selection :: "time \<Rightarrow> nat \<Rightarrow> uuid list \<Rightarrow> nrow list \<Rightarrow> nrow list" where
  "due_selection dbnow limit locked rows =
     take limit (sort_key scheduled_key
       (filter (\<lambda>r. due_row dbnow r \<and> r_id r \<notin> set locked) rows))"

definition sql_fetch_due :: "time \<Rightarrow> int \<Rightarrow> uuid list \<Rightarrow> nrow list statement" where [sql_defs]:
  "sql_fetch_due dbnow limit locked t =
     (if limit < 0 then (Inl (PgError ''2201W'' ''''), t)
      else
        let ids = map r_id (due_selection dbnow (nat limit) locked (notifications t));
            p = (\<lambda>r. r_id r \<in> set ids);
            rows = update_rows p (\<lambda>r. r\<lparr>r_status := ''pending'', r_updated_at := dbnow\<rparr>)
              (notifications t)
        in (Inr (filter p rows), t\<lparr>notifications := rows\<rparr>))"

section \<open>Statements on delivery attempts\<close>

definition sql_insert_attempt :: "arow \<Rightarrow> unit statement" where [sql_defs]:
  "sql_insert_attempt a t =
     (if \<not> int4_ok (ar_attempt_number a) \<or> \<not> int4_ok (ar_status_code a)
      then (Inl (PgError ''22003'' ''''), t)
      else if \<not> opt_text_ok (ar_response_body a) \<or> \<not> opt_text_ok (ar_error a)
      then (Inl (PgError ''22021'' ''''), t)
      else if ar_id a \<in> ar_id ` set (attempts t)
      then (Inl (PgError ''23505'' ''delivery_attempts_pkey''), t)
      else if ar_notification_id a \<notin> r_id ` set (notifications t)
      then (Inl (PgError ''23503'' ''delivery_attempts_notification_id_fkey''), t)
      else (Inr (), t\<lparr>attempts := attempts t @ [a]\<rparr>))"

definition sql_select_attempts :: "uuid \<Rightarrow> arow list statement" where [sql_defs]:
  "sql_select_attempts i t =
     (Inr (sort_key ar_attempt_number (filter (\<lambda>a. ar_notification_id a = i) (attempts t))), t)"

section \<open>Statements on templates\<close>

definition trow_type_error :: "trow \<Rightarrow> pg_error option" where
  "trow_type_error r =
     (if tr_channel r \<notin> set channel_type then Some (PgError ''22P02'' '''')
      else if \<not> text_ok (tr_name r) \<or> \<not> opt_text_ok (tr_subject r) \<or> \<not> text_ok (tr_body r)
      then Some (PgError ''22021'' '''')
      else if \<not> varchar_ok 255 (Some (tr_name r)) \<or> \<not> varchar_ok 500 (tr_subject r)
      then Some (PgError ''22001'' '''')
      else None)"

definition sql_insert_template :: "trow \<Rightarrow> unit statement" where [sql_defs]:
  "sql_insert_template row t =
     (case trow_type_error row of
        Some e \<Rightarrow> (Inl e, t)
      | None \<Rightarrow>
        if tr_id row \<in> tr_id ` set (templates t)
        then (Inl (PgError ''23505'' ''templates_pkey''), t)
        else if tr_name row \<in> tr_name ` set (templates t)
        then (Inl (PgError ''23505'' ''templates_name_key''), t)
        else (Inr (), t\<lparr>templates := templates t @ [row]\<rparr>))"

definition sql_select_template :: "uuid \<Rightarrow> trow statement" where [sql_defs]:
  "sql_select_template i t =
     (case find_row tr_id i (templates t) of None \<Rightarrow> (Inl NoRows, t) | Some r \<Rightarrow> (Inr r, t))"

text \<open>\<open>rank\<close> is the place of a name in the database's collation.\<close>

definition sql_list_templates :: "(string \<Rightarrow> nat) \<Rightarrow> trow list statement" where [sql_defs]:
  "sql_list_templates rank t = (Inr (sort_key (rank \<circ> tr_name) (templates t)), t)"

definition set_template :: "update_template_request \<Rightarrow> time \<Rightarrow> trow \<Rightarrow> trow" where
  "set_template q now r = r\<lparr>
     tr_name := (case ut_name q of None \<Rightarrow> tr_name r | Some s \<Rightarrow> s),
     tr_channel := (case ut_channel q of None \<Rightarrow> tr_channel r | Some s \<Rightarrow> s),
     tr_subject := (case ut_subject q of None \<Rightarrow> tr_subject r | Some s \<Rightarrow> Some s),
     tr_body := (case ut_body q of None \<Rightarrow> tr_body r | Some s \<Rightarrow> s),
     tr_updated_at := timestamptz now\<rparr>"

definition sql_update_template ::
  "update_template_request \<Rightarrow> time \<Rightarrow> uuid \<Rightarrow> trow statement" where [sql_defs]:
  "sql_update_template q now i t =
     (if (case ut_channel q of None \<Rightarrow> False | Some c \<Rightarrow> c \<notin> set channel_type)
      then (Inl (PgError ''22P02'' ''''), t)
      else case find_row tr_id i (templates t) of
        None \<Rightarrow> (Inl NoRows, t)
      | Some r \<Rightarrow>
         (let r' = set_template q now r in
          case trow_type_error r' of
            Some e \<Rightarrow> (Inl e, t)
          | None \<Rightarrow>
             if tr_name r' \<in> tr_name ` set (filter (\<lambda>x. tr_id x \<noteq> i) (templates t))
             then (Inl (PgError ''23505'' ''templates_name_key''), t)
             else (Inr r', t\<lparr>templates :=
                update_rows (\<lambda>x. tr_id x = i) (set_template q now) (templates t)\<rparr>)))"

definition sql_delete_template :: "uuid \<Rightarrow> nat statement" where [sql_defs]:
  "sql_delete_template i t =
     (if i \<in> tr_id ` set (templates t) \<and> Some i \<in> r_template_id ` set (notifications t)
      then (Inl (PgError ''23503'' ''fk_notifications_template_id''), t)
      else (Inr (length (filter (\<lambda>x. tr_id x = i) (templates t))),
            t\<lparr>templates := filter (\<lambda>x. tr_id x \<noteq> i) (templates t)\<rparr>))"

section \<open>Invariants of the tables\<close>

text \<open>
  A predicate that every statement of the program keeps. The client lemmas (one per repository
  function, service and worker) are proved once from it, for every invariant that is interpreted.
  Rows enter the table fresh: pending or scheduled, without attempts.
\<close>

definition fresh_row :: "nrow \<Rightarrow> bool" where
  "fresh_row r \<longleftrightarrow>
     (r_status r = ''pending'' \<or> r_status r = ''scheduled'' \<and> r_scheduled_at r \<noteq> None) \<and>
     r_attempt_count r = 0 \<and> r_idempotency_key r \<noteq> Some '''' \<and> r_delivered_at r = None \<and>
     timestamptz (r_created_at r) = r_created_at r"

definition worker_status :: "status \<Rightarrow> bool" where
  "worker_status s \<longleftrightarrow> s \<in> {''queued'', ''processing'', ''failed''}"

locale tables_invariant =
  fixes I :: "tables \<Rightarrow> bool"
  assumes inv_insert: "I t \<Longrightarrow> fresh_row row \<Longrightarrow> I (snd (sql_insert_notification row t))"
    and inv_delivered: "I t \<Longrightarrow> I (snd (sql_set_delivered ''delivered'' now i t))"
    and inv_status_error: "I t \<Longrightarrow> worker_status st \<Longrightarrow> I (snd (sql_set_status_error st e now i t))"
    and inv_status: "I t \<Longrightarrow> worker_status st \<Longrightarrow> I (snd (sql_set_status st now i t))"
    and inv_increment: "I t \<Longrightarrow> I (snd (sql_increment_attempt now i t))"
    and inv_cancel: "I t \<Longrightarrow> I (snd (sql_cancel now i t))"
    and inv_fetch_due: "I t \<Longrightarrow> I (snd (sql_fetch_due now limit locked t))"
    and inv_attempt: "I t \<Longrightarrow> I (snd (sql_insert_attempt a t))"
    and inv_template: "I t \<Longrightarrow> I (snd (sql_insert_template row' t))"
    and inv_update_template: "I t \<Longrightarrow> I (snd (sql_update_template q now i t))"
    and inv_delete_template: "I t \<Longrightarrow> I (snd (sql_delete_template i t))"
begin

lemma inv_exec: "(I (db_tables d) \<Longrightarrow> I (snd (q (db_tables d)))) \<Longrightarrow>
    I (db_tables d) \<Longrightarrow> I (db_tables (snd (pg_exec q d)))"
  using pg_exec_tables [of q d] by auto

lemma inv_query: "(I (db_tables d) \<Longrightarrow> I (snd (q (db_tables d)))) \<Longrightarrow>
    I (db_tables d) \<Longrightarrow> I (db_tables (snd (pg_query q d)))"
  using pg_query_tables [of q d] by auto

end

text \<open>What the statements do to the three tables, for the invariant proofs.\<close>

lemma notifications_after [row_simps]:
  "notifications (snd (sql_insert_attempt a t)) = notifications t"
  "notifications (snd (sql_insert_template row t)) = notifications t"
  "notifications (snd (sql_update_template q now i t)) = notifications t"
  "notifications (snd (sql_delete_template i t)) = notifications t"
  by (auto simp: sql_defs Let_def split: option.splits)

lemma attempts_after [row_simps]:
  "attempts (snd (sql_insert_notification r t)) = attempts t"
  "attempts (snd (update_notifications p g t)) = attempts t"
  "attempts (snd (sql_increment_attempt now i t)) = attempts t"
  "attempts (snd (sql_cancel now i t)) = attempts t"
  "attempts (snd (sql_fetch_due now limit locked t)) = attempts t"
  "attempts (snd (sql_insert_template row t)) = attempts t"
  "attempts (snd (sql_update_template q now i t)) = attempts t"
  "attempts (snd (sql_delete_template i t)) = attempts t"
  by (auto simp: sql_defs update_notifications_def Let_def split: option.splits)

lemma templates_after [row_simps]:
  "templates (snd (sql_insert_notification r t)) = templates t"
  "templates (snd (update_notifications p g t)) = templates t"
  "templates (snd (sql_increment_attempt now i t)) = templates t"
  "templates (snd (sql_cancel now i t)) = templates t"
  "templates (snd (sql_fetch_due now limit locked t)) = templates t"
  "templates (snd (sql_insert_attempt a t)) = templates t"
  by (auto simp: sql_defs update_notifications_def Let_def split: option.splits)

text \<open>The notification rows after each statement that writes them.\<close>

lemma notifications_update:
  "notifications (snd (update_notifications p g t)) = update_rows p g (notifications t)"
  by (simp add: update_notifications_def)

lemma notifications_insert:
  "notifications (snd (sql_insert_notification r t)) = notifications t \<or>
   notifications (snd (sql_insert_notification r t)) = notifications t @ [r] \<and>
     nrow_type_error r = None \<and> r_id r \<notin> r_id ` set (notifications t) \<and>
     (r_idempotency_key r \<noteq> None \<longrightarrow>
        r_idempotency_key r \<notin> r_idempotency_key ` set (notifications t)) \<and>
     (r_template_id r \<noteq> None \<longrightarrow> r_template_id r \<in> (Some \<circ> tr_id) ` set (templates t))"
  by (auto simp: sql_insert_notification_def split: option.splits)

text \<open>Each of the others maps the rows; what it can do to a row is a row transition.\<close>

inductive row_step :: "nrow \<Rightarrow> nrow \<Rightarrow> bool" where
  row_same: "row_step r r"
| row_delivered: "row_step r (r\<lparr>r_status := ''delivered'', r_delivered_at := Some now, r_updated_at := now\<rparr>)"
| row_status_error: "worker_status st \<Longrightarrow>
    row_step r (r\<lparr>r_status := st, r_last_error := Some e, r_updated_at := now\<rparr>)"
| row_status: "worker_status st \<Longrightarrow> row_step r (r\<lparr>r_status := st, r_updated_at := now\<rparr>)"
| row_increment: "int4_ok (r_attempt_count r + 1) \<Longrightarrow>
    row_step r (r\<lparr>r_attempt_count := r_attempt_count r + 1, r_updated_at := now\<rparr>)"
| row_cancel: "cancellable (r_status r) \<Longrightarrow>
    row_step r (r\<lparr>r_status := ''cancelled'', r_updated_at := now\<rparr>)"
| row_due: "r_status r = ''scheduled'' \<Longrightarrow>
    row_step r (r\<lparr>r_status := ''pending'', r_updated_at := now\<rparr>)"

inductive_cases row_stepE: "row_step r r'"

definition rows_step :: "nrow list \<Rightarrow> nrow list \<Rightarrow> bool" where
  "rows_step rows rows' \<longleftrightarrow> list_all2 row_step rows rows'"

lemma rows_step_refl [intro]: "rows_step rows rows"
  by (simp add: rows_step_def list_all2_refl row_same)

lemma rows_step_update:
  "(\<And>r. r \<in> set rows \<Longrightarrow> p r \<Longrightarrow> row_step r (g r)) \<Longrightarrow> rows_step rows (update_rows p g rows)"
  by (auto simp: rows_step_def update_rows_def list_all2_conv_all_nth row_same)

lemma due_selection_due:
  "set (due_selection now n locked rows) \<subseteq> {r \<in> set rows. due_row now r \<and> r_id r \<notin> set locked}"
  by (auto simp: due_selection_def dest: in_set_takeD)

lemma due_selection_in_ids:
  assumes "distinct (map r_id rows)" "r \<in> set rows"
  shows "r_id r \<in> r_id ` set (due_selection now n locked rows) \<longleftrightarrow>
    r \<in> set (due_selection now n locked rows)"
proof
  assume "r_id r \<in> r_id ` set (due_selection now n locked rows)"
  then obtain x where x: "x \<in> set (due_selection now n locked rows)" "r_id x = r_id r" by auto
  then have "x \<in> set rows" using due_selection_due by fast
  with assms x show "r \<in> set (due_selection now n locked rows)"
    by (metis find_row_unique option.inject)
qed auto

lemma statement_rows:
  "rows_step (notifications t) (notifications (snd (sql_set_delivered ''delivered'' now i t)))"
  "worker_status st \<Longrightarrow>
     rows_step (notifications t) (notifications (snd (sql_set_status_error st e now i t)))"
  "worker_status st \<Longrightarrow>
     rows_step (notifications t) (notifications (snd (sql_set_status st now i t)))"
  "rows_step (notifications t) (notifications (snd (sql_increment_attempt now i t)))"
  "rows_step (notifications t) (notifications (snd (sql_cancel now i t)))"
  by (auto simp: sql_defs notifications_update Let_def intro!: rows_step_update row_step.intros
      split: option.splits)

lemma fetch_due_rows:
  assumes "distinct (map r_id (notifications t))"
  shows "rows_step (notifications t) (notifications (snd (sql_fetch_due now limit locked t)))"
proof -
  have "r_status r = ''scheduled''"
    if "r \<in> set (notifications t)"
      and "r_id r \<in> r_id ` set (due_selection now (nat limit) locked (notifications t))" for r
    using that due_selection_in_ids [OF assms that(1)] due_selection_due
    by (fastforce simp: due_row_def)
  then show ?thesis
    by (auto simp: sql_fetch_due_def Let_def intro!: rows_step_update row_step.intros)
qed

section \<open>Three invariants\<close>

text \<open>
  Keys: identifiers are unique in every table, and so are idempotency keys and template names.
\<close>

definition keys_unique :: "tables \<Rightarrow> bool" where
  "keys_unique t \<longleftrightarrow>
     distinct (map r_id (notifications t)) \<and>
     distinct (filter (\<lambda>k. k \<noteq> None) (map r_idempotency_key (notifications t))) \<and>
     distinct (map tr_id (templates t)) \<and> distinct (map tr_name (templates t)) \<and>
     distinct (map ar_id (attempts t))"

text \<open>Rows: the values a row may hold, and how its fields go together.\<close>

definition row_ok :: "nrow \<Rightarrow> bool" where
  "row_ok r \<longleftrightarrow>
     r_channel r \<in> set channel_type \<and> r_priority r \<in> set priority_type \<and>
     r_status r \<in> set status_type \<and> r_idempotency_key r \<noteq> Some '''' \<and>
     0 \<le> r_attempt_count r \<and> int4_ok (r_attempt_count r) \<and> int4_ok (r_max_retries r) \<and>
     timestamptz (r_created_at r) = r_created_at r \<and>
     (r_status r = ''delivered'' \<longrightarrow> r_delivered_at r \<noteq> None) \<and>
     (r_status r = ''scheduled'' \<longrightarrow> r_scheduled_at r \<noteq> None)"

definition rows_ok :: "tables \<Rightarrow> bool" where
  "rows_ok t \<longleftrightarrow> distinct (map r_id (notifications t)) \<and> (\<forall>r \<in> set (notifications t). row_ok r)"

text \<open>References: attempts name notifications and notifications name templates that exist.\<close>

definition references_ok :: "tables \<Rightarrow> bool" where
  "references_ok t \<longleftrightarrow>
     (\<forall>a \<in> set (attempts t). ar_notification_id a \<in> r_id ` set (notifications t)) \<and>
     (\<forall>r \<in> set (notifications t). \<forall>i. r_template_id r = Some i \<longrightarrow> i \<in> tr_id ` set (templates t))"

lemma row_step_keys:
  "row_step r r' \<Longrightarrow> r_id r' = r_id r \<and> r_idempotency_key r' = r_idempotency_key r \<and>
     r_template_id r' = r_template_id r"
  by (auto elim!: row_stepE)

lemma row_step_ok: "row_step r r' \<Longrightarrow> row_ok r \<Longrightarrow> row_ok r'"
  by (erule row_stepE) (auto simp: row_ok_def worker_status_def status_type_def)

lemma rows_step_maps:
  assumes "rows_step rows rows'"
  shows "map r_id rows' = map r_id rows"
    and "map r_idempotency_key rows' = map r_idempotency_key rows"
    and "map r_template_id rows' = map r_template_id rows"
  using assms unfolding rows_step_def
  by (induction rule: list_all2_induct) (auto dest: row_step_keys)

lemma rows_step_ok: "rows_step rows rows' \<Longrightarrow> \<forall>r \<in> set rows. row_ok r \<Longrightarrow> \<forall>r \<in> set rows'. row_ok r"
  unfolding rows_step_def by (induction rule: list_all2_induct) (auto intro: row_step_ok)

text \<open>An invariant that transitions of the rows keep is kept by every updating statement.\<close>

lemma keys_unique_rows:
  assumes "keys_unique t" "rows_step (notifications t) (notifications t')"
    and "templates t' = templates t" "attempts t' = attempts t"
  shows "keys_unique t'"
  using assms rows_step_maps [OF assms(2)] by (simp add: keys_unique_def)

lemma rows_ok_rows:
  assumes "rows_ok t" "rows_step (notifications t) (notifications t')"
  shows "rows_ok t'"
  using assms rows_step_maps [OF assms(2)] rows_step_ok [OF assms(2)] by (simp add: rows_ok_def)

lemma set_map_eq: "map f xs = map f ys \<Longrightarrow> f ` set xs = f ` set ys"
  by (metis set_map)

lemma references_ok_rows:
  assumes "references_ok t" "rows_step (notifications t) (notifications t')"
    and "templates t' = templates t" "attempts t' = attempts t"
  shows "references_ok t'"
proof -
  have "r_id ` set (notifications t') = r_id ` set (notifications t)"
    and refs: "r_template_id ` set (notifications t') = r_template_id ` set (notifications t)"
    using rows_step_maps(1,3) [OF assms(2), THEN set_map_eq] .
  moreover have "\<exists>r0 \<in> set (notifications t). r_template_id r0 = r_template_id r"
    if "r \<in> set (notifications t')" for r
    using that refs by (metis imageE imageI)
  ultimately show ?thesis
    using assms(1,3,4) unfolding references_ok_def by metis
qed

lemma fresh_row_ok: "fresh_row r \<Longrightarrow> nrow_type_error r = None \<Longrightarrow> row_ok r"
  by (auto simp: fresh_row_def row_ok_def nrow_type_error_def int4_ok_def split: if_splits)

lemmas after_simps = templates_after attempts_after notifications_after

lemma statement_frames [row_simps]:
  "templates (snd (sql_set_delivered st now i t)) = templates t"
  "templates (snd (sql_set_status_error st e now i t)) = templates t"
  "templates (snd (sql_set_status st now i t)) = templates t"
  "attempts (snd (sql_set_delivered st now i t)) = attempts t"
  "attempts (snd (sql_set_status_error st e now i t)) = attempts t"
  "attempts (snd (sql_set_status st now i t)) = attempts t"
  by (simp_all add: sql_set_delivered_def sql_set_status_error_def sql_set_status_def after_simps)

text \<open>The templates after the statements that write them.\<close>

lemma set_template_id [simp]: "tr_id (set_template q now r) = tr_id r"
  by (simp add: set_template_def)

lemma templates_insert:
  "templates (snd (sql_insert_template r t)) = templates t \<or>
   templates (snd (sql_insert_template r t)) = templates t @ [r] \<and>
     trow_type_error r = None \<and> tr_id r \<notin> tr_id ` set (templates t) \<and>
     tr_name r \<notin> tr_name ` set (templates t)"
  by (auto simp: sql_insert_template_def split: option.splits)

lemma templates_delete:
  "templates (snd (sql_delete_template i t)) = templates t \<or>
   templates (snd (sql_delete_template i t)) = filter (\<lambda>x. tr_id x \<noteq> i) (templates t) \<and>
     (i \<in> tr_id ` set (templates t) \<longrightarrow> Some i \<notin> r_template_id ` set (notifications t))"
  by (auto simp: sql_delete_template_def)

lemma templates_update:
  "templates (snd (sql_update_template q now i t)) = templates t \<or>
   (\<exists>r. find_row tr_id i (templates t) = Some r \<and>
     tr_name (set_template q now r) \<notin> tr_name ` set (filter (\<lambda>x. tr_id x \<noteq> i) (templates t)) \<and>
     templates (snd (sql_update_template q now i t)) =
       update_rows (\<lambda>x. tr_id x = i) (set_template q now) (templates t))"
  by (auto simp: sql_update_template_def Let_def split: option.splits)

text \<open>Renaming one row of a table with unique keys and names to an unused name.\<close>

lemma distinct_names_update:
  assumes "distinct (map k rows)" "distinct (map f rows)" "r \<in> set rows" "k r = i"
    and "f (g r) \<notin> f ` set (filter (\<lambda>x. k x \<noteq> i) rows)"
  shows "distinct (map f (update_rows (\<lambda>x. k x = i) g rows))"
proof -
  obtain as bs where rows: "rows = as @ r # bs"
    using assms(3) by (auto simp: in_set_conv_decomp)
  have others: "k x \<noteq> i" if "x \<in> set as \<union> set bs" for x
    using assms(1,4) that by (auto simp: rows) (metis imageI)+
  have "update_rows (\<lambda>x. k x = i) g as = as" "update_rows (\<lambda>x. k x = i) g bs = bs"
    using others by (auto intro!: update_rows_none)
  then have "update_rows (\<lambda>x. k x = i) g rows = as @ g r # bs"
    using assms(4) by (simp add: rows update_rows_def)
  moreover have "f (g r) \<notin> f ` set as" "f (g r) \<notin> f ` set bs"
    using assms(5) others by (auto simp: rows)
  ultimately show ?thesis using assms(2) by (auto simp: rows)
qed

lemma keys_unique_ids: "keys_unique t \<Longrightarrow> distinct (map r_id (notifications t))"
  by (simp add: keys_unique_def)

lemma keys_unique_templates:
  assumes "keys_unique t"
  shows "distinct (map tr_id (templates (snd (sql_update_template q now i t))))"
    and "distinct (map tr_name (templates (snd (sql_update_template q now i t))))"
proof -
  have ids: "distinct (map tr_id (templates t))" and names: "distinct (map tr_name (templates t))"
    using assms by (simp_all add: keys_unique_def)
  show "distinct (map tr_id (templates (snd (sql_update_template q now i t))))"
    using templates_update [of q now i t] ids by (auto simp: map_update_rows)
  show "distinct (map tr_name (templates (snd (sql_update_template q now i t))))"
    using templates_update [of q now i t] names distinct_names_update [OF ids names]
    by (auto dest: find_row_SomeD)
qed

lemma keys_unique_insert:
  assumes "keys_unique t"
  shows "keys_unique (snd (sql_insert_notification r t))"
  using notifications_insert [of r t] assms
  by (auto simp: keys_unique_def after_simps)

lemma keys_unique_attempt: "keys_unique t \<Longrightarrow> keys_unique (snd (sql_insert_attempt a t))"
  by (auto simp: keys_unique_def sql_insert_attempt_def)

interpretation keys: tables_invariant keys_unique
proof unfold_locales
  fix t now limit locked q i row'
  assume k: "keys_unique t"
  show "keys_unique (snd (sql_fetch_due now limit locked t))"
    by (rule keys_unique_rows [OF k fetch_due_rows [OF keys_unique_ids [OF k]]])
      (simp_all add: after_simps)
  show "keys_unique (snd (sql_update_template q now i t))"
    using k keys_unique_templates [OF k, of q now i] by (simp add: keys_unique_def after_simps)
  show "keys_unique (snd (sql_insert_template row' t))"
    using k templates_insert [of row' t] by (auto simp: keys_unique_def after_simps)
  show "keys_unique (snd (sql_delete_template i t))"
    using k templates_delete [of i t]
    by (auto simp: keys_unique_def after_simps distinct_map_filter)
qed (auto intro: keys_unique_rows keys_unique_insert keys_unique_attempt statement_rows
      simp: statement_frames after_simps)

lemma rows_ok_same: "rows_ok t \<Longrightarrow> notifications t' = notifications t \<Longrightarrow> rows_ok t'"
  by (simp add: rows_ok_def)

lemma rows_ok_insert: "rows_ok t \<Longrightarrow> fresh_row r \<Longrightarrow> rows_ok (snd (sql_insert_notification r t))"
  using notifications_insert [of r t] by (auto simp: rows_ok_def fresh_row_ok)

interpretation rows: tables_invariant rows_ok
proof unfold_locales
  fix t now limit locked
  assume k: "rows_ok t"
  then show "rows_ok (snd (sql_fetch_due now limit locked t))"
    by (intro rows_ok_rows [OF k fetch_due_rows]) (simp add: rows_ok_def)
qed (auto intro: rows_ok_rows rows_ok_insert statement_rows rows_ok_same simp: after_simps)

text \<open>References hold together with the keys, which the scheduler's statement needs.\<close>

definition references_inv :: "tables \<Rightarrow> bool" where
  "references_inv t \<longleftrightarrow> keys_unique t \<and> references_ok t"

lemma references_insert:
  "references_ok t \<Longrightarrow> references_ok (snd (sql_insert_notification r t))"
  using notifications_insert [of r t]
  by (fastforce simp: references_ok_def after_simps)

lemma references_templates:
  assumes "references_ok t"
  shows "references_ok (snd (sql_insert_template row t))"
    and "references_ok (snd (sql_update_template q now i t))"
    and "references_ok (snd (sql_delete_template i t))"
proof -
  show "references_ok (snd (sql_insert_template row t))"
    using assms templates_insert [of row t] by (fastforce simp: references_ok_def after_simps)
  have "tr_id ` set (templates (snd (sql_update_template q now i t))) = tr_id ` set (templates t)"
    using templates_update [of q now i t] by (auto simp: map_update_rows intro!: set_map_eq)
  then show "references_ok (snd (sql_update_template q now i t))"
    using assms by (simp add: references_ok_def after_simps)
  show "references_ok (snd (sql_delete_template i t))"
    using assms templates_delete [of i t]
    by (fastforce simp: references_ok_def after_simps image_iff)
qed

lemma references_attempt: "references_ok t \<Longrightarrow> references_ok (snd (sql_insert_attempt a t))"
  by (auto simp: references_ok_def sql_insert_attempt_def)

interpretation refs: tables_invariant references_inv
proof unfold_locales
  fix t now limit locked
  assume "references_inv t"
  then show "references_inv (snd (sql_fetch_due now limit locked t))"
    using keys.inv_fetch_due keys_unique_ids references_ok_rows fetch_due_rows
    by (simp add: references_inv_def after_simps) (metis after_simps)
qed (auto simp: references_inv_def statement_frames after_simps
      intro: references_ok_rows references_insert references_templates references_attempt
        statement_rows keys.inv_insert keys.inv_delivered keys.inv_status_error keys.inv_status
        keys.inv_increment keys.inv_cancel keys.inv_attempt keys.inv_template
        keys.inv_update_template keys.inv_delete_template)

end
