(* ===== verification/Notification_Repo.thy ===== *)
theory Notification_Repo
  imports Postgres
begin

text \<open>
  \<open>repository.NotificationRepository\<close>: one definition per method, over the database calls of
  theory Postgres. Clock readings and fresh identifiers are arguments. A method that returns
  \<open>error\<close> returns an option, a method that returns \<open>(T, error)\<close> a sum; the notification that
  \<open>Create\<close> mutates through its pointer is returned updated.
\<close>

section \<open>Between rows and notifications\<close>

definition nilIfEmpty :: "string \<Rightarrow> string option" where
  "nilIfEmpty s = (if s = '''' then None else Some s)"

definition deref :: "string option \<Rightarrow> string" where
  "deref s = (case s of None \<Rightarrow> '''' | Some x \<Rightarrow> x)"

definition marshal_vars :: "vars \<Rightarrow> json_vars" where
  "marshal_vars v = (case v of None \<Rightarrow> JNull | Some fs \<Rightarrow> JObject fs)"

definition unmarshal_vars :: "json_vars \<Rightarrow> vars" where
  "unmarshal_vars j = (case j of JNull \<Rightarrow> None | JObject fs \<Rightarrow> Some fs)"

text \<open>The column values of the \<open>INSERT\<close>, and what \<open>scanNotification\<close> reads back.\<close>

definition insert_row :: "notification \<Rightarrow> nrow" where
  "insert_row n = \<lparr>
     r_id = n_id n, r_idempotency_key = nilIfEmpty (n_idempotency_key n),
     r_batch_id = n_batch_id n, r_channel = n_channel n, r_priority = n_priority n,
     r_recipient = n_recipient n, r_subject = nilIfEmpty (n_subject n), r_body = n_body n,
     r_template_id = n_template_id n, r_template_vars = marshal_vars (n_template_vars n),
     r_status = n_status n, r_scheduled_at = map_option timestamptz (n_scheduled_at n),
     r_attempt_count = n_attempt_count n, r_max_retries = n_max_retries n,
     r_last_error = None, r_delivered_at = None,
     r_created_at = timestamptz (n_created_at n), r_updated_at = timestamptz (n_updated_at n)\<rparr>"

definition scanNotification :: "nrow \<Rightarrow> notification" where
  "scanNotification r = \<lparr>
     n_id = r_id r, n_idempotency_key = deref (r_idempotency_key r),
     n_batch_id = r_batch_id r, n_channel = r_channel r, n_priority = r_priority r,
     n_recipient = r_recipient r, n_subject = deref (r_subject r), n_body = r_body r,
     n_template_id = r_template_id r, n_template_vars = unmarshal_vars (r_template_vars r),
     n_status = r_status r, n_scheduled_at = r_scheduled_at r,
     n_attempt_count = r_attempt_count r, n_max_retries = r_max_retries r,
     n_last_error = deref (r_last_error r), n_delivered_at = r_delivered_at r,
     n_created_at = r_created_at r, n_updated_at = r_updated_at r\<rparr>"

text \<open>The copy of it that the listing and the fetch of due notifications use.\<close>

definition scanNotificationFromRows :: "nrow \<Rightarrow> notification" where
  "scanNotificationFromRows r = \<lparr>
     n_id = r_id r, n_idempotency_key = deref (r_idempotency_key r),
     n_batch_id = r_batch_id r, n_channel = r_channel r, n_priority = r_priority r,
     n_recipient = r_recipient r, n_subject = deref (r_subject r), n_body = r_body r,
     n_template_id = r_template_id r, n_template_vars = unmarshal_vars (r_template_vars r),
     n_status = r_status r, n_scheduled_at = r_scheduled_at r,
     n_attempt_count = r_attempt_count r, n_max_retries = r_max_retries r,
     n_last_error = deref (r_last_error r), n_delivered_at = r_delivered_at r,
     n_created_at = r_created_at r, n_updated_at = r_updated_at r\<rparr>"

lemma scanNotificationFromRows_same [simp]: "scanNotificationFromRows = scanNotification"
  by (rule ext) (simp add: scanNotificationFromRows_def scanNotification_def)

lemma deref_nilIfEmpty [simp]: "deref (nilIfEmpty s) = s"
  by (simp add: deref_def nilIfEmpty_def)

lemma unmarshal_marshal [simp]: "unmarshal_vars (marshal_vars v) = v"
  by (cases v) (simp_all add: marshal_vars_def unmarshal_vars_def)

lemma scan_insert:
  "scanNotification (insert_row n) = n\<lparr>n_last_error := '''', n_delivered_at := None,
     n_scheduled_at := map_option timestamptz (n_scheduled_at n),
     n_created_at := timestamptz (n_created_at n), n_updated_at := timestamptz (n_updated_at n)\<rparr>"
  by (simp add: scanNotification_def insert_row_def deref_def [of None])

lemma scan_fields [simp]:
  "n_id (scanNotification r) = r_id r" "n_status (scanNotification r) = r_status r"
  "n_created_at (scanNotification r) = r_created_at r"
  "n_channel (scanNotification r) = r_channel r" "n_priority (scanNotification r) = r_priority r"
  "n_attempt_count (scanNotification r) = r_attempt_count r"
  "n_max_retries (scanNotification r) = r_max_retries r"
  by (simp_all add: scanNotification_def)

section \<open>Create\<close>

definition wrapped :: "string \<Rightarrow> pg_error \<Rightarrow> go_error" where
  "wrapped what e = Errorf (what @ '': '') (Plain (pg_text e)) ''''"

definition create_error :: "pg_error \<Rightarrow> go_error" where
  "create_error e =
     (case e of
        PgError code con \<Rightarrow>
          if code = ''23505''
          then (if strings_contains con ''idempotency'' then Sentinel ErrIdempotencyConflict
                else Sentinel ErrDuplicate)
          else wrapped ''inserting notification'' e
      | _ \<Rightarrow> wrapped ''inserting notification'' e)"

definition stamped :: "time \<Rightarrow> uuid \<Rightarrow> notification \<Rightarrow> notification" where
  "stamped now i n = n\<lparr>n_id := i, n_created_at := now, n_updated_at := now\<rparr>"

definition repo_Create ::
  "time \<Rightarrow> uuid \<Rightarrow> notification \<Rightarrow> db \<Rightarrow> go_error option \<times> notification \<times> db" where
  "repo_Create now i n d =
     (let n = stamped now i n in
      case pg_exec (sql_insert_notification (insert_row n)) d of
        (Inl e, d) \<Rightarrow> (Some (create_error e), n, d)
      | (Inr _, d) \<Rightarrow> (None, n, d))"

section \<open>CreateBatch\<close>

text \<open>
  A transaction: statements run on a working copy of the tables, which \<open>Commit\<close> installs and an
  early return abandons (the deferred \<open>Rollback\<close>). The rollback's own answer is dropped.
\<close>

definition batch_error :: "pg_error \<Rightarrow> go_error" where
  "batch_error e =
     (case e of
        PgError code con \<Rightarrow>
          if code = ''23505'' then Sentinel ErrIdempotencyConflict
          else wrapped ''inserting notification in batch'' e
      | _ \<Rightarrow> wrapped ''inserting notification in batch'' e)"

definition tx_exec :: "'a statement \<Rightarrow> db \<times> tables \<Rightarrow> (pg_error + 'a) \<times> db \<times> tables" where
  "tx_exec q s =
     (case s of (d, work) \<Rightarrow>
       (case next_call d of
          (None, d) \<Rightarrow> (case q work of (res, work) \<Rightarrow> (res, d, work))
        | (Some _, d) \<Rightarrow> (Inl (ConnError ''connection lost''), d, work)))"

fun batch_loop ::
  "time \<Rightarrow> (nat \<Rightarrow> uuid) \<Rightarrow> nat \<Rightarrow> notification list \<Rightarrow> db \<times> tables \<Rightarrow>
     (go_error + notification list) \<times> db \<times> tables" where
  "batch_loop now ids k [] s = (Inr [], s)"
| "batch_loop now ids k (n # ns) s =
     (let n = stamped now (ids k) n in
      case tx_exec (sql_insert_notification (insert_row n)) s of
        (Inl e, s) \<Rightarrow> (Inl (batch_error e), s)
      | (Inr _, s) \<Rightarrow>
         (case batch_loop now ids (Suc k) ns s of
            (Inl e, s) \<Rightarrow> (Inl e, s)
          | (Inr ns, s) \<Rightarrow> (Inr (n # ns), s)))"

definition repo_CreateBatch ::
  "time \<Rightarrow> (nat \<Rightarrow> uuid) \<Rightarrow> notification list \<Rightarrow> db \<Rightarrow> (go_error + notification list) \<times> db" where
  "repo_CreateBatch now ids ns d =
     (case pg_exec (\<lambda>t. (Inr (), t)) d of
        (Inl e, d) \<Rightarrow> (Inl (wrapped ''beginning transaction'' e), d)
      | (Inr _, d) \<Rightarrow>
         (case batch_loop now ids 0 ns (d, db_tables d) of
            (Inl e, d, _) \<Rightarrow> (Inl e, d)
          | (Inr ns, d, work) \<Rightarrow>
             (case pg_exec (\<lambda>_. (Inr (), work)) d of
                (Inl e, d) \<Rightarrow> (Inl (wrapped ''committing batch'' e), d)
              | (Inr _, d) \<Rightarrow> (Inr ns, d))))"

section \<open>Reads\<close>

definition repo_GetByID :: "uuid \<Rightarrow> db \<Rightarrow> (go_error + notification) \<times> db" where
  "repo_GetByID i d =
     (case pg_exec (sql_select_notification i) d of
        (Inl NoRows, d) \<Rightarrow> (Inl (Sentinel ErrNotFound), d)
      | (Inl e, d) \<Rightarrow> (Inl (wrapped ''scanning notification'' e), d)
      | (Inr r, d) \<Rightarrow> (Inr (scanNotification r), d))"

definition effective_limit :: "int \<Rightarrow> int" where
  "effective_limit l = (if l \<le> 0 \<or> l > 100 then 50 else l)"

definition repo_List :: "notification_filter \<Rightarrow> db \<Rightarrow> (go_error + notification_list) \<times> db" where
  "repo_List f d =
     (let limit = effective_limit (f_limit f) in
      case pg_query (sql_list_notifications f (limit + 1)) d of
        (Inl e, d) \<Rightarrow> (Inl (wrapped ''querying notifications'' e), d)
      | (Inr rows, d) \<Rightarrow>
         (let ns = map scanNotificationFromRows rows in
          if int (length ns) > limit
          then let ns = take (nat limit) ns; final = last ns in
            (Inr \<lparr>l_notifications = ns,
                  l_next_cursor = Some (Cursor (n_created_at final) (n_id final))\<rparr>, d)
          else (Inr \<lparr>l_notifications = ns, l_next_cursor = None\<rparr>, d)))"

section \<open>Updates\<close>

definition repo_UpdateStatus ::
  "time \<Rightarrow> uuid \<Rightarrow> status \<Rightarrow> string \<Rightarrow> db \<Rightarrow> go_error option \<times> db" where
  "repo_UpdateStatus now i st lastError d =
     (let query =
        (if st = StatusDelivered then sql_set_delivered st now i
         else if lastError \<noteq> '''' then sql_set_status_error st lastError now i
         else sql_set_status st now i)
      in case pg_exec query d of
        (Inl e, d) \<Rightarrow> (Some (wrapped ''updating notification status'' e), d)
      | (Inr k, d) \<Rightarrow> (if k = 0 then Some (Sentinel ErrNotFound) else None, d))"

definition repo_IncrementAttempt :: "time \<Rightarrow> uuid \<Rightarrow> db \<Rightarrow> go_error option \<times> db" where
  "repo_IncrementAttempt dbnow i d =
     (case pg_exec (sql_increment_attempt dbnow i) d of
        (Inl e, d) \<Rightarrow> (Some (Plain (pg_text e)), d)
      | (Inr _, d) \<Rightarrow> (None, d))"

definition repo_Cancel :: "time \<Rightarrow> uuid \<Rightarrow> db \<Rightarrow> go_error option \<times> db" where
  "repo_Cancel dbnow i d =
     (case pg_exec (sql_cancel dbnow i) d of
        (Inl NoRows, d) \<Rightarrow>
          (case repo_GetByID i d of
             (Inl _, d) \<Rightarrow> (Some (Sentinel ErrNotFound), d)
           | (Inr existing, d) \<Rightarrow> (Some (Sentinel ErrCannotCancel), d))
      | (Inl e, d) \<Rightarrow> (Some (Plain (pg_text e)), d)
      | (Inr _, d) \<Rightarrow> (None, d))"

definition repo_FetchScheduledDue ::
  "time \<Rightarrow> int \<Rightarrow> uuid list \<Rightarrow> db \<Rightarrow> (go_error + notification list) \<times> db" where
  "repo_FetchScheduledDue dbnow limit locked d =
     (case pg_query (sql_fetch_due dbnow limit locked) d of
        (Inl e, d) \<Rightarrow> (Inl (wrapped ''fetching scheduled notifications'' e), d)
      | (Inr rows, d) \<Rightarrow> (Inr (map scanNotificationFromRows rows), d))"

section \<open>Delivery attempts\<close>

definition attempt_row :: "delivery_attempt \<Rightarrow> arow" where
  "attempt_row a = \<lparr>ar_id = a_id a, ar_notification_id = a_notification_id a,
     ar_attempt_number = a_attempt_number a, ar_status_code = a_status_code a,
     ar_response_body = nilIfEmpty (a_response_body a), ar_error = nilIfEmpty (a_error a),
     ar_duration_ms = a_duration_ms a, ar_created_at = timestamptz (a_created_at a)\<rparr>"

definition scan_attempt :: "arow \<Rightarrow> delivery_attempt" where
  "scan_attempt r = \<lparr>a_id = ar_id r, a_notification_id = ar_notification_id r,
     a_attempt_number = ar_attempt_number r, a_status_code = ar_status_code r,
     a_response_body = deref (ar_response_body r), a_error = deref (ar_error r),
     a_duration_ms = ar_duration_ms r, a_created_at = ar_created_at r\<rparr>"

lemma scan_attempt_row [simp]:
  "scan_attempt (attempt_row a) = a\<lparr>a_created_at := timestamptz (a_created_at a)\<rparr>"
  by (simp add: scan_attempt_def attempt_row_def)

definition repo_CreateDeliveryAttempt ::
  "time \<Rightarrow> uuid \<Rightarrow> delivery_attempt \<Rightarrow> db \<Rightarrow> go_error option \<times> db" where
  "repo_CreateDeliveryAttempt now i a d =
     (let a = a\<lparr>a_id := i, a_created_at := now\<rparr> in
      case pg_exec (sql_insert_attempt (attempt_row a)) d of
        (Inl e, d) \<Rightarrow> (Some (Plain (pg_text e)), d)
      | (Inr _, d) \<Rightarrow> (None, d))"

definition repo_GetDeliveryAttempts :: "uuid \<Rightarrow> db \<Rightarrow> (go_error + delivery_attempt list) \<times> db" where
  "repo_GetDeliveryAttempts i d =
     (case pg_query (sql_select_attempts i) d of
        (Inl e, d) \<Rightarrow> (Inl (wrapped ''querying delivery attempts'' e), d)
      | (Inr rows, d) \<Rightarrow> (Inr (map scan_attempt rows), d))"

section \<open>Every method keeps every invariant of the tables\<close>

text \<open>The notifications that the services hand to \<open>Create\<close> and \<open>CreateBatch\<close>.\<close>

definition fresh_notification :: "notification \<Rightarrow> bool" where
  "fresh_notification n \<longleftrightarrow>
     (n_status n = StatusPending \<or> n_status n = StatusScheduled \<and> n_scheduled_at n \<noteq> None) \<and>
     n_attempt_count n = 0"

lemma fresh_insert_row: "fresh_notification n \<Longrightarrow> fresh_row (insert_row (stamped now i n))"
  by (auto simp: fresh_notification_def fresh_row_def insert_row_def stamped_def nilIfEmpty_def
      source_consts)

lemma tx_exec_tables:
  "tx_exec q (d, work) = (res, d', work') \<Longrightarrow>
     db_tables d' = db_tables d \<and> (work' = work \<or> work' = snd (q work))"
  by (auto simp: tx_exec_def next_call_def split: option.splits prod.splits)

context tables_invariant
begin

lemma inv_batch_loop:
  assumes "batch_loop now ids k ns (d, work) = (res, d', work')"
    and "\<forall>n \<in> set ns. fresh_notification n" "I work"
  shows "db_tables d' = db_tables d \<and> I work'"
  using assms
proof (induction ns arbitrary: k d work res d' work')
  case (Cons n ns)
  let ?q = "sql_insert_notification (insert_row (stamped now (ids k) n))"
  obtain r1 d1 w1 where x: "tx_exec ?q (d, work) = (r1, d1, w1)" by (metis surj_pair)
  have w1: "I w1" and d1: "db_tables d1 = db_tables d"
    using tx_exec_tables [OF x] Cons.prems inv_insert fresh_insert_row by auto
  show ?case
  proof (cases r1)
    case (Inl e)
    then show ?thesis using Cons.prems(1) x w1 d1 by simp
  next
    case (Inr u)
    obtain r2 d2 w2 where y: "batch_loop now ids (Suc k) ns (d1, w1) = (r2, d2, w2)"
      by (metis surj_pair)
    have "db_tables d2 = db_tables d1 \<and> I w2"
      using Cons.IH [OF y _ w1] Cons.prems(2) by simp
    then show ?thesis
      using Cons.prems(1) x Inr y d1 by (auto split: sum.splits)
  qed
qed simp

lemma inv_repo_Create:
  "I (db_tables d) \<Longrightarrow> fresh_notification n \<Longrightarrow> repo_Create now i n d = (e, n', d') \<Longrightarrow>
     I (db_tables d')"
  using inv_exec [of d "sql_insert_notification (insert_row (stamped now i n))"]
    inv_insert [of "db_tables d"] fresh_insert_row [of n now i]
  by (auto simp: repo_Create_def Let_def split: prod.splits sum.splits)

lemma inv_repo_CreateBatch:
  assumes "I (db_tables d)" "\<forall>n \<in> set ns. fresh_notification n"
    and "repo_CreateBatch now ids ns d = (res, d')"
  shows "I (db_tables d')"
proof -
  obtain r0 d0 where b: "pg_exec (\<lambda>t. (Inr (), t)) d = (r0, d0)" by (metis surj_pair)
  have d0: "I (db_tables d0)" using inv_exec [of d "\<lambda>t. (Inr (), t)"] b assms(1) by simp
  obtain r1 d1 w1 where l: "batch_loop now ids 0 ns (d0, db_tables d0) = (r1, d1, w1)"
    by (metis surj_pair)
  have d1: "I (db_tables d1)" "I w1" using inv_batch_loop [OF l assms(2) d0] d0 by auto
  obtain r2 d2 where c: "pg_exec (\<lambda>_. (Inr (), w1)) d1 = (r2, d2)" by (metis surj_pair)
  have "I (db_tables d2)" using inv_exec [of d1 "\<lambda>_. (Inr (), w1)"] c d1 by simp
  then show ?thesis
    using assms(3) b l c d0 d1 by (auto simp: repo_CreateBatch_def split: sum.splits)
qed

lemma inv_repo_GetByID: "I (db_tables d) \<Longrightarrow> I (db_tables (snd (repo_GetByID i d)))"
  using inv_exec [of d "sql_select_notification i"]
  by (auto simp: repo_GetByID_def sql_select_notification_def split: prod.splits sum.splits
      option.splits pg_error.splits)

lemma inv_repo_UpdateStatus:
  assumes "I (db_tables d)" "worker_status st \<or> st = StatusDelivered"
  shows "I (db_tables (snd (repo_UpdateStatus now i st e d)))"
proof -
  let ?q = "if st = StatusDelivered then sql_set_delivered st now i
    else if e \<noteq> '''' then sql_set_status_error st e now i else sql_set_status st now i"
  have "I (snd (?q (db_tables d)))"
    using assms inv_delivered inv_status_error inv_status by (auto simp: source_consts)
  then have "I (db_tables (snd (pg_exec ?q d)))" using inv_exec assms(1) by blast
  moreover obtain res d' where "pg_exec ?q d = (res, d')" by (metis surj_pair)
  ultimately show ?thesis
    by (cases res) (simp_all only: repo_UpdateStatus_def Let_def prod.case sum.case snd_conv)
qed

lemma inv_repo_IncrementAttempt:
  "I (db_tables d) \<Longrightarrow> I (db_tables (snd (repo_IncrementAttempt now i d)))"
  using inv_exec [of d "sql_increment_attempt now i"] inv_increment
  by (auto simp: repo_IncrementAttempt_def split: prod.splits sum.splits)

lemma inv_repo_Cancel: "I (db_tables d) \<Longrightarrow> I (db_tables (snd (repo_Cancel now i d)))"
  using inv_exec [of d "sql_cancel now i"] inv_cancel [of "db_tables d" now i]
    inv_repo_GetByID [of "snd (pg_exec (sql_cancel now i) d)" i]
  by (auto simp: repo_Cancel_def split: prod.splits sum.splits pg_error.splits)

lemma inv_repo_FetchScheduledDue:
  "I (db_tables d) \<Longrightarrow> I (db_tables (snd (repo_FetchScheduledDue now limit locked d)))"
  using inv_query [of d "sql_fetch_due now limit locked"] inv_fetch_due
  by (auto simp: repo_FetchScheduledDue_def split: prod.splits sum.splits)

lemma inv_repo_CreateDeliveryAttempt:
  "I (db_tables d) \<Longrightarrow> I (db_tables (snd (repo_CreateDeliveryAttempt now i a d)))"
  using inv_exec [of d "sql_insert_attempt (attempt_row (a\<lparr>a_id := i, a_created_at := now\<rparr>))"] inv_attempt
  by (auto simp: repo_CreateDeliveryAttempt_def Let_def split: prod.splits sum.splits)

lemmas repo_invs = inv_repo_GetByID inv_repo_UpdateStatus inv_repo_IncrementAttempt
  inv_repo_Cancel inv_repo_FetchScheduledDue inv_repo_CreateDeliveryAttempt

end

end
