(* ===== verification/Template_Repo.thy ===== *)
theory Template_Repo
  imports Notification_Repo
begin

text \<open>\<open>repository.TemplateRepository\<close>: create, read, list, partial update and delete.\<close>

definition template_row :: "template \<Rightarrow> trow" where
  "template_row t = \<lparr>tr_id = t_id t, tr_name = t_name t, tr_channel = t_channel t,
     tr_subject = nilIfEmpty (t_subject t), tr_body = t_body t,
     tr_created_at = timestamptz (t_created_at t), tr_updated_at = timestamptz (t_updated_at t)\<rparr>"

definition scan_template :: "trow \<Rightarrow> template" where
  "scan_template r = \<lparr>t_id = tr_id r, t_name = tr_name r, t_channel = tr_channel r,
     t_subject = deref (tr_subject r), t_body = tr_body r,
     t_created_at = tr_created_at r, t_updated_at = tr_updated_at r\<rparr>"

lemma scan_template_row [simp]:
  "scan_template (template_row t) = t\<lparr>t_created_at := timestamptz (t_created_at t),
     t_updated_at := timestamptz (t_updated_at t)\<rparr>"
  by (simp add: scan_template_def template_row_def)

definition template_error :: "string \<Rightarrow> pg_error \<Rightarrow> go_error" where
  "template_error what e =
     (case e of
        PgError code con \<Rightarrow> if code = ''23505'' then Sentinel ErrDuplicate else wrapped what e
      | _ \<Rightarrow> wrapped what e)"

definition tmpl_repo_Create ::
  "time \<Rightarrow> uuid \<Rightarrow> template \<Rightarrow> db \<Rightarrow> go_error option \<times> template \<times> db" where
  "tmpl_repo_Create now i t d =
     (let t = t\<lparr>t_id := i, t_created_at := now, t_updated_at := now\<rparr> in
      case pg_exec (sql_insert_template (template_row t)) d of
        (Inl e, d) \<Rightarrow> (Some (template_error ''inserting template'' e), t, d)
      | (Inr _, d) \<Rightarrow> (None, t, d))"

definition tmpl_repo_GetByID :: "uuid \<Rightarrow> db \<Rightarrow> (go_error + template) \<times> db" where
  "tmpl_repo_GetByID i d =
     (case pg_exec (sql_select_template i) d of
        (Inl NoRows, d) \<Rightarrow> (Inl (Sentinel ErrNotFound), d)
      | (Inl e, d) \<Rightarrow> (Inl (wrapped ''querying template'' e), d)
      | (Inr r, d) \<Rightarrow> (Inr (scan_template r), d))"

definition tmpl_repo_List :: "(string \<Rightarrow> nat) \<Rightarrow> db \<Rightarrow> (go_error + template list) \<times> db" where
  "tmpl_repo_List rank d =
     (case pg_query (sql_list_templates rank) d of
        (Inl e, d) \<Rightarrow> (Inl (wrapped ''querying templates'' e), d)
      | (Inr rows, d) \<Rightarrow> (Inr (map scan_template rows), d))"

definition tmpl_repo_Update ::
  "time \<Rightarrow> uuid \<Rightarrow> update_template_request \<Rightarrow> db \<Rightarrow> (go_error + template) \<times> db" where
  "tmpl_repo_Update now i q d =
     (if ut_name q = None \<and> ut_channel q = None \<and> ut_subject q = None \<and> ut_body q = None
      then tmpl_repo_GetByID i d
      else case pg_exec (sql_update_template q now i) d of
        (Inl NoRows, d) \<Rightarrow> (Inl (Sentinel ErrNotFound), d)
      | (Inl e, d) \<Rightarrow> (Inl (template_error ''updating template'' e), d)
      | (Inr r, d) \<Rightarrow> (Inr (scan_template r), d))"

definition tmpl_repo_Delete :: "uuid \<Rightarrow> db \<Rightarrow> go_error option \<times> db" where
  "tmpl_repo_Delete i d =
     (case pg_exec (sql_delete_template i) d of
        (Inl e, d) \<Rightarrow> (Some (wrapped ''deleting template'' e), d)
      | (Inr k, d) \<Rightarrow> (if k = 0 then Some (Sentinel ErrNotFound) else None, d))"

lemma tmpl_repo_GetByID_tables [simp]:
  "db_tables (snd (tmpl_repo_GetByID i d)) = db_tables d"
proof -
  have "snd (sql_select_template i t) = t" for t
    by (simp add: sql_select_template_def split: option.splits)
  then show ?thesis
    using pg_exec_tables [of "sql_select_template i" d]
    by (auto simp: tmpl_repo_GetByID_def split: prod.splits sum.splits pg_error.splits)
qed

lemma tmpl_repo_GetByID_faults [simp]:
  "db_faults (snd (tmpl_repo_GetByID i d)) = db_faults d"
  by (auto simp: tmpl_repo_GetByID_def dest: pg_faults_eq
      split: prod.splits sum.splits pg_error.splits)

context tables_invariant
begin

lemma inv_tmpl_repo_Create:
  "I (db_tables d) \<Longrightarrow> I (db_tables (snd (snd (tmpl_repo_Create now i t d))))"
  using inv_exec [of d "sql_insert_template (template_row (t\<lparr>t_id := i, t_created_at := now, t_updated_at := now\<rparr>))"]
    inv_template
  by (auto simp: tmpl_repo_Create_def Let_def split: prod.splits sum.splits)

lemma inv_tmpl_repo_Update:
  "I (db_tables d) \<Longrightarrow> I (db_tables (snd (tmpl_repo_Update now i q d)))"
  using inv_exec [of d "sql_update_template q now i"] inv_update_template
  by (auto simp: tmpl_repo_Update_def split: prod.splits sum.splits pg_error.splits)

lemma inv_tmpl_repo_Delete:
  "I (db_tables d) \<Longrightarrow> I (db_tables (snd (tmpl_repo_Delete i d)))"
  using inv_exec [of d "sql_delete_template i"] inv_delete_template
  by (auto simp: tmpl_repo_Delete_def split: prod.splits sum.splits)

lemmas tmpl_invs = inv_tmpl_repo_Create inv_tmpl_repo_Update inv_tmpl_repo_Delete

end

end
