(* ===== verification/Environment.thy ===== *)
theory Environment
  imports Domain
begin

text \<open>
  The code the program calls and does not contain, as one record of functions that the
  definitions take as an argument: \<open>github.com/google/uuid\<close>, \<open>net/mail\<close>, \<open>text/template\<close>, the
  struct validator and the RFC 3339 rendering of a local time. What the program relies on is
  stated as a predicate on the record (\<open>uuid_laws\<close>, \<open>tag_laws\<close>), a hypothesis of the properties
  that need it; \<open>example_lib\<close> is one record that satisfies both.
\<close>

record lib =
  uuid_String :: "uuid \<Rightarrow> string"
  uuid_Parse :: "string \<Rightarrow> uuid \<times> string option"
    \<comment> \<open>the value and the error text: Go's pair, a value also comes with an error\<close>
  mail_ParseAddress :: "string \<Rightarrow> bool"
    \<comment> \<open>whether \<open>net/mail\<close> accepts the address\<close>
  template_Parse :: "string \<Rightarrow> string option"
    \<comment> \<open>the syntax error of a template text, if any\<close>
  template_Execute :: "string \<Rightarrow> vars \<Rightarrow> string + string"
    \<comment> \<open>executing the parsed text on the variables: an error or the output\<close>
  check_create :: "create_request \<Rightarrow> string option"
  check_batch :: "create_request list \<Rightarrow> string option"
  check_create_template :: "create_template_request \<Rightarrow> string option"
  check_update_template :: "update_template_request \<Rightarrow> string option"
    \<comment> \<open>\<open>validate.Struct\<close> on the four request types: the validation error, if any\<close>
  format_RFC3339 :: "time \<Rightarrow> string"

text \<open>
  What the program relies on of the uuid package: parsing the canonical text of an identifier
  gives it back without an error, and the text holds no colon.
\<close>

definition uuid_laws :: "lib \<Rightarrow> bool" where
  "uuid_laws L \<longleftrightarrow> (\<forall>u. uuid_Parse L (uuid_String L u) = (u, None)) \<and>
     (\<forall>u. CHR '':'' \<notin> set (uuid_String L u))"

lemma uuid_lawsD [simp]:
  assumes "uuid_laws L"
  shows "uuid_Parse L (uuid_String L u) = (u, None)"
    and "CHR '':'' \<notin> set (uuid_String L u)"
  using assms by (simp_all add: uuid_laws_def)

lemma uuid_String_inject:
  "uuid_laws L \<Longrightarrow> uuid_String L u = uuid_String L v \<longleftrightarrow> u = v"
  by (metis prod.inject uuid_lawsD(1))

text \<open>
  What it relies on of the validator: the length tags of the requests are enforced
  (\<open>max=1000\<close> and \<open>min=1\<close> on the batch, \<open>min=0,max=10\<close> on \<open>max_retries\<close>).
\<close>

definition tag_laws :: "lib \<Rightarrow> bool" where
  "tag_laws L \<longleftrightarrow>
     (\<forall>rs. check_batch L rs = None \<longrightarrow> rs \<noteq> [] \<and> length rs \<le> 1000) \<and>
     (\<forall>q m. check_create L q = None \<longrightarrow> q_max_retries q = Some m \<longrightarrow> 0 \<le> m \<and> m \<le> 10)"

text \<open>
  One record that satisfies the laws: identifiers written in decimal, an address that holds an
  at sign, templates without actions.
\<close>

definition example_parse :: "string \<Rightarrow> uuid \<times> string option" where
  "example_parse s =
     (if s \<noteq> [] \<and> list_all is_digit s then (of_nat (digits_value s), None)
      else (0, Some ''invalid UUID''))"

definition example_lib :: lib where
  "example_lib = \<lparr>
     uuid_String = (\<lambda>u. digits (unat u)),
     uuid_Parse = example_parse,
     mail_ParseAddress = (\<lambda>s. CHR ''@'' \<in> set s),
     template_Parse = (\<lambda>s. None),
     template_Execute = (\<lambda>s vs. Inr s),
     check_create = (\<lambda>q. case q_max_retries q of
        None \<Rightarrow> None | Some m \<Rightarrow> if 0 \<le> m \<and> m \<le> 10 then None else Some ''max_retries''),
     check_batch = (\<lambda>rs. if rs = [] \<or> 1000 < length rs then Some ''notifications'' else None),
     check_create_template = (\<lambda>q. None),
     check_update_template = (\<lambda>q. None),
     format_RFC3339 = (\<lambda>t. int_text t) \<rparr>"

lemma example_lib_uuid [simp]: "uuid_laws example_lib"
proof -
  have "CHR '':'' \<notin> set (digits n)" for n
    by (rule list_all_notin [OF digits_are_digits]) (simp add: is_digit_def)
  then show ?thesis
    by (simp add: uuid_laws_def example_lib_def example_parse_def digits_are_digits
        digits_value_digits)
qed

lemma example_lib_tags [simp]: "tag_laws example_lib"
  by (auto simp: tag_laws_def example_lib_def split: if_splits)

end
