(* ===== verification/Validator.thy ===== *)
theory Validator
  imports Environment
begin

text \<open>
  Package \<open>internal/validator\<close>: the per-channel content rules. The E.164 regular expression and
  \<open>strings.TrimSpace(s) == ""\<close> are written out on bytes; \<open>net/mail\<close> is a parameter.
\<close>

section \<open>The phone pattern and blank strings\<close>

text \<open>The regular expression: a plus, a digit from 1 to 9, then 6 to 14 digits, anchored.\<close>

fun phoneRegex_match :: "string \<Rightarrow> bool" where
  "phoneRegex_match (p # d # ds) \<longleftrightarrow>
     p = CHR ''+'' \<and> is_digit d \<and> d \<noteq> CHR ''0'' \<and>
     6 \<le> length ds \<and> length ds \<le> 14 \<and> list_all is_digit ds"
| "phoneRegex_match _ \<longleftrightarrow> False"

text \<open>
  \<open>strings.TrimSpace(s)\<close> is empty when every character is white space: the six ASCII ones, and
  the UTF-8 forms of U+0085, U+00A0, U+1680, U+2000 to U+200A, U+2028, U+2029, U+202F, U+205F
  and U+3000.
\<close>

definition ascii_space :: "nat \<Rightarrow> bool" where
  "ascii_space b \<longleftrightarrow> b = 32 \<or> 9 \<le> b \<and> b \<le> 13"

definition space2 :: "nat \<Rightarrow> nat \<Rightarrow> bool" where
  "space2 a b \<longleftrightarrow> a = 194 \<and> (b = 133 \<or> b = 160)"

definition space3 :: "nat \<Rightarrow> nat \<Rightarrow> nat \<Rightarrow> bool" where
  "space3 a b c \<longleftrightarrow>
     a = 225 \<and> b = 154 \<and> c = 128 \<or>
     a = 226 \<and> b = 128 \<and> (128 \<le> c \<and> c \<le> 138 \<or> c = 168 \<or> c = 169 \<or> c = 175) \<or>
     a = 226 \<and> b = 129 \<and> c = 159 \<or>
     a = 227 \<and> b = 128 \<and> c = 128"

fun only_space :: "nat list \<Rightarrow> bool" where
  "only_space [] \<longleftrightarrow> True"
| "only_space [a] \<longleftrightarrow> ascii_space a"
| "only_space [a, b] \<longleftrightarrow>
     (ascii_space a \<and> only_space [b]) \<or> space2 a b"
| "only_space (a # b # c # ds) \<longleftrightarrow>
     (ascii_space a \<and> only_space (b # c # ds)) \<or>
     (space2 a b \<and> only_space (c # ds)) \<or>
     (space3 a b c \<and> only_space ds)"

definition trims_to_empty :: "string \<Rightarrow> bool" where
  "trims_to_empty s \<longleftrightarrow> only_space (map of_char s)"

lemma trims_to_empty_ascii: "s \<noteq> [] \<Longrightarrow> hd s = CHR ''x'' \<Longrightarrow> \<not> trims_to_empty s"
proof (cases "map of_char s :: nat list" rule: only_space.cases)
qed (auto simp: trims_to_empty_def ascii_space_def space2_def space3_def)

section \<open>Content rules\<close>

definition ValidateNotificationContent ::
  "lib \<Rightarrow> channel \<Rightarrow> string \<Rightarrow> string \<Rightarrow> string \<Rightarrow> go_error option" where
  "ValidateNotificationContent L channel recipient subject body =
     (let invalid = (\<lambda>msg. Some (Errorf '''' (Sentinel ErrValidation) ('': '' @ msg)));
          body_check = (if body = '''' then invalid ''body is required'' else None)
      in
      if channel = ChannelEmail then
        (if \<not> mail_ParseAddress L recipient then
           invalid (''invalid email address: '' @ recipient)
         else if subject = '''' then invalid ''email notifications require a subject''
         else body_check)
      else if channel = ChannelSMS then
        (if \<not> phoneRegex_match recipient then
           invalid (''invalid phone number (must be E.164 format): '' @ recipient)
         else if 1600 < length body then invalid ''SMS body exceeds 1600 characters''
         else body_check)
      else if channel = ChannelPush then
        (if trims_to_empty recipient then invalid ''push notifications require a device token''
         else if 4096 < length body then invalid ''push body exceeds 4096 characters''
         else body_check)
      else Some (Errorf '''' (Sentinel ErrInvalidChannel) ('': '' @ channel)))"

text \<open>The acceptance condition the checks amount to, stated without their order.\<close>

definition content_ok :: "lib \<Rightarrow> channel \<Rightarrow> string \<Rightarrow> string \<Rightarrow> string \<Rightarrow> bool" where
  "content_ok L channel recipient subject body \<longleftrightarrow> body \<noteq> '''' \<and>
     (channel = ChannelEmail \<and> mail_ParseAddress L recipient \<and> subject \<noteq> '''' \<or>
      channel = ChannelSMS \<and> phoneRegex_match recipient \<and> length body \<le> 1600 \<or>
      channel = ChannelPush \<and> \<not> trims_to_empty recipient \<and> length body \<le> 4096)"

lemma content_accepted: 
  "ValidateNotificationContent L c r s b = None \<longleftrightarrow> content_ok L c r s b"
  by (auto simp: ValidateNotificationContent_def content_ok_def Let_def source_consts)

lemma content_rejected:
  "ValidateNotificationContent L c r s b = Some e \<Longrightarrow>
     errors_Is e (if channel_valid c then ErrValidation else ErrInvalidChannel)"
  by (auto simp: ValidateNotificationContent_def Let_def channel_valid_def split: if_splits)

lemma content_ok_channel: "content_ok L c r s b \<Longrightarrow> channel_valid c"
  by (auto simp: content_ok_def channel_valid_def)

lemma phone_length: "phoneRegex_match s \<Longrightarrow> 8 \<le> length s \<and> length s \<le> 16"
  by (cases s rule: phoneRegex_match.cases) auto

end
