(* ===== verification/Redis_Api.thy ===== *)
theory Redis_Api
  imports Environment "HOL-Library.List_Lexorder" "HOL-Library.Char_ord"
    "HOL-Library.Product_Lexorder"
begin

text \<open>
  Redis, as the program sees it: a record of the commands the code issues, on a state type the
  model leaves open. Every command of the client may answer with an error text, and then
  nothing is known of its effect. The locale \<open>redis_service\<close> states the documented effect of a
  command that succeeds, as an equation on a view of the state (the entries of each stream, what
  the consumer group has not read, what it has read and not acknowledged, and each sorted set in
  Redis order). \<open>redis_ref\<close> is a reference implementation of the commands on the view itself.
\<close>

section \<open>The commands\<close>

type_synonym entry = "string \<times> fields"

datatype redis_error = RedisNil | RedisErr string

record 'r redis =
  xgroup_create_mkstream :: "string \<Rightarrow> string \<Rightarrow> string \<Rightarrow> 'r \<Rightarrow> string option \<times> 'r"
  xadd :: "string \<Rightarrow> fields \<Rightarrow> 'r \<Rightarrow> (string + string) \<times> 'r"
  xreadgroup :: "string \<Rightarrow> string \<Rightarrow> string list \<Rightarrow> int \<Rightarrow> int \<Rightarrow> 'r \<Rightarrow>
    (redis_error + (string \<times> entry list) list) \<times> 'r"
  xack :: "string \<Rightarrow> string \<Rightarrow> string \<Rightarrow> 'r \<Rightarrow> string option \<times> 'r"
  xautoclaim :: "string \<Rightarrow> string \<Rightarrow> string \<Rightarrow> int \<Rightarrow> string \<Rightarrow> int \<Rightarrow> 'r \<Rightarrow>
    (string + entry list) \<times> 'r"
  xrange :: "string \<Rightarrow> string \<Rightarrow> string \<Rightarrow> 'r \<Rightarrow> (string + entry list) \<times> 'r"
  zadd :: "string \<Rightarrow> int \<Rightarrow> string \<Rightarrow> 'r \<Rightarrow> string option \<times> 'r"
  zrangebyscore :: "string \<Rightarrow> int \<Rightarrow> int \<Rightarrow> 'r \<Rightarrow> (string + string list) \<times> 'r"
  zrem :: "string \<Rightarrow> string list \<Rightarrow> 'r \<Rightarrow> string option \<times> 'r"
  run_script :: "('r \<Rightarrow> int \<times> 'r) \<Rightarrow> 'r \<Rightarrow> (string + int) \<times> 'r"
  lua_zremrangebyscore :: "string \<Rightarrow> int \<Rightarrow> 'r \<Rightarrow> 'r"
  lua_zcard :: "string \<Rightarrow> 'r \<Rightarrow> int"
  lua_zadd :: "string \<Rightarrow> int \<Rightarrow> string \<Rightarrow> 'r \<Rightarrow> 'r"
  lua_pexpire :: "string \<Rightarrow> int \<Rightarrow> 'r \<Rightarrow> 'r"

text \<open>
  The arguments are those of the Go calls: \<open>xreadgroup\<close> takes the group, the consumer, the stream
  keys followed by one greater-than sign each, the count and the block time; \<open>zrangebyscore\<close>
  takes the upper bound (the lower one is minus infinity) and the count. \<open>run_script\<close> runs the
  body of a Lua script, whose own commands are the \<open>lua_\<close> fields.
\<close>

section \<open>The view and the documented effects\<close>

type_synonym zset = "(string \<times> int) list"

record view =
  v_log :: "string \<Rightarrow> entry list"
  v_unread :: "string \<Rightarrow> entry list"
  v_pending :: "string \<Rightarrow> entry list"
  v_zset :: "string \<Rightarrow> zset"

definition zset_order :: "string \<times> int \<Rightarrow> int \<times> string" where
  "zset_order e = (snd e, fst e)"

definition zset_add :: "string \<Rightarrow> int \<Rightarrow> zset \<Rightarrow> zset" where
  "zset_add m s z = insort_key zset_order (m, s) (filter (\<lambda>e. fst e \<noteq> m) z)"

definition zset_due :: "int \<Rightarrow> int \<Rightarrow> zset \<Rightarrow> string list" where
  "zset_due mx c z = take (nat c) (map fst (filter (\<lambda>e. snd e \<le> mx) z))"

definition append_at :: "string \<Rightarrow> 'a list \<Rightarrow> (string \<Rightarrow> 'a list) \<Rightarrow> string \<Rightarrow> 'a list" where
  "append_at k xs m = m(k := m k @ xs)"

definition view_xadd :: "string \<Rightarrow> entry \<Rightarrow> view \<Rightarrow> view" where
  "view_xadd k e v = v\<lparr>v_log := append_at k [e] (v_log v), v_unread := append_at k [e] (v_unread v)\<rparr>"

definition view_xack :: "string \<Rightarrow> string \<Rightarrow> view \<Rightarrow> view" where
  "view_xack k i v =
     v\<lparr>v_pending := (v_pending v)(k := filter (\<lambda>e. fst e \<noteq> i) (v_pending v k))\<rparr>"

definition view_read :: "string list \<Rightarrow> int \<Rightarrow> view \<Rightarrow> (string \<times> entry list) list" where
  "view_read ks c v =
     map (\<lambda>k. (k, take (nat c) (v_unread v k))) (filter (\<lambda>k. v_unread v k \<noteq> []) ks)"

definition view_xread :: "string list \<Rightarrow> int \<Rightarrow> view \<Rightarrow> view" where
  "view_xread ks c v = v\<lparr>
     v_unread := (\<lambda>k. if k \<in> set ks then drop (nat c) (v_unread v k) else v_unread v k),
     v_pending := (\<lambda>k. if k \<in> set ks then v_pending v k @ take (nat c) (v_unread v k)
                       else v_pending v k)\<rparr>"

definition view_zadd :: "string \<Rightarrow> string \<Rightarrow> int \<Rightarrow> view \<Rightarrow> view" where
  "view_zadd k m s v = v\<lparr>v_zset := (v_zset v)(k := zset_add m s (v_zset v k))\<rparr>"

definition view_zrem :: "string \<Rightarrow> string list \<Rightarrow> view \<Rightarrow> view" where
  "view_zrem k ms v =
     v\<lparr>v_zset := (v_zset v)(k := filter (\<lambda>e. fst e \<notin> set ms) (v_zset v k))\<rparr>"

definition view_zremrange :: "string \<Rightarrow> int \<Rightarrow> view \<Rightarrow> view" where
  "view_zremrange k mx v =
     v\<lparr>v_zset := (v_zset v)(k := filter (\<lambda>e. mx < snd e) (v_zset v k))\<rparr>"

lemmas view_defs = view_xadd_def view_xack_def view_xread_def view_zadd_def view_zrem_def
  view_zremrange_def append_at_def

definition zset_wf :: "zset \<Rightarrow> bool" where
  "zset_wf z \<longleftrightarrow> distinct (map fst z) \<and> sorted (map zset_order z)"

lemma distinct_fst_insort:
  "distinct (map fst (insort_key f x xs)) \<longleftrightarrow> distinct (map fst (x # xs))"
  by (induction xs) (auto simp: set_insort_key)

lemma set_zset_add: "set (zset_add m s z) = insert (m, s) {e \<in> set z. fst e \<noteq> m}"
  by (auto simp: zset_add_def set_insort_key)

lemma zset_add_wf: "zset_wf z \<Longrightarrow> zset_wf (zset_add m s z)"
proof -
  assume wf: "zset_wf z"
  let ?z = "filter (\<lambda>e. fst e \<noteq> m) z"
  have "sorted (map zset_order ?z)"
    using wf by (simp add: zset_wf_def sorted_filter)
  moreover have "distinct (m # map fst ?z)"
    using wf by (auto simp: zset_wf_def distinct_map_filter)
  ultimately show ?thesis
    by (simp add: zset_wf_def zset_add_def sorted_insort_key distinct_fst_insort)
qed

section \<open>The documented behaviour as hypotheses\<close>

definition ConsumerGroup :: string where "ConsumerGroup = ''notifier-workers''"

locale redis_service =
  fixes R :: "'r redis" and view_of :: "'r \<Rightarrow> view"
  assumes xadd_law: "xadd R k f r = (Inr i, r') \<Longrightarrow>
      view_of r' = view_xadd k (i, f) (view_of r) \<and> i \<notin> fst ` set (v_log (view_of r) k)"
    and xack_law: "xack R k ConsumerGroup i r = (None, r') \<Longrightarrow>
      view_of r' = view_xack k i (view_of r)"
    and xread_law: "xreadgroup R ConsumerGroup cn (ks @ map (\<lambda>_. ''>'') ks) c b r = (Inr res, r') \<Longrightarrow>
      distinct ks \<Longrightarrow> 0 < c \<Longrightarrow>
      res = view_read ks c (view_of r) \<and> view_of r' = view_xread ks c (view_of r)"
    and xread_nil_law: "xreadgroup R ConsumerGroup cn (ks @ map (\<lambda>_. ''>'') ks) c b r = (Inl RedisNil, r') \<Longrightarrow>
      (\<forall>k \<in> set ks. v_unread (view_of r) k = []) \<and> view_of r' = view_of r"
    and xautoclaim_law: "xautoclaim R k ConsumerGroup cn idle start c r = (Inr es, r') \<Longrightarrow>
      set es \<subseteq> set (v_pending (view_of r) k) \<and> length es \<le> nat c \<and> view_of r' = view_of r"
    and xrange_law: "xrange R k ''-'' ''+'' r = (Inr es, r') \<Longrightarrow>
      es = v_log (view_of r) k \<and> view_of r' = view_of r"
    and zadd_law: "zadd R k s m r = (None, r') \<Longrightarrow> view_of r' = view_zadd k m s (view_of r)"
    and zrange_law: "zrangebyscore R k mx c r = (Inr ms, r') \<Longrightarrow>
      ms = zset_due mx c (v_zset (view_of r) k) \<and> view_of r' = view_of r"
    and zrem_law: "zrem R k ms r = (None, r') \<Longrightarrow> view_of r' = view_zrem k ms (view_of r)"
    and script_law: "run_script R body r = (Inr v, r') \<Longrightarrow> body r = (v, r')"
    and lua_zremrange_law: "view_of (lua_zremrangebyscore R k mx r) = view_zremrange k mx (view_of r)"
    and lua_zcard_law: "lua_zcard R k r = int (length (v_zset (view_of r) k))"
    and lua_zadd_law: "view_of (lua_zadd R k s m r) = view_zadd k m s (view_of r)"
    and lua_pexpire_law: "view_of (lua_pexpire R k ttl r) = view_of r"
    and zset_wf_law: "zset_wf (v_zset (view_of r) k)"

text \<open>A Redis that is up: no command answers with an error.\<close>

definition redis_up :: "'r redis \<Rightarrow> bool" where
  "redis_up R \<longleftrightarrow>
     (\<forall>k f r. \<exists>i r'. xadd R k f r = (Inr i, r')) \<and>
     (\<forall>k g i r. \<exists>r'. xack R k g i r = (None, r')) \<and>
     (\<forall>k s m r. \<exists>r'. zadd R k s m r = (None, r')) \<and>
     (\<forall>k mx c r. \<exists>ms r'. zrangebyscore R k mx c r = (Inr ms, r')) \<and>
     (\<forall>k ms r. \<exists>r'. zrem R k ms r = (None, r')) \<and>
     (\<forall>body r. \<exists>v r'. run_script R body r = (Inr v, r')) \<and>
     (\<forall>g cn args c b r e r'. xreadgroup R g cn args c b r \<noteq> (Inl (RedisErr e), r'))"

lemma xadd_up: "redis_up R \<Longrightarrow> xadd R k f r \<noteq> (Inl e, r')"
  unfolding redis_up_def by (metis Inl_Inr_False prod.inject)

lemma zadd_up: "redis_up R \<Longrightarrow> zadd R k s m r \<noteq> (Some e, r')"
  unfolding redis_up_def by (metis option.discI prod.inject)

lemma xack_up: "redis_up R \<Longrightarrow> fst (xack R k g i r) = None"
  unfolding redis_up_def by (metis fst_conv)

lemma zrange_up: "redis_up R \<Longrightarrow> \<exists>ms r'. zrangebyscore R k mx c r = (Inr ms, r')"
  by (simp add: redis_up_def)

lemma zrem_up: "redis_up R \<Longrightarrow> \<exists>r'. zrem R k ms r = (None, r')"
  by (simp add: redis_up_def)

section \<open>A reference implementation\<close>

text \<open>
  The state is the view with its sorted sets well-formed; stream ids are numbered by the length
  of the log, written in decimal.
\<close>

definition view_empty :: view where
  "view_empty = \<lparr>v_log = (\<lambda>_. []), v_unread = (\<lambda>_. []), v_pending = (\<lambda>_. []), v_zset = (\<lambda>_. [])\<rparr>"

definition view_ok :: "view \<Rightarrow> bool" where
  "view_ok v \<longleftrightarrow> (\<forall>k. zset_wf (v_zset v k) \<and>
     fst ` set (v_log v k) \<subseteq> digits ` {..<length (v_log v k)})"

typedef redis_state = "{v. view_ok v}" morphisms state_view Abs_state
  by (rule exI [of _ view_empty]) (simp add: view_ok_def view_empty_def zset_wf_def)

setup_lifting type_definition_redis_state

lemma zset_wf_filter: "zset_wf z \<Longrightarrow> zset_wf (filter P z)"
  by (simp add: zset_wf_def distinct_map_filter sorted_filter)

lemma view_ok_xadd: "view_ok v \<Longrightarrow> view_ok (view_xadd k (digits (length (v_log v k)), f) v)"
  unfolding view_ok_def
proof (intro allI)
  fix j
  assume ok: "\<forall>k. zset_wf (v_zset v k) \<and>
    fst ` set (v_log v k) \<subseteq> digits ` {..<length (v_log v k)}"
  then have j: "zset_wf (v_zset v j)" "fst ` set (v_log v j) \<subseteq> digits ` {..<length (v_log v j)}"
    by blast+
  let ?v = "view_xadd k (digits (length (v_log v k)), f) v"
  show "zset_wf (v_zset ?v j) \<and> fst ` set (v_log ?v j) \<subseteq> digits ` {..<length (v_log ?v j)}"
    using j by (cases "j = k") (auto simp: view_defs lessThan_Suc)
qed

lift_definition ref_xadd :: "string \<Rightarrow> fields \<Rightarrow> redis_state \<Rightarrow> redis_state" is
  "\<lambda>k f v. view_xadd k (digits (length (v_log v k)), f) v"
  by (rule view_ok_xadd)

lift_definition ref_xack :: "string \<Rightarrow> string \<Rightarrow> redis_state \<Rightarrow> redis_state" is view_xack
  by (auto simp: view_ok_def view_defs)

lift_definition ref_xread :: "string list \<Rightarrow> int \<Rightarrow> redis_state \<Rightarrow> redis_state" is view_xread
  by (auto simp: view_ok_def view_defs)

lift_definition ref_zadd :: "string \<Rightarrow> string \<Rightarrow> int \<Rightarrow> redis_state \<Rightarrow> redis_state" is view_zadd
  by (auto simp: view_ok_def view_defs zset_add_wf)

lift_definition ref_zrem :: "string \<Rightarrow> string list \<Rightarrow> redis_state \<Rightarrow> redis_state" is view_zrem
  by (auto simp: view_ok_def view_defs zset_wf_filter)

lift_definition ref_zremrange :: "string \<Rightarrow> int \<Rightarrow> redis_state \<Rightarrow> redis_state" is view_zremrange
  by (auto simp: view_ok_def view_defs zset_wf_filter)

lift_definition ref_empty :: redis_state is view_empty
  by (simp add: view_ok_def view_empty_def zset_wf_def)

text \<open>The stream keys among the arguments of \<open>xreadgroup\<close> are its first half.\<close>

definition first_half :: "'a list \<Rightarrow> 'a list" where
  "first_half xs = take (length xs div 2) xs"

lemma first_half_append [simp]: "length ys = length xs \<Longrightarrow> first_half (xs @ ys) = xs"
  by (simp add: first_half_def)

definition redis_ref :: "redis_state redis" where
  "redis_ref = \<lparr>
     xgroup_create_mkstream = (\<lambda>k g s r. (None, r)),
     xadd = (\<lambda>k f r. (Inr (digits (length (v_log (state_view r) k))), ref_xadd k f r)),
     xreadgroup = (\<lambda>g cn args c b r.
       let ks = first_half args in
       if \<forall>k \<in> set ks. v_unread (state_view r) k = [] then (Inl RedisNil, r)
       else (Inr (view_read ks c (state_view r)), ref_xread ks c r)),
     xack = (\<lambda>k g i r. (None, ref_xack k i r)),
     xautoclaim = (\<lambda>k g cn idle s c r. (Inr (take (nat c) (v_pending (state_view r) k)), r)),
     xrange = (\<lambda>k a b r. (Inr (v_log (state_view r) k), r)),
     zadd = (\<lambda>k s m r. (None, ref_zadd k m s r)),
     zrangebyscore = (\<lambda>k mx c r. (Inr (zset_due mx c (v_zset (state_view r) k)), r)),
     zrem = (\<lambda>k ms r. (None, ref_zrem k ms r)),
     run_script = (\<lambda>body r. (Inr (fst (body r)), snd (body r))),
     lua_zremrangebyscore = (\<lambda>k mx r. ref_zremrange k mx r),
     lua_zcard = (\<lambda>k r. int (length (v_zset (state_view r) k))),
     lua_zadd = (\<lambda>k s m r. ref_zadd k m s r),
     lua_pexpire = (\<lambda>k ms r. r) \<rparr>"

lemmas state_view_simps [simp] = ref_xadd.rep_eq ref_xack.rep_eq ref_xread.rep_eq ref_zadd.rep_eq
  ref_zrem.rep_eq ref_zremrange.rep_eq ref_empty.rep_eq

lemma state_view_ok: "view_ok (state_view r)"
  using state_view by simp

lemma state_view_log_fresh:
  "digits (length (v_log (state_view r) k)) \<notin> fst ` set (v_log (state_view r) k)"
  using state_view_ok [of r] by (auto simp: view_ok_def dest!: spec [of _ k])

interpretation ref: redis_service redis_ref state_view
proof unfold_locales
  show "zset_wf (v_zset (state_view r) k)" for r k
    using state_view_ok [of r] by (simp add: view_ok_def)
qed (auto simp: redis_ref_def Let_def state_view_log_fresh prod_eq_iff dest: in_set_takeD
      split: if_splits)

lemma redis_ref_up [simp]: "redis_up redis_ref"
  by (simp add: redis_up_def redis_ref_def Let_def)

end
