(* ===== verification/Queue.thy ===== *)
theory Queue
  imports Redis_Api
begin

text \<open>
  Package \<open>internal/queue\<close>: the producer (immediate and delayed), the consumer group and the dead
  letter queue. Every definition takes the Redis commands and threads the Redis state; a
  function that returns \<open>error\<close> in Go returns an option here. Reading a message asserts that two
  values are strings: a missing one panics, and a function that may panic returns an option
  whose \<open>None\<close> is the panic.
\<close>

section \<open>Producer\<close>

definition delayed_key :: string where "delayed_key = ''notifications:delayed''"

definition Enqueue ::
  "lib \<Rightarrow> 'r redis \<Rightarrow> uuid \<Rightarrow> channel \<Rightarrow> priority \<Rightarrow> 'r \<Rightarrow> go_error option \<times> 'r" where
  "Enqueue L R notificationID ch prio r =
     (let streamKey = StreamKey prio in
      case xadd R streamKey
          [(''notification_id'', uuid_String L notificationID), (''channel'', ch)] r of
        (Inl e, r') \<Rightarrow> (Some (Errorf (''XADD to '' @ streamKey @ '': '') (Plain e) ''''), r')
      | (Inr _, r') \<Rightarrow> (None, r'))"

definition delayed_member :: "lib \<Rightarrow> uuid \<Rightarrow> channel \<Rightarrow> priority \<Rightarrow> string" where
  "delayed_member L notificationID ch prio =
     uuid_String L notificationID @ '':'' @ ch @ '':'' @ prio"

definition EnqueueDelayed ::
  "lib \<Rightarrow> 'r redis \<Rightarrow> uuid \<Rightarrow> channel \<Rightarrow> priority \<Rightarrow> int \<Rightarrow> 'r \<Rightarrow> go_error option \<times> 'r" where
  "EnqueueDelayed L R notificationID ch prio retryAt r =
     (let member = delayed_member L notificationID ch prio in
      case zadd R delayed_key retryAt member r of
        (Some e, r') \<Rightarrow> (Some (Errorf ''ZADD delayed: '' (Plain e) ''''), r')
      | (None, r') \<Rightarrow> (None, r'))"

text \<open>
  \<open>PopDelayedDue\<close> is two round trips to Redis: a range query, then the removal of the members it
  returned, whose error is dropped. Other clients may run in between.
\<close>

definition pop_fetch ::
  "'r redis \<Rightarrow> int \<Rightarrow> int \<Rightarrow> 'r \<Rightarrow> (go_error + string list) \<times> 'r" where
  "pop_fetch R now count r =
     (case zrangebyscore R delayed_key now count r of
        (Inl e, r') \<Rightarrow> (Inl (Errorf ''pipeline exec: '' (Plain e) ''''), r')
      | (Inr members, r') \<Rightarrow> (Inr members, r'))"

definition pop_remove :: "'r redis \<Rightarrow> string list \<Rightarrow> 'r \<Rightarrow> 'r" where
  "pop_remove R members r = (if members = [] then r else snd (zrem R delayed_key members r))"

definition PopDelayedDue ::
  "'r redis \<Rightarrow> int \<Rightarrow> int \<Rightarrow> 'r \<Rightarrow> (go_error + string list) \<times> 'r" where
  "PopDelayedDue R now count r =
     (case pop_fetch R now count r of
        (Inl e, r') \<Rightarrow> (Inl e, r')
      | (Inr members, r') \<Rightarrow> (Inr members, pop_remove R members r'))"

section \<open>Consumer\<close>

record message =
  m_stream_id :: string
  m_message_id :: string
  m_notification_id :: string
  m_channel :: string

definition to_message :: "string \<Rightarrow> entry \<Rightarrow> message option" where
  "to_message stream e =
     (case map_of (snd e) ''notification_id'' of
        None \<Rightarrow> None
      | Some nid \<Rightarrow>
         (case map_of (snd e) ''channel'' of
            None \<Rightarrow> None
          | Some ch \<Rightarrow> Some \<lparr>m_stream_id = stream, m_message_id = fst e,
                             m_notification_id = nid, m_channel = ch\<rparr>))"

definition to_messages :: "string \<Rightarrow> entry list \<Rightarrow> message list option" where
  "to_messages stream es = those (map (to_message stream) es)"

definition priority_streams :: "string list" where
  "priority_streams = [StreamKey PriorityHigh, StreamKey PriorityNormal, StreamKey PriorityLow]"

fun ensure_loop :: "'r redis \<Rightarrow> string list \<Rightarrow> 'r \<Rightarrow> go_error option \<times> 'r" where
  "ensure_loop R [] r = (None, r)"
| "ensure_loop R (stream # streams) r =
     (case xgroup_create_mkstream R stream ConsumerGroup ''0'' r of
        (Some e, r') \<Rightarrow>
          if e \<noteq> ''BUSYGROUP Consumer Group name already exists''
          then (Some (Errorf (''creating consumer group for '' @ stream @ '': '') (Plain e) ''''), r')
          else ensure_loop R streams r'
      | (None, r') \<Rightarrow> ensure_loop R streams r')"

definition EnsureGroups :: "'r redis \<Rightarrow> 'r \<Rightarrow> go_error option \<times> 'r" where
  "EnsureGroups R r = ensure_loop R priority_streams r"

definition ReadMessages ::
  "'r redis \<Rightarrow> string \<Rightarrow> int \<Rightarrow> int \<Rightarrow> 'r \<Rightarrow> (go_error + message list) option \<times> 'r" where
  "ReadMessages R consumerName count blockTimeout r =
     (let streamArgs = priority_streams @ map (\<lambda>_. ''>'') priority_streams in
      case xreadgroup R ConsumerGroup consumerName streamArgs count blockTimeout r of
        (Inl RedisNil, r') \<Rightarrow> (Some (Inr []), r')
      | (Inl (RedisErr e), r') \<Rightarrow> (Some (Inl (Errorf ''XREADGROUP: '' (Plain e) '''')), r')
      | (Inr results, r') \<Rightarrow>
          (map_option (\<lambda>mss. Inr (concat mss)) (those (map (\<lambda>(s, es). to_messages s es) results)), r'))"

definition Ack :: "'r redis \<Rightarrow> string \<Rightarrow> string \<Rightarrow> 'r \<Rightarrow> string option \<times> 'r" where
  "Ack R stream messageID r = xack R stream ConsumerGroup messageID r"

fun claim_loop ::
  "'r redis \<Rightarrow> string \<Rightarrow> int \<Rightarrow> string list \<Rightarrow> message list \<Rightarrow> 'r \<Rightarrow> message list option \<times> 'r" where
  "claim_loop R consumerName minIdle [] acc r = (Some acc, r)"
| "claim_loop R consumerName minIdle (stream # streams) acc r =
     (case xautoclaim R stream ConsumerGroup consumerName minIdle ''0-0'' 10 r of
        (Inl e, r') \<Rightarrow> claim_loop R consumerName minIdle streams acc r'
      | (Inr es, r') \<Rightarrow>
         (case to_messages stream es of
            None \<Rightarrow> (None, r')
          | Some ms \<Rightarrow> claim_loop R consumerName minIdle streams (acc @ ms) r'))"

definition ClaimStale :: "'r redis \<Rightarrow> string \<Rightarrow> int \<Rightarrow> 'r \<Rightarrow> message list option \<times> 'r" where
  "ClaimStale R consumerName minIdle r = claim_loop R consumerName minIdle priority_streams [] r"

section \<open>Dead letter queue\<close>

definition DLQStream :: string where "DLQStream = ''notifications:dlq''"

definition DLQ_Push ::
  "lib \<Rightarrow> 'r redis \<Rightarrow> uuid \<Rightarrow> string \<Rightarrow> string \<Rightarrow> 'r \<Rightarrow> go_error option \<times> 'r" where
  "DLQ_Push L R notificationID ch lastError r =
     (case xadd R DLQStream [(''notification_id'', uuid_String L notificationID),
          (''channel'', ch), (''error'', lastError)] r of
        (Inl e, r') \<Rightarrow> (Some (Errorf ''XADD to DLQ: '' (Plain e) ''''), r')
      | (Inr _, r') \<Rightarrow> (None, r'))"

definition DLQ_Read ::
  "'r redis \<Rightarrow> int \<Rightarrow> 'r \<Rightarrow> (go_error + message list) option \<times> 'r" where
  "DLQ_Read R count r =
     (case xrange R DLQStream ''-'' ''+'' r of
        (Inl e, r') \<Rightarrow> (Some (Inl (Errorf ''XRANGE DLQ: '' (Plain e) '''')), r')
      | (Inr results, r') \<Rightarrow>
          (map_option Inr (to_messages DLQStream (take (nat count) results)), r'))"

section \<open>Entries the program writes\<close>

text \<open>A well-formed entry is one whose two values are present; reading it never panics.\<close>

definition entry_ok :: "entry \<Rightarrow> bool" where
  "entry_ok e \<longleftrightarrow> map_of (snd e) ''notification_id'' \<noteq> None \<and> map_of (snd e) ''channel'' \<noteq> None"

definition streams_ok :: "view \<Rightarrow> bool" where
  "streams_ok v \<longleftrightarrow> (\<forall>k. \<forall>e \<in> set (v_log v k) \<union> set (v_unread v k) \<union> set (v_pending v k). entry_ok e)"

lemma to_message_ok: "to_message s e \<noteq> None \<longleftrightarrow> entry_ok e"
  by (auto simp: to_message_def entry_ok_def split: option.splits)

lemma those_map_Some: "(\<And>x. x \<in> set xs \<Longrightarrow> f x \<noteq> None) \<Longrightarrow> those (map f xs) = Some (map (the \<circ> f) xs)"
  by (induction xs) (auto split: option.splits)

lemma to_messages_ok:
  "(\<And>e. e \<in> set es \<Longrightarrow> entry_ok e) \<Longrightarrow> to_messages s es = Some (map (the \<circ> to_message s) es)"
  unfolding to_messages_def by (rule those_map_Some) (simp only: to_message_ok)

lemma distinct_priority_streams [simp]: "distinct priority_streams"
  by (simp add: priority_streams_def source_consts)

lemma keys_apart [simp]:
  "priority_valid p \<Longrightarrow> StreamKey p \<noteq> DLQStream" "priority_valid p \<Longrightarrow> StreamKey p \<noteq> delayed_key"
  "DLQStream \<noteq> delayed_key" "delayed_key \<noteq> DLQStream"
  by (auto simp: StreamKey_def DLQStream_def delayed_key_def priority_valid_def source_consts)

lemma streams_ok_xadd: "streams_ok v \<Longrightarrow> entry_ok e \<Longrightarrow> streams_ok (view_xadd k e v)"
  by (auto simp: streams_ok_def view_defs)

lemma streams_ok_xack: "streams_ok v \<Longrightarrow> streams_ok (view_xack k i v)"
  by (auto simp: streams_ok_def view_defs)

lemma streams_ok_xread: "streams_ok v \<Longrightarrow> streams_ok (view_xread ks c v)"
  by (auto simp: streams_ok_def view_defs dest: in_set_takeD in_set_dropD)

lemma streams_ok_zset [simp]:
  "streams_ok (view_zadd k m s v) \<longleftrightarrow> streams_ok v"
  "streams_ok (view_zrem k ms v) \<longleftrightarrow> streams_ok v"
  "streams_ok (view_zremrange k mx v) \<longleftrightarrow> streams_ok v"
  by (simp_all add: streams_ok_def view_defs)

lemma entry_ok_written [simp]:
  "entry_ok (i, [(''notification_id'', a), (''channel'', b)])"
  "entry_ok (i, [(''notification_id'', a), (''channel'', b), (''error'', c)])"
  by (simp_all add: entry_ok_def)

section \<open>The producer as an interface\<close>

text \<open>
  \<open>service.QueueProducer\<close>: what its clients rely on. An \<open>Enqueue\<close> without error appends one
  readable entry for the notification to the stream of its priority and leaves the rest alone.
\<close>

locale queue_producer =
  fixes enqueue :: "uuid \<Rightarrow> channel \<Rightarrow> priority \<Rightarrow> 'q \<Rightarrow> go_error option \<times> 'q"
    and qview :: "'q \<Rightarrow> view"
    and idtext :: "uuid \<Rightarrow> string"
  assumes enqueue_ok: "enqueue u ch p q = (None, q') \<Longrightarrow>
    \<exists>i. qview q' =
      view_xadd (StreamKey p) (i, [(''notification_id'', idtext u), (''channel'', ch)]) (qview q)"
begin

lemma enqueue_message:
  assumes "enqueue u ch p q = (None, q')"
  shows "\<exists>e. v_unread (qview q') (StreamKey p) = v_unread (qview q) (StreamKey p) @ [e] \<and>
    to_message (StreamKey p) e = Some \<lparr>m_stream_id = StreamKey p, m_message_id = fst e,
      m_notification_id = idtext u, m_channel = ch\<rparr>"
  using enqueue_ok [OF assms] by (auto simp: view_defs to_message_def)

lemma enqueue_streams_ok:
  assumes "enqueue u ch p q = (None, q')" and "streams_ok (qview q)"
  shows "streams_ok (qview q')"
  using enqueue_ok [OF assms(1)] streams_ok_xadd [OF assms(2)] entry_ok_written(1) by metis

end

context redis_service
begin

lemma Enqueue_ok:
  "Enqueue L R u ch p r = (None, r') \<Longrightarrow> \<exists>i. view_of r' = view_xadd (StreamKey p)
     (i, [(''notification_id'', uuid_String L u), (''channel'', ch)]) (view_of r)"
  by (auto simp: Enqueue_def Let_def split: prod.splits sum.splits dest!: xadd_law)

lemma EnqueueDelayed_ok:
  "EnqueueDelayed L R u ch p s r = (None, r') \<Longrightarrow>
     view_of r' = view_zadd delayed_key (delayed_member L u ch p) s (view_of r)"
  by (auto simp: EnqueueDelayed_def Let_def split: prod.splits option.splits dest!: zadd_law)

lemma DLQ_Push_ok:
  "DLQ_Push L R u ch e r = (None, r') \<Longrightarrow> \<exists>i. view_of r' = view_xadd DLQStream
     (i, [(''notification_id'', uuid_String L u), (''channel'', ch), (''error'', e)]) (view_of r)"
  by (auto simp: DLQ_Push_def split: prod.splits sum.splits dest!: xadd_law)

lemma Ack_ok: "Ack R k i r = (None, r') \<Longrightarrow> view_of r' = view_xack k i (view_of r)"
  by (simp add: Ack_def xack_law)

lemma pop_fetch_ok:
  "pop_fetch R now c r = (Inr ms, r') \<Longrightarrow>
     ms = zset_due now c (v_zset (view_of r) delayed_key) \<and> view_of r' = view_of r"
  by (auto simp: pop_fetch_def split: prod.splits sum.splits dest!: zrange_law)

end

sublocale redis_service \<subseteq> producer: queue_producer "Enqueue L R" view_of "uuid_String L" for L
  by unfold_locales (rule Enqueue_ok)

interpretation ref_producer: queue_producer "Enqueue L redis_ref" state_view "uuid_String L"
  by unfold_locales (rule ref.Enqueue_ok)

text \<open>With a Redis that is up every one of these returns without an error.\<close>

lemma Enqueue_up: "redis_up R \<Longrightarrow> fst (Enqueue L R u ch p r) = None"
  by (auto simp: Enqueue_def Let_def split: prod.splits sum.splits dest: xadd_up)

lemma EnqueueDelayed_up: "redis_up R \<Longrightarrow> fst (EnqueueDelayed L R u ch p s r) = None"
  by (auto simp: EnqueueDelayed_def Let_def split: prod.splits option.splits dest: zadd_up)

lemma DLQ_Push_up: "redis_up R \<Longrightarrow> fst (DLQ_Push L R u ch e r) = None"
  by (auto simp: DLQ_Push_def split: prod.splits sum.splits dest: xadd_up)

lemma Ack_up: "redis_up R \<Longrightarrow> fst (Ack R k i r) = None"
  by (simp add: Ack_def xack_up)

end
