(* ===== verification/Services.thy ===== *)
theory Services
  imports Template_Repo Validator Queue
begin

text \<open>
  Package \<open>internal/service\<close>: the template service (create, update, render) and the notification
  service (create, batch create, reads, cancel). The producer is the interface the Go code
  names \<open>QueueProducer\<close>, optional as the nil check has it; its state \<open>'q\<close> is threaded beside the
  database. The k-th reading of the clock in a call is \<open>clock k\<close>.
\<close>

section \<open>Template service\<close>

definition invalid_request :: "string \<Rightarrow> go_error" where
  "invalid_request e = Errorf '''' (Sentinel ErrValidation) ('': '' @ e)"

definition render_error :: "string \<Rightarrow> go_error" where
  "render_error e = Errorf '''' (Sentinel ErrTemplateRender) ('': '' @ e)"

definition TemplateService_Create ::
  "lib \<Rightarrow> time \<Rightarrow> uuid \<Rightarrow> create_template_request \<Rightarrow> db \<Rightarrow> (go_error + template) \<times> db" where
  "TemplateService_Create L now i req d =
     (case check_create_template L req of
        Some e \<Rightarrow> (Inl (invalid_request e), d)
      | None \<Rightarrow>
        if \<not> channel_valid (ct_channel req) then (Inl (Sentinel ErrInvalidChannel), d)
        else let t = \<lparr>t_id = 0, t_name = ct_name req, t_channel = ct_channel req,
                      t_subject = ct_subject req, t_body = ct_body req,
                      t_created_at = 0, t_updated_at = 0\<rparr> in
        (case template_Parse L (t_body t) of
           Some e \<Rightarrow> (Inl (render_error (''invalid template syntax: '' @ e)), d)
         | None \<Rightarrow>
            (case tmpl_repo_Create now i t d of
               (Some e, t, d) \<Rightarrow> (Inl e, d)
             | (None, t, d) \<Rightarrow> (Inr t, d))))"

definition TemplateService_Update ::
  "lib \<Rightarrow> time \<Rightarrow> uuid \<Rightarrow> update_template_request \<Rightarrow> db \<Rightarrow> (go_error + template) \<times> db" where
  "TemplateService_Update L now i req d =
     (case check_update_template L req of
        Some e \<Rightarrow> (Inl (invalid_request e), d)
      | None \<Rightarrow>
         (case (case ut_body req of None \<Rightarrow> None | Some b \<Rightarrow> template_Parse L b) of
            Some e \<Rightarrow> (Inl (render_error (''invalid template syntax: '' @ e)), d)
          | None \<Rightarrow> tmpl_repo_Update now i req d))"

definition TemplateService_Render ::
  "lib \<Rightarrow> template \<Rightarrow> vars \<Rightarrow> go_error + string \<times> string" where
  "TemplateService_Render L tmpl vars =
     (case template_Parse L (t_body tmpl) of
        Some e \<Rightarrow> Inl (render_error e)
      | None \<Rightarrow>
         (case template_Execute L (t_body tmpl) vars of
            Inl e \<Rightarrow> Inl (render_error e)
          | Inr body \<Rightarrow>
             if t_subject tmpl \<noteq> '''' then
               (case template_Parse L (t_subject tmpl) of
                  Some e \<Rightarrow> Inl (render_error e)
                | None \<Rightarrow>
                   (case template_Execute L (t_subject tmpl) vars of
                      Inl e \<Rightarrow> Inl (render_error e)
                    | Inr subject \<Rightarrow> Inr (subject, body)))
             else Inr ('''', body)))"

definition TemplateService_GetByID :: "uuid \<Rightarrow> db \<Rightarrow> (go_error + template) \<times> db" where
  "TemplateService_GetByID i d = tmpl_repo_GetByID i d"

definition TemplateService_List :: "(string \<Rightarrow> nat) \<Rightarrow> db \<Rightarrow> (go_error + template list) \<times> db" where
  "TemplateService_List rank d = tmpl_repo_List rank d"

definition TemplateService_Delete :: "uuid \<Rightarrow> db \<Rightarrow> go_error option \<times> db" where
  "TemplateService_Delete i d = tmpl_repo_Delete i d"

section \<open>Notification service: one notification\<close>

definition NewNotificationService_retries :: "int \<Rightarrow> int" where
  "NewNotificationService_retries m = (if m = 0 then 5 else m)"

definition request_notification :: "int \<Rightarrow> uuid option \<Rightarrow> create_request \<Rightarrow> notification" where
  "request_notification maxRetries batch req = \<lparr>
     n_id = 0, n_idempotency_key = q_idempotency_key req, n_batch_id = batch,
     n_channel = q_channel req, n_priority = q_priority req, n_recipient = q_recipient req,
     n_subject = q_subject req, n_body = q_body req, n_template_id = q_template_id req,
     n_template_vars = q_template_vars req, n_status = '''', n_scheduled_at = None,
     n_attempt_count = 0,
     n_max_retries = (case q_max_retries req of None \<Rightarrow> maxRetries | Some m \<Rightarrow> m),
     n_last_error = '''', n_delivered_at = None, n_created_at = 0, n_updated_at = 0\<rparr>"

definition fill_template ::
  "lib \<Rightarrow> (go_error \<Rightarrow> go_error) \<Rightarrow> (go_error \<Rightarrow> go_error) \<Rightarrow> create_request \<Rightarrow>
     notification \<Rightarrow> db \<Rightarrow> (go_error + notification) \<times> db" where
  "fill_template L fetch_err rend_err req n d =
     (case q_template_id req of
        None \<Rightarrow> (Inr n, d)
      | Some tid \<Rightarrow>
         (case tmpl_repo_GetByID tid d of
            (Inl e, d) \<Rightarrow> (Inl (fetch_err e), d)
          | (Inr tmpl, d) \<Rightarrow>
             (case TemplateService_Render L tmpl (q_template_vars req) of
                Inl e \<Rightarrow> (Inl (rend_err e), d)
              | Inr (subject, body) \<Rightarrow>
                 (let n = n\<lparr>n_body := body\<rparr> in
                  (Inr (if subject \<noteq> '''' then n\<lparr>n_subject := subject\<rparr> else n), d)))))"

definition set_initial_status :: "create_request \<Rightarrow> notification \<Rightarrow> notification" where
  "set_initial_status req n =
     (case q_scheduled_at req of
        Some t \<Rightarrow> n\<lparr>n_status := StatusScheduled, n_scheduled_at := Some t\<rparr>
      | None \<Rightarrow> n\<lparr>n_status := StatusPending\<rparr>)"

type_synonym 'q producer = "uuid \<Rightarrow> channel \<Rightarrow> priority \<Rightarrow> 'q \<Rightarrow> go_error option \<times> 'q"

text \<open>Enqueue for immediate delivery; errors of both calls are logged and dropped.\<close>

definition enqueue_new ::
  "'q producer option \<Rightarrow> time \<Rightarrow> notification \<Rightarrow> db \<Rightarrow> 'q \<Rightarrow> notification \<times> db \<times> 'q" where
  "enqueue_new producer now n d q =
     (if n_status n = StatusPending then
        (case producer of
           None \<Rightarrow> (n, d, q)
         | Some enqueue \<Rightarrow>
            (case enqueue (n_id n) (n_channel n) (n_priority n) q of
               (Some e, q) \<Rightarrow> (n, d, q)
             | (None, q) \<Rightarrow>
                (n\<lparr>n_status := StatusQueued\<rparr>,
                 snd (repo_UpdateStatus now (n_id n) StatusQueued '''' d), q)))
      else (n, d, q))"

definition NotificationService_Create ::
  "lib \<Rightarrow> 'q producer option \<Rightarrow> int \<Rightarrow> (nat \<Rightarrow> time) \<Rightarrow> uuid \<Rightarrow> create_request \<Rightarrow> db \<Rightarrow> 'q \<Rightarrow>
     (go_error + notification) \<times> db \<times> 'q" where
  "NotificationService_Create L producer maxRetries clock i req d q =
     (case check_create L req of
        Some e \<Rightarrow> (Inl (invalid_request e), d, q)
      | None \<Rightarrow>
        if \<not> channel_valid (q_channel req) then (Inl (Sentinel ErrInvalidChannel), d, q)
        else if \<not> priority_valid (q_priority req) then (Inl (Sentinel ErrInvalidPriority), d, q)
        else
        (case fill_template L (\<lambda>e. Errorf ''fetching template: '' e '''') (\<lambda>e. e) req
               (request_notification maxRetries None req) d of
           (Inl e, d) \<Rightarrow> (Inl e, d, q)
         | (Inr n, d) \<Rightarrow>
            (case ValidateNotificationContent L (n_channel n) (n_recipient n) (n_subject n) (n_body n) of
               Some e \<Rightarrow> (Inl e, d, q)
             | None \<Rightarrow>
                (case repo_Create (clock 0) i (set_initial_status req n) d of
                   (Some e, n, d) \<Rightarrow> (Inl e, d, q)
                 | (None, n, d) \<Rightarrow>
                    (case enqueue_new producer (clock 1) n d q of (n, d, q) \<Rightarrow> (Inr n, d, q))))))"

section \<open>Notification service: a batch\<close>

definition at_index :: "string \<Rightarrow> nat \<Rightarrow> go_error \<Rightarrow> go_error" where
  "at_index what k e = Errorf (what @ '' at index '' @ int_text (int k) @ '': '') e ''''"

definition prepare_one ::
  "lib \<Rightarrow> int \<Rightarrow> uuid \<Rightarrow> nat \<Rightarrow> create_request \<Rightarrow> db \<Rightarrow> (go_error + notification) \<times> db" where
  "prepare_one L maxRetries batch k req d =
     (if \<not> channel_valid (q_channel req) then
        (Inl (Errorf '''' (Sentinel ErrInvalidChannel) ('' at index '' @ int_text (int k))), d)
      else if \<not> priority_valid (q_priority req) then
        (Inl (Errorf '''' (Sentinel ErrInvalidPriority) ('' at index '' @ int_text (int k))), d)
      else
      (case fill_template L (at_index ''template'' k) (at_index ''template render'' k) req
             (request_notification maxRetries (Some batch) req) d of
         (Inl e, d) \<Rightarrow> (Inl e, d)
       | (Inr n, d) \<Rightarrow>
          (case ValidateNotificationContent L (n_channel n) (n_recipient n) (n_subject n) (n_body n) of
             Some e \<Rightarrow> (Inl (at_index ''validation'' k e), d)
           | None \<Rightarrow> (Inr (set_initial_status req n), d))))"

fun prepare_loop ::
  "lib \<Rightarrow> int \<Rightarrow> uuid \<Rightarrow> nat \<Rightarrow> create_request list \<Rightarrow> db \<Rightarrow> (go_error + notification list) \<times> db" where
  "prepare_loop L maxRetries batch k [] d = (Inr [], d)"
| "prepare_loop L maxRetries batch k (req # reqs) d =
     (case prepare_one L maxRetries batch k req d of
        (Inl e, d) \<Rightarrow> (Inl e, d)
      | (Inr n, d) \<Rightarrow>
         (case prepare_loop L maxRetries batch (Suc k) reqs d of
            (Inl e, d) \<Rightarrow> (Inl e, d)
          | (Inr ns, d) \<Rightarrow> (Inr (n # ns), d)))"

fun enqueue_loop ::
  "'q producer option \<Rightarrow> (nat \<Rightarrow> time) \<Rightarrow> nat \<Rightarrow> notification list \<Rightarrow> db \<Rightarrow> 'q \<Rightarrow>
     notification list \<times> db \<times> 'q" where
  "enqueue_loop producer clock k [] d q = ([], d, q)"
| "enqueue_loop producer clock k (n # ns) d q =
     (case enqueue_new producer (clock (Suc k)) n d q of (n, d, q) \<Rightarrow>
       (case enqueue_loop producer clock (Suc k) ns d q of (ns, d, q) \<Rightarrow> (n # ns, d, q)))"

definition NotificationService_CreateBatch ::
  "lib \<Rightarrow> 'q producer option \<Rightarrow> int \<Rightarrow> (nat \<Rightarrow> time) \<Rightarrow> uuid \<Rightarrow> (nat \<Rightarrow> uuid) \<Rightarrow>
     create_request list \<Rightarrow> db \<Rightarrow> 'q \<Rightarrow> (go_error + notification list) \<times> db \<times> 'q" where
  "NotificationService_CreateBatch L producer maxRetries clock batch ids reqs d q =
     (case check_batch L reqs of
        Some e \<Rightarrow> (Inl (invalid_request e), d, q)
      | None \<Rightarrow>
        if length reqs > 1000 then (Inl (Sentinel ErrBatchTooLarge), d, q)
        else
        (case prepare_loop L maxRetries batch 0 reqs d of
           (Inl e, d) \<Rightarrow> (Inl e, d, q)
         | (Inr ns, d) \<Rightarrow>
            (case repo_CreateBatch (clock 0) ids ns d of
               (Inl e, d) \<Rightarrow> (Inl e, d, q)
             | (Inr ns, d) \<Rightarrow>
                (case enqueue_loop producer clock 0 ns d q of (ns, d, q) \<Rightarrow> (Inr ns, d, q)))))"

section \<open>Notification service: reads and cancel\<close>

definition NotificationService_GetByID :: "uuid \<Rightarrow> db \<Rightarrow> (go_error + notification) \<times> db" where
  "NotificationService_GetByID i d = repo_GetByID i d"

definition NotificationService_List ::
  "notification_filter \<Rightarrow> db \<Rightarrow> (go_error + notification_list) \<times> db" where
  "NotificationService_List f d = repo_List f d"

definition NotificationService_Cancel :: "time \<Rightarrow> uuid \<Rightarrow> db \<Rightarrow> go_error option \<times> db" where
  "NotificationService_Cancel dbnow i d =
     (case repo_Cancel dbnow i d of (Some e, d) \<Rightarrow> (Some e, d) | (None, d) \<Rightarrow> (None, d))"

definition NotificationService_GetDeliveryAttempts ::
  "uuid \<Rightarrow> db \<Rightarrow> (go_error + delivery_attempt list) \<times> db" where
  "NotificationService_GetDeliveryAttempts i d =
     (case repo_GetByID i d of
        (Inl e, d) \<Rightarrow> (Inl e, d)
      | (Inr _, d) \<Rightarrow> repo_GetDeliveryAttempts i d)"

section \<open>What the steps leave alone\<close>

lemma fill_template_tables [simp]:
  "db_tables (snd (fill_template L f g req n d)) = db_tables d"
  using tmpl_repo_GetByID_tables [of "the (q_template_id req)" d]
  by (auto simp: fill_template_def Let_def simp del: tmpl_repo_GetByID_tables
      split: option.splits prod.splits sum.splits)

lemma fill_template_faults [simp]:
  "db_faults (snd (fill_template L f g req n d)) = db_faults d"
  using tmpl_repo_GetByID_faults [of "the (q_template_id req)" d]
  by (auto simp: fill_template_def Let_def simp del: tmpl_repo_GetByID_faults
      split: option.splits prod.splits sum.splits)

lemma fill_template_fresh:
  assumes "fill_template L f g req (request_notification m b req) d = (Inr n, d')"
  shows "n_attempt_count n = 0" "n_channel n = q_channel req" "n_priority n = q_priority req"
    "n_last_error n = ''''" "n_delivered_at n = None"
    "n_recipient n = q_recipient req" "n_idempotency_key n = q_idempotency_key req"
    "n_scheduled_at n = None"
  using assms
  by (auto simp: fill_template_def request_notification_def Let_def
      split: option.splits prod.splits sum.splits if_splits)

lemma set_initial_status_fields [simp]:
  "n_attempt_count (set_initial_status req n) = n_attempt_count n"
  "n_channel (set_initial_status req n) = n_channel n"
  "n_priority (set_initial_status req n) = n_priority n"
  "n_recipient (set_initial_status req n) = n_recipient n"
  "n_subject (set_initial_status req n) = n_subject n"
  "n_body (set_initial_status req n) = n_body n"
  "n_last_error (set_initial_status req n) = n_last_error n"
  "n_delivered_at (set_initial_status req n) = n_delivered_at n"
  by (simp_all add: set_initial_status_def split: option.splits)

lemma set_initial_status_fresh:
  "n_attempt_count n = 0 \<Longrightarrow> fresh_notification (set_initial_status req n)"
  by (simp add: fresh_notification_def set_initial_status_def split: option.splits)

lemma prepare_one_tables:
  "db_tables (snd (prepare_one L m b k req d)) = db_tables d"
  using fill_template_tables [of L "at_index ''template'' k" "at_index ''template render'' k" req
      "request_notification m (Some b) req" d]
  by (auto simp: prepare_one_def simp del: fill_template_tables
      split: prod.splits sum.splits option.splits)

lemma prepare_one_ok:
  assumes "prepare_one L m b k req d = (Inr n, d')"
  shows "fresh_notification n" "content_ok L (n_channel n) (n_recipient n) (n_subject n) (n_body n)"
    "priority_valid (n_priority n)"
proof -
  obtain n0 d0 where fill: "fill_template L (at_index ''template'' k) (at_index ''template render'' k)
        req (request_notification m (Some b) req) d = (Inr n0, d0)"
    and n: "n = set_initial_status req n0"
    and ok: "ValidateNotificationContent L (n_channel n0) (n_recipient n0) (n_subject n0) (n_body n0) = None"
      "priority_valid (q_priority req)"
    using assms by (auto simp: prepare_one_def split: prod.splits sum.splits option.splits if_splits)
  show "fresh_notification n" "priority_valid (n_priority n)"
    "content_ok L (n_channel n) (n_recipient n) (n_subject n) (n_body n)"
    using ok fill_template_fresh [OF fill] content_accepted
    by (simp_all add: n set_initial_status_fresh)
qed

lemma prepare_loop_tables:
  "prepare_loop L m b k reqs d = (res, d') \<Longrightarrow> db_tables d' = db_tables d"
proof (induction reqs arbitrary: k d res d')
  case (Cons req reqs)
  obtain r1 d1 where one: "prepare_one L m b k req d = (r1, d1)" by (metis surj_pair)
  obtain r2 d2 where rest: "prepare_loop L m b (Suc k) reqs d1 = (r2, d2)" by (metis surj_pair)
  show ?case
    using Cons.prems Cons.IH [OF rest] prepare_one_tables [of L m b k req d] one rest
    by (auto split: sum.splits)
qed simp

lemma prepare_loop_Cons:
  "prepare_loop L m b k (req # reqs) d = (Inr ns, d') \<Longrightarrow>
     \<exists>n ns' d1. ns = n # ns' \<and> prepare_one L m b k req d = (Inr n, d1) \<and>
       prepare_loop L m b (Suc k) reqs d1 = (Inr ns', d')"
  by (auto split: prod.splits sum.splits)

lemma prepare_loop_ok:
  "prepare_loop L m b k reqs d = (Inr ns, d') \<Longrightarrow> length ns = length reqs \<and>
    (\<forall>n \<in> set ns. fresh_notification n \<and> priority_valid (n_priority n) \<and>
      content_ok L (n_channel n) (n_recipient n) (n_subject n) (n_body n))"
proof (induction reqs arbitrary: k d ns d')
  case (Cons req reqs)
  then obtain n ns' d1 where "ns = n # ns'" "prepare_one L m b k req d = (Inr n, d1)"
      "prepare_loop L m b (Suc k) reqs d1 = (Inr ns', d')"
    using prepare_loop_Cons [OF Cons.prems] by blast
  then show ?case using Cons.IH prepare_one_ok by fastforce
qed simp

lemma enqueue_new_fields:
  "enqueue_new producer now n d q = (n', d', q') \<Longrightarrow>
     n' = n \<and> d' = d \<or>
     n' = n\<lparr>n_status := StatusQueued\<rparr> \<and>
       d' = snd (repo_UpdateStatus now (n_id n) StatusQueued '''' d) \<and> n_status n = StatusPending"
  by (auto simp: enqueue_new_def split: if_splits option.splits prod.splits)

section \<open>Invariants of the tables\<close>

context tables_invariant
begin

lemma inv_enqueue_new:
  "enqueue_new producer now n d q = (n', d', q') \<Longrightarrow> I (db_tables d) \<Longrightarrow> I (db_tables d')"
  using inv_repo_UpdateStatus [of d StatusQueued now "n_id n" "''''"]
  by (auto dest!: enqueue_new_fields simp: worker_status_def source_consts)

lemma inv_enqueue_loop:
  "enqueue_loop producer clock k ns d q = (ns', d', q') \<Longrightarrow> I (db_tables d) \<Longrightarrow> I (db_tables d')"
proof (induction ns arbitrary: k d q ns' d' q')
  case (Cons n ns)
  obtain n1 d1 q1 where one: "enqueue_new producer (clock (Suc k)) n d q = (n1, d1, q1)"
    by (metis surj_pair)
  obtain ns2 d2 q2 where rest: "enqueue_loop producer clock (Suc k) ns d1 q1 = (ns2, d2, q2)"
    by (metis surj_pair)
  show ?case
    using Cons.prems Cons.IH [OF rest] inv_enqueue_new [OF one] one rest by simp
qed simp

lemma inv_NotificationService_Create:
  assumes "I (db_tables d)"
    and "NotificationService_Create L producer m clock i req d q = (res, d', q')"
  shows "I (db_tables d')"
proof -
  obtain r0 d0 where fill: "fill_template L (\<lambda>e. Errorf ''fetching template: '' e '''') (\<lambda>e. e) req
      (request_notification m None req) d = (r0, d0)" by (metis surj_pair)
  have d0: "I (db_tables d0)"
    using fill_template_tables fill assms(1) by (metis snd_conv)
  have created: "I (db_tables d1)"
    if "r0 = Inr n" "repo_Create (clock 0) i (set_initial_status req n) d0 = (e, n1, d1)" for n e n1 d1
    using inv_repo_Create [OF d0 set_initial_status_fresh that(2)] fill_template_fresh(1) fill that(1)
    by blast
  show ?thesis
    using assms fill d0 created
    by (auto simp: NotificationService_Create_def
        split: option.splits if_splits prod.splits sum.splits dest: inv_enqueue_new)
qed

lemma inv_NotificationService_CreateBatch:
  assumes "I (db_tables d)"
    and "NotificationService_CreateBatch L producer m clock b ids reqs d q = (res, d', q')"
  shows "I (db_tables d')"
proof -
  obtain r0 d0 where prep: "prepare_loop L m b 0 reqs d = (r0, d0)" by (metis surj_pair)
  have d0: "I (db_tables d0)" using prepare_loop_tables [OF prep] assms(1) by simp
  have created: "I (db_tables d1)"
    if "r0 = Inr ns" "repo_CreateBatch (clock 0) ids ns d0 = (r1, d1)" for ns r1 d1
    using inv_repo_CreateBatch [OF d0 _ that(2)] prepare_loop_ok prep that(1) by blast
  show ?thesis
    using assms prep d0 created
    by (auto simp: NotificationService_CreateBatch_def
        split: option.splits if_splits prod.splits sum.splits dest: inv_enqueue_loop)
qed

lemma inv_NotificationService_Cancel:
  "I (db_tables d) \<Longrightarrow> I (db_tables (snd (NotificationService_Cancel now i d)))"
  using inv_repo_Cancel [of d now i]
  by (auto simp: NotificationService_Cancel_def split: prod.splits option.splits)

lemma inv_TemplateService_Create:
  assumes "I (db_tables d)"
  shows "I (db_tables (snd (TemplateService_Create L now i req d)))"
proof -
  have created: "I (db_tables d')" if "tmpl_repo_Create now i t d = (e, t', d')" for t e t' d'
    using inv_tmpl_repo_Create [OF assms, of now i t] that by simp
  show ?thesis
    using assms
    by (auto simp: TemplateService_Create_def Let_def dest: created split: option.splits prod.splits)
qed

lemma inv_TemplateService_Update:
  "I (db_tables d) \<Longrightarrow> I (db_tables (snd (TemplateService_Update L now i req d)))"
  using inv_tmpl_repo_Update
  by (auto simp: TemplateService_Update_def split: option.splits)

end

end
