(* ===== verification/Delivery.thy ===== *)
theory Delivery
  imports Environment
begin

text \<open>
  Package \<open>internal/delivery\<close>: the retry schedule and the three webhook providers. The HTTP
  client is a parameter: given the URL and the JSON payload (the map's entries) it answers with
  a malformed-request error, a transport error, or a status code and a body.
\<close>

section \<open>Backoff and retries\<close>

definition Second :: int where "Second = 1000000000"
definition Minute :: int where "Minute = 60 * Second"

text \<open>
  The float computation on rationals: a product of \<open>10 ^ 9\<close> with a power of two is exact in a
  \<open>float64\<close> until it overflows to infinity, which is capped as every large value is, and a
  value too small to represent truncates to 0 as here. The conversion to \<open>time.Duration\<close>
  truncates, which on these non-negative values is the floor.
\<close>

definition Backoff :: "int \<Rightarrow> int" where
  "Backoff attempt =
     (let base = rat_of_int Second;
          delay = base * 2 powi attempt;
          maxDelay = rat_of_int (5 * Minute);
          delay = (if delay > maxDelay then maxDelay else delay)
      in \<lfloor>delay\<rfloor>)"

definition RetryAt :: "time \<Rightarrow> int \<Rightarrow> time" where
  "RetryAt now attempt = now + Backoff attempt"

definition ShouldRetry :: "int \<Rightarrow> int \<Rightarrow> bool" where
  "ShouldRetry attemptCount maxRetries \<longleftrightarrow> attemptCount < maxRetries"

lemma Backoff_nat: "Backoff (int n) = min (2 ^ n * Second) (5 * Minute)"
proof -
  have "rat_of_int Second * 2 powi int n = rat_of_int (2 ^ n * Second)"
    by simp
  then have "Backoff (int n) =
      \<lfloor>if rat_of_int (2 ^ n * Second) > rat_of_int (5 * Minute) then rat_of_int (5 * Minute)
        else rat_of_int (2 ^ n * Second)\<rfloor>"
    by (simp only: Backoff_def Let_def)
  then show ?thesis
    by (simp only: of_int_less_iff if_distrib [where f = floor, symmetric] floor_of_int
        min_def if_distribR split: if_split) simp
qed

lemma Backoff_capped: "9 \<le> n \<Longrightarrow> Backoff (int n) = 5 * Minute"
proof -
  assume "9 \<le> n"
  then have "(2::int) ^ 9 \<le> 2 ^ n" by (rule power_increasing) simp
  then show ?thesis by (simp add: Backoff_nat Second_def Minute_def)
qed

lemma Backoff_uncapped: "n \<le> 8 \<Longrightarrow> Backoff (int n) = 2 ^ n * Second"
proof -
  assume "n \<le> 8"
  then have "(2::int) ^ n \<le> 2 ^ 8" by (rule power_increasing) simp
  then show ?thesis by (simp add: Backoff_nat Second_def Minute_def)
qed

lemma Backoff_bounds: "0 \<le> Backoff a" "Backoff a \<le> 5 * Minute"
  by (auto simp: Backoff_def Let_def Second_def Minute_def not_less
      intro: order_trans floor_mono [of _ 300000000000])

lemma Backoff_mono: "a \<le> b \<Longrightarrow> Backoff a \<le> Backoff b"
proof -
  assume "a \<le> b"
  then have "(2::rat) powi a \<le> 2 powi b" by (rule power_int_increasing) simp
  then show ?thesis
    by (auto simp: Backoff_def Let_def Second_def Minute_def intro!: floor_mono)
qed

lemma Backoff_pos: "0 \<le> a \<Longrightarrow> Second \<le> Backoff a"
  using Backoff_mono [of 0 a] Backoff_nat [of 0] by (simp add: Second_def Minute_def)

section \<open>Providers\<close>

record result =
  res_status_code :: int
  res_body :: string
  res_error :: "go_error option"
  res_duration_ms :: int

datatype http_outcome = BadRequest string | TransportError string | Response int string

type_synonym http_client = "string \<Rightarrow> fields \<Rightarrow> http_outcome"

text \<open>What the three \<open>Send\<close> methods do after building their payload.\<close>

definition post_payload ::
  "string \<Rightarrow> string \<Rightarrow> string \<Rightarrow> http_client \<Rightarrow> int \<Rightarrow> fields \<Rightarrow> result" where
  "post_payload kind baseURL path http ms payload =
     (case http (baseURL @ path) payload of
        BadRequest e \<Rightarrow> \<lparr>res_status_code = 0, res_body = '''',
          res_error = Some (Errorf ''creating request: '' (Plain e) ''''), res_duration_ms = ms\<rparr>
      | TransportError e \<Rightarrow> \<lparr>res_status_code = 0, res_body = '''',
          res_error = Some (Errorf (''sending '' @ kind @ '': '') (Plain e) ''''),
          res_duration_ms = ms\<rparr>
      | Response code body \<Rightarrow> \<lparr>res_status_code = code, res_body = take 4096 body,
          res_error = (if code \<ge> 400
             then Some (Errorf '''' (Sentinel ErrProviderFailure) ('': status '' @ int_text code))
             else None),
          res_duration_ms = ms\<rparr>)"

definition EmailProvider_Send ::
  "string \<Rightarrow> string \<Rightarrow> http_client \<Rightarrow> int \<Rightarrow> notification \<Rightarrow> result" where
  "EmailProvider_Send baseURL path http ms n = post_payload ''email'' baseURL path http ms
     [(''to'', n_recipient n), (''subject'', n_subject n), (''body'', n_body n),
      (''channel'', n_channel n)]"

definition SMSProvider_Send ::
  "string \<Rightarrow> string \<Rightarrow> http_client \<Rightarrow> int \<Rightarrow> notification \<Rightarrow> result" where
  "SMSProvider_Send baseURL path http ms n = post_payload ''SMS'' baseURL path http ms
     [(''to'', n_recipient n), (''body'', n_body n), (''channel'', n_channel n)]"

definition PushProvider_Send ::
  "string \<Rightarrow> string \<Rightarrow> http_client \<Rightarrow> int \<Rightarrow> notification \<Rightarrow> result" where
  "PushProvider_Send baseURL path http ms n = post_payload ''push'' baseURL path http ms
     [(''device_token'', n_recipient n), (''title'', n_subject n), (''body'', n_body n),
      (''channel'', n_channel n)]"

definition EmailProvider_Channel :: channel where "EmailProvider_Channel = ChannelEmail"
definition SMSProvider_Channel :: channel where "SMSProvider_Channel = ChannelSMS"
definition PushProvider_Channel :: channel where "PushProvider_Channel = ChannelPush"

text \<open>
  The \<open>Provider\<close> interface. Its laws are what the dispatcher relies on: an error has a text (it
  becomes \<open>last_error\<close>), no error means a status below 400, and the recorded body is bounded.
\<close>

locale delivery_provider =
  fixes send :: "http_client \<Rightarrow> int \<Rightarrow> notification \<Rightarrow> result"
    and chan :: channel
  assumes error_has_text: "res_error (send http ms n) = Some e \<Longrightarrow> error_text e \<noteq> ''''"
    and success_status: "res_error (send http ms n) = None \<Longrightarrow> res_status_code (send http ms n) < 400"
    and failure_status: "res_error (send http ms n) = Some e \<Longrightarrow>
      res_status_code (send http ms n) = 0 \<or> 400 \<le> res_status_code (send http ms n)"
    and body_bound: "length (res_body (send http ms n)) \<le> 4096"
    and chan_valid: "channel_valid chan"
begin

lemma error_iff:
  assumes "0 < res_status_code (send http ms n)"
  shows "res_error (send http ms n) \<noteq> None \<longleftrightarrow> 400 \<le> res_status_code (send http ms n)"
proof (cases "res_error (send http ms n)")
  case None
  then show ?thesis using success_status [of http ms n] by simp
next
  case (Some e)
  then show ?thesis using failure_status [of http ms n e] assms by simp
qed

end

lemmas provider_defs = post_payload_def EmailProvider_Send_def SMSProvider_Send_def
  PushProvider_Send_def EmailProvider_Channel_def SMSProvider_Channel_def
  PushProvider_Channel_def channel_valid_def

interpretation email: delivery_provider "EmailProvider_Send baseURL path" EmailProvider_Channel
  by unfold_locales (auto simp: provider_defs split: http_outcome.splits if_splits)

interpretation sms: delivery_provider "SMSProvider_Send baseURL path" SMSProvider_Channel
  by unfold_locales (auto simp: provider_defs split: http_outcome.splits if_splits)

interpretation push: delivery_provider "PushProvider_Send baseURL path" PushProvider_Channel
  by unfold_locales (auto simp: provider_defs split: http_outcome.splits if_splits)

end
