(* ===== verification/Limiter.thy ===== *)
theory Limiter
  imports Redis_Api
begin

text \<open>
  Package \<open>internal/ratelimit\<close>: the sliding-window limiter, a Lua script over one sorted set per
  channel. The script is a function of its arguments, of the draw of \<open>math.random\<close> and of the
  Redis state; \<open>Allow\<close> runs it through the client. \<open>win_step\<close> is the same step on the sorted set
  alone, and the script refines it; the bound on a window is proved there.
\<close>

section \<open>The script and the limiter\<close>

definition limiter_member :: "int \<Rightarrow> int \<Rightarrow> string" where
  "limiter_member now rnd = int_text now @ ''-'' @ int_text rnd"

definition slidingWindowLua ::
  "'r redis \<Rightarrow> string \<Rightarrow> int \<Rightarrow> int \<Rightarrow> int \<Rightarrow> int \<Rightarrow> 'r \<Rightarrow> int \<times> 'r" where
  "slidingWindowLua R key window max_requests now rnd r =
     (let r = lua_zremrangebyscore R key (now - window) r;
          count = lua_zcard R key r in
      if count < max_requests then
        let r = lua_zadd R key now (limiter_member now rnd) r;
            r = lua_pexpire R key window r
        in (1, r)
      else (0, r))"

record limiter =
  maxPerSec :: int
  windowMs :: int

definition NewLimiter :: "int \<Rightarrow> limiter" where
  "NewLimiter m = \<lparr>maxPerSec = m, windowMs = 1000\<rparr>"

definition limiter_key :: "channel \<Rightarrow> string" where
  "limiter_key ch = ''ratelimit:'' @ ch"

definition Allow ::
  "'r redis \<Rightarrow> limiter \<Rightarrow> channel \<Rightarrow> time \<Rightarrow> int \<Rightarrow> 'r \<Rightarrow> (go_error + bool) \<times> 'r" where
  "Allow R l ch clock rnd r =
     (let key = limiter_key ch; now = UnixMilli clock in
      case run_script R (slidingWindowLua R key (windowMs l) (maxPerSec l) now rnd) r of
        (Inl e, r') \<Rightarrow> (Inl (Errorf ''rate limit check: '' (Plain e) ''''), r')
      | (Inr result, r') \<Rightarrow> (Inr (result = 1), r'))"

section \<open>The window on its own\<close>

definition win_live :: "int \<Rightarrow> int \<Rightarrow> zset \<Rightarrow> zset" where
  "win_live w now z = filter (\<lambda>e. now - w < snd e) z"

definition win_step :: "int \<Rightarrow> int \<Rightarrow> int \<Rightarrow> string \<Rightarrow> zset \<Rightarrow> bool \<times> zset" where
  "win_step w mx now m z =
     (let z' = win_live w now z in
      if int (length z') < mx then (True, zset_add m now z') else (False, z'))"

fun win_run :: "int \<Rightarrow> int \<Rightarrow> (int \<times> string) list \<Rightarrow> zset \<Rightarrow> int list" where
  "win_run w mx [] z = []"
| "win_run w mx ((now, m) # cs) z =
     (case win_step w mx now m z of (ok, z') \<Rightarrow>
        (if ok then now # win_run w mx cs z' else win_run w mx cs z'))"

definition in_window :: "int \<Rightarrow> int \<Rightarrow> int list \<Rightarrow> int list" where
  "in_window w t xs = filter (\<lambda>s. t - w < s \<and> s \<le> t) xs"

text \<open>The run of a channel's calls through the client: the times of the admitted ones.\<close>

fun allow_run :: "'r redis \<Rightarrow> limiter \<Rightarrow> channel \<Rightarrow> (time \<times> int) list \<Rightarrow> 'r \<Rightarrow> int list" where
  "allow_run R l ch [] r = []"
| "allow_run R l ch ((clock, rnd) # cs) r =
     (case Allow R l ch clock rnd r of
        (Inr True, r') \<Rightarrow> UnixMilli clock # allow_run R l ch cs r'
      | (_, r') \<Rightarrow> allow_run R l ch cs r')"

lemma limiter_member_inject:
  assumes "0 \<le> now" "0 \<le> now'" "0 \<le> rnd" "0 \<le> rnd'"
  shows "limiter_member now rnd = limiter_member now' rnd' \<longleftrightarrow> now = now' \<and> rnd = rnd'"
  using assms
  by (auto simp: limiter_member_def int_text_def append_sep_inject [of "CHR ''-''"] digits_no_dash)

lemma zset_add_new:
  assumes "m \<notin> fst ` set z"
  shows "zset_add m s z = insort_key zset_order (m, s) z"
proof -
  have "filter (\<lambda>e. fst e \<noteq> m) z = z" using assms by (intro filter_True) auto
  then show ?thesis by (simp add: zset_add_def)
qed

lemma in_window_simps [simp]:
  "in_window w t [] = []"
  "in_window w t (x # xs) =
     (if t - w < x \<and> x \<le> t then x # in_window w t xs else in_window w t xs)"
  by (simp_all add: in_window_def)

lemma in_window_insort:
  "length (in_window w t (map snd (insort_key f e xs))) = length (in_window w t (snd e # map snd xs))"
  by (induction xs) auto

lemma win_run_later:
  "sorted (map fst cs) \<Longrightarrow> (\<forall>c \<in> set cs. t \<le> fst c) \<Longrightarrow> \<forall>s \<in> set (win_run w mx cs z). t \<le> s"
proof (induction w mx cs z rule: win_run.induct)
  case (2 w mx now m cs z)
  then show ?case by (auto split: prod.splits)
qed simp

lemma in_window_none: "\<forall>s \<in> set xs. t < s \<Longrightarrow> in_window w t xs = []"
  by (auto simp: in_window_def filter_empty_conv)

lemma in_window_length: "length (in_window w t xs) \<le> length xs"
  by (simp add: in_window_def)

lemma in_window_live:
  "now \<le> t \<Longrightarrow> in_window w t (map snd (win_live w now z)) = in_window w t (map snd z)"
  by (induction z) (auto simp: win_live_def in_window_def)

text \<open>
  The invariant of a run: at every instant \<open>t\<close>, the entries of the set and the calls still to be
  admitted put together hold at most \<open>mx\<close> times of the window that ends at \<open>t\<close>.
\<close>

lemma win_run_bound:
  assumes "sorted (map fst cs)" "distinct (map snd cs)"
    and "set (map snd cs) \<inter> fst ` set z = {}" "length z \<le> nat mx"
  shows "length (in_window w t (map snd z)) + length (in_window w t (win_run w mx cs z)) \<le> nat mx"
  using assms
proof (induction w mx cs z rule: win_run.induct)
  case (1 w mx z)
  then show ?case
    using in_window_length [of w t "map snd z"] by (simp add: in_window_def [of _ _ "[]"])
next
  case (2 w mx now m cs z)
  obtain ok z' where step: "win_step w mx now m z = (ok, z')" by fastforce
  let ?live = "win_live w now z"
  let ?rest = "if ok then now # win_run w mx cs z' else win_run w mx cs z'"
  have run: "win_run w mx ((now, m) # cs) z = ?rest" by (simp add: step)
  have sub: "fst ` set ?live \<subseteq> fst ` set z" by (auto simp: win_live_def)
  have new: "m \<notin> fst ` set ?live" using "2.prems"(3) sub by auto
  have z': "z' = (if ok then insort_key zset_order (m, now) ?live else ?live)"
    and room: "ok \<Longrightarrow> int (length ?live) < mx"
    using step by (auto simp: win_step_def Let_def zset_add_new [OF new] split: if_splits)
  have len_live: "length ?live \<le> length z" by (simp add: win_live_def)
  have later: "\<forall>s \<in> set (win_run w mx cs z'). now \<le> s"
    using "2.prems"(1) by (intro win_run_later) auto
  show ?case
  proof (cases "t < now")
    case True
    then have "in_window w t ?rest = []"
      using later by (intro in_window_none) auto
    then show ?thesis
      using in_window_length [of w t "map snd z"] "2.prems"(4) unfolding run by simp
  next
    case False
    have cs: "sorted (map fst cs)" "distinct (map snd cs)" using "2.prems"(1,2) by auto
    have apart: "set (map snd cs) \<inter> fst ` set z' = {}"
    proof -
      have "fst ` set z' \<subseteq> insert m (fst ` set ?live)" by (auto simp: z' set_insort_key)
      moreover have "m \<notin> set (map snd cs)" using "2.prems"(2) by auto
      moreover have "set (map snd cs) \<inter> fst ` set z = {}" using "2.prems"(3) by simp
      ultimately show ?thesis using sub by blast
    qed
    have "length z' \<le> nat mx" using room "2.prems"(4) len_live by (auto simp: z')
    then have "length (in_window w t (map snd z')) + length (in_window w t (win_run w mx cs z')) \<le> nat mx"
      using "2.IH"(1) [OF step [symmetric] _ cs apart] "2.IH"(2) [OF step [symmetric] _ cs apart]
      by (cases ok) simp_all
    moreover have "length (in_window w t (map snd z')) =
        length (in_window w t (map snd z)) + (if ok then length (in_window w t [now]) else 0)"
      using False by (auto simp: z' in_window_insort in_window_live)
    ultimately show ?thesis
      unfolding run by (cases ok) auto
  qed
qed

lemma win_step_reopens:
  assumes "0 < mx" "\<forall>e \<in> set z. snd e \<le> now - w"
  shows "fst (win_step w mx now m z)"
proof -
  have "win_live w now z = []" using assms(2) by (auto simp: win_live_def filter_empty_conv)
  then show ?thesis using assms(1) by (simp add: win_step_def)
qed

text \<open>Same member, same instant: the set keeps one entry, so the count stays at one.\<close>

lemma win_run_collisions:
  assumes "2 \<le> mx" "0 < w" "z = [] \<or> z = [(m, now)]"
  shows "win_run w mx (replicate n (now, m)) z = replicate n now"
  using assms(3)
proof (induction n arbitrary: z)
  case (Suc n)
  have "win_step w mx now m [] = (True, [(m, now)])"
    and "win_step w mx now m [(m, now)] = (True, [(m, now)])"
    using assms(1,2) by (simp_all add: win_step_def win_live_def zset_add_def)
  then have "win_step w mx now m z = (True, [(m, now)])" using Suc.prems by metis
  then show ?case using Suc.IH [of "[(m, now)]"] by simp
qed simp

text \<open>
  The expiry the script sets changes nothing: once \<open>w\<close> milliseconds have passed since the last
  admission, the script itself would drop every entry.
\<close>

lemma win_expiry_harmless:
  assumes "\<forall>e \<in> set z. snd e \<le> latest" "latest + w \<le> now"
  shows "win_step w mx now m z = win_step w mx now m []"
proof -
  have "win_live w now z = []" using assms by (auto simp: win_live_def filter_empty_conv)
  then show ?thesis by (simp add: win_step_def win_live_def)
qed

section \<open>The script refines the window step\<close>

context redis_service
begin

lemma slidingWindowLua_refines:
  "(fst (slidingWindowLua R key w mx now rnd r) = 1,
    v_zset (view_of (snd (slidingWindowLua R key w mx now rnd r))) key) =
   win_step w mx now (limiter_member now rnd) (v_zset (view_of r) key)"
  by (simp add: slidingWindowLua_def Let_def win_step_def win_live_def lua_zcard_law
      lua_zremrange_law lua_zadd_law lua_pexpire_law view_defs)

lemma Allow_refines:
  assumes "Allow R l ch clock rnd r = (Inr ok, r')"
  shows "(ok, v_zset (view_of r') (limiter_key ch)) =
    win_step (windowMs l) (maxPerSec l) (UnixMilli clock) (limiter_member (UnixMilli clock) rnd)
      (v_zset (view_of r) (limiter_key ch))"
  using assms slidingWindowLua_refines [of "limiter_key ch" "windowMs l" "maxPerSec l" "UnixMilli clock" rnd r]
  by (auto simp: Allow_def Let_def split: prod.splits sum.splits dest!: script_law)

lemma Allow_frame:
  assumes "Allow R l ch clock rnd r = (Inr ok, r')"
  shows "v_log (view_of r') = v_log (view_of r)" "v_unread (view_of r') = v_unread (view_of r)"
    "v_pending (view_of r') = v_pending (view_of r)"
    "k \<noteq> limiter_key ch \<Longrightarrow> v_zset (view_of r') k = v_zset (view_of r) k"
  using assms
  by (auto simp: Allow_def Let_def slidingWindowLua_def lua_zremrange_law lua_zadd_law
      lua_pexpire_law view_defs split: prod.splits sum.splits if_splits dest!: script_law)

end

lemma Allow_up: "redis_up R \<Longrightarrow> \<exists>ok r'. Allow R l ch clock rnd r = (Inr ok, r')"
  unfolding redis_up_def Allow_def Let_def
  by (metis (no_types, lifting) case_prod_conv sum.case(2))

context redis_service
begin

lemma allow_run_refines:
  assumes "redis_up R"
  shows "allow_run R l ch cs r =
    win_run (windowMs l) (maxPerSec l)
      (map (\<lambda>(clock, rnd). (UnixMilli clock, limiter_member (UnixMilli clock) rnd)) cs)
      (v_zset (view_of r) (limiter_key ch))"
proof (induction cs arbitrary: r)
  case (Cons c cs)
  obtain clock rnd where c: "c = (clock, rnd)" by fastforce
  obtain ok r' where a: "Allow R l ch clock rnd r = (Inr ok, r')"
    using Allow_up [OF assms] by blast
  show ?case
    using Allow_refines [OF a, symmetric] Cons.IH [of r'] by (cases ok) (simp_all add: c a)
qed simp

end

end
