(* ===== verification/Hub.thy ===== *)
theory Hub
  imports Environment
begin

text \<open>
  Package \<open>internal/api/websocket\<close>: the hub of subscribers. The map of maps is modelled with its
  aliasing: \<open>subscribers\<close> holds the address of a connection set and a store holds the sets,
  because \<open>Broadcast\<close> reads the reference under one lock and iterates over the set under a later
  one, and other goroutines may subscribe and unsubscribe in between. A connection is a number.
\<close>

record hub =
  hub_subscribers :: "uuid \<Rightarrow> nat option"
  hub_store :: "nat \<Rightarrow> nat list"
  hub_next :: nat

definition NewHub :: hub where
  "NewHub = \<lparr>hub_subscribers = (\<lambda>_. None), hub_store = (\<lambda>_. []), hub_next = 0\<rparr>"

definition hub_subscribe :: "uuid \<Rightarrow> nat \<Rightarrow> hub \<Rightarrow> hub" where
  "hub_subscribe i conn h =
     (let h = (case hub_subscribers h i of
                 None \<Rightarrow> h\<lparr>hub_subscribers := (hub_subscribers h)(i := Some (hub_next h)),
                          hub_store := (hub_store h)(hub_next h := []),
                          hub_next := Suc (hub_next h)\<rparr>
               | Some a \<Rightarrow> h)
      in case hub_subscribers h i of
           None \<Rightarrow> h
         | Some a \<Rightarrow> h\<lparr>hub_store := (hub_store h)(a := List.insert conn (hub_store h a))\<rparr>)"

definition hub_unsubscribe :: "uuid \<Rightarrow> nat \<Rightarrow> hub \<Rightarrow> hub" where
  "hub_unsubscribe i conn h =
     (case hub_subscribers h i of
        None \<Rightarrow> h
      | Some a \<Rightarrow>
         (let h = h\<lparr>hub_store := (hub_store h)(a := removeAll conn (hub_store h a))\<rparr> in
          if hub_store h a = [] then h\<lparr>hub_subscribers := (hub_subscribers h)(i := None)\<rparr> else h))"

text \<open>
  \<open>Broadcast\<close> in its two critical sections. The first reads the reference; a nil or empty set ends
  the call. The second writes the message to every connection then in the set.
\<close>

definition broadcast_message :: "lib \<Rightarrow> uuid \<Rightarrow> string \<Rightarrow> string" where
  "broadcast_message L i st =
     ''{\"notification_id\":\"'' @ uuid_String L i @ ''\",\"status\":\"'' @ st @ ''\"}''"

definition broadcast_lookup :: "uuid \<Rightarrow> hub \<Rightarrow> nat option" where
  "broadcast_lookup i h = hub_subscribers h i"

definition broadcast_send :: "lib \<Rightarrow> uuid \<Rightarrow> string \<Rightarrow> nat option \<Rightarrow> hub \<Rightarrow> (nat \<times> string) list" where
  "broadcast_send L i st ref h =
     (case ref of None \<Rightarrow> [] | Some a \<Rightarrow> map (\<lambda>c. (c, broadcast_message L i st)) (hub_store h a))"

definition Broadcast :: "lib \<Rightarrow> uuid \<Rightarrow> string \<Rightarrow> hub \<Rightarrow> (nat \<times> string) list" where
  "Broadcast L i st h = broadcast_send L i st (broadcast_lookup i h) h"

text \<open>The connections subscribed to a notification, and what other goroutines do to the hub.\<close>

definition hub_conns :: "uuid \<Rightarrow> hub \<Rightarrow> nat list" where
  "hub_conns i h = (case hub_subscribers h i of None \<Rightarrow> [] | Some a \<Rightarrow> hub_store h a)"

datatype hub_event = Subscribed uuid nat | Unsubscribed uuid nat

fun hub_apply :: "hub_event \<Rightarrow> hub \<Rightarrow> hub" where
  "hub_apply (Subscribed i c) h = hub_subscribe i c h"
| "hub_apply (Unsubscribed i c) h = hub_unsubscribe i c h"

definition hub_run :: "hub_event list \<Rightarrow> hub \<Rightarrow> hub" where
  "hub_run es h = fold hub_apply es h"

text \<open>
  The invariant of the hub: references are allocated, no two notifications share a set, the set
  of a subscribed notification is not empty, and an empty or detached set is unreferenced.
\<close>

definition hub_ok :: "hub \<Rightarrow> bool" where
  "hub_ok h \<longleftrightarrow>
     (\<forall>i a. hub_subscribers h i = Some a \<longrightarrow> a < hub_next h \<and> hub_store h a \<noteq> []) \<and>
     (\<forall>i j a. hub_subscribers h i = Some a \<longrightarrow> hub_subscribers h j = Some a \<longrightarrow> i = j) \<and>
     (\<forall>a. hub_store h a \<noteq> [] \<longrightarrow> (\<exists>i. hub_subscribers h i = Some a))"

lemma hub_ok_new: "hub_ok NewHub"
  by (simp add: hub_ok_def NewHub_def)

lemma insert_not_Nil [simp]: "List.insert x xs \<noteq> []"
  by (cases xs) (auto simp: List.insert_def)

lemma subscribe_new:
  "hub_subscribers h i = None \<Longrightarrow> hub_subscribe i c h =
     h\<lparr>hub_subscribers := (hub_subscribers h)(i := Some (hub_next h)),
       hub_store := (hub_store h)(hub_next h := [c]), hub_next := Suc (hub_next h)\<rparr>"
  by (simp add: hub_subscribe_def List.insert_def)

lemma subscribe_known:
  "hub_subscribers h i = Some a \<Longrightarrow> hub_subscribe i c h =
     h\<lparr>hub_store := (hub_store h)(a := List.insert c (hub_store h a))\<rparr>"
  by (simp add: hub_subscribe_def)

lemma unsubscribe_known:
  "hub_subscribers h i = Some a \<Longrightarrow> hub_unsubscribe i c h =
     (if removeAll c (hub_store h a) = []
      then h\<lparr>hub_subscribers := (hub_subscribers h)(i := None), hub_store := (hub_store h)(a := [])\<rparr>
      else h\<lparr>hub_store := (hub_store h)(a := removeAll c (hub_store h a))\<rparr>)"
  by (simp add: hub_unsubscribe_def Let_def)

lemma hub_okD:
  assumes "hub_ok h" "hub_subscribers h i = Some a"
  shows "a < hub_next h" "hub_store h a \<noteq> []" "hub_subscribers h j = Some a \<Longrightarrow> j = i"
  using assms unfolding hub_ok_def by blast+

lemma hub_ok_ref: "hub_ok h \<Longrightarrow> hub_store h a \<noteq> [] \<Longrightarrow> \<exists>i. hub_subscribers h i = Some a"
  by (simp add: hub_ok_def)

lemma hub_okI:
  assumes "\<And>i a. hub_subscribers h i = Some a \<Longrightarrow> a < hub_next h \<and> hub_store h a \<noteq> []"
    and "\<And>i j a. hub_subscribers h i = Some a \<Longrightarrow> hub_subscribers h j = Some a \<Longrightarrow> i = j"
    and "\<And>a. hub_store h a \<noteq> [] \<Longrightarrow> \<exists>i. hub_subscribers h i = Some a"
  shows "hub_ok h"
  using assms unfolding hub_ok_def by blast

lemma hub_ok_next_unused: "hub_ok h \<Longrightarrow> hub_subscribers h i \<noteq> Some (hub_next h)"
  using hub_okD(1) by blast

lemma hub_ok_subscribe:
  assumes ok: "hub_ok h"
  shows "hub_ok (hub_subscribe i c h)"
proof (cases "hub_subscribers h i")
  case None
  let ?h = "hub_subscribe i c h"
  have fresh: "hub_subscribers h j \<noteq> Some (hub_next h)" for j
    using hub_ok_next_unused [OF ok] .
  show ?thesis
  proof (rule hub_okI)
    show "a < hub_next ?h \<and> hub_store ?h a \<noteq> []" if "hub_subscribers ?h j = Some a" for j a
      using that fresh hub_okD(1,2) [OF ok] None
      by (cases "j = i") (auto simp: subscribe_new less_Suc_eq)
    show "j = k" if "hub_subscribers ?h j = Some a" "hub_subscribers ?h k = Some a" for j k a
      using that fresh hub_okD(3) [OF ok] None
      by (auto simp: subscribe_new split: if_splits)
    show "\<exists>j. hub_subscribers ?h j = Some a" if ne: "hub_store ?h a \<noteq> []" for a
    proof (cases "a = hub_next h")
      case True
      then show ?thesis using None by (auto simp: subscribe_new)
    next
      case False
      then obtain j where "hub_subscribers h j = Some a"
        using ne None hub_ok_ref [OF ok, of a] by (auto simp: subscribe_new)
      then show ?thesis using None by (auto simp: subscribe_new intro!: exI [of _ j])
    qed
  qed
next
  case (Some b)
  then show ?thesis
    using hub_okD [OF ok] hub_ok_ref [OF ok]
    by (intro hub_okI) (auto simp: subscribe_known split: if_splits)
qed

lemma hub_ok_unsubscribe:
  assumes ok: "hub_ok h"
  shows "hub_ok (hub_unsubscribe i c h)"
proof (cases "hub_subscribers h i")
  case None
  then show ?thesis using ok by (simp add: hub_unsubscribe_def)
next
  case (Some b)
  show ?thesis
  proof (cases "removeAll c (hub_store h b) = []")
    case True
    then have h': "hub_unsubscribe i c h =
        h\<lparr>hub_subscribers := (hub_subscribers h)(i := None), hub_store := (hub_store h)(b := [])\<rparr>"
      using Some by (simp add: unsubscribe_known)
    show ?thesis
    proof (rule hub_okI, unfold h')
      let ?h = "h\<lparr>hub_subscribers := (hub_subscribers h)(i := None), hub_store := (hub_store h)(b := [])\<rparr>"
      show "a < hub_next ?h \<and> hub_store ?h a \<noteq> []" if "hub_subscribers ?h j = Some a" for j a
        using that hub_okD(1,2) [OF ok] hub_okD(3) [OF ok Some] by (auto split: if_splits)
      show "j = k" if "hub_subscribers ?h j = Some a" "hub_subscribers ?h k = Some a" for j k a
        using that hub_okD(3) [OF ok] by (auto split: if_splits)
      show "\<exists>j. hub_subscribers ?h j = Some a" if "hub_store ?h a \<noteq> []" for a
      proof -
        from that obtain j where "a \<noteq> b" "hub_subscribers h j = Some a"
          using hub_ok_ref [OF ok] by (auto split: if_splits)
        then show ?thesis using Some by (intro exI [of _ j]) auto
      qed
    qed
  next
    case False
    then show ?thesis
      using Some hub_okD [OF ok] hub_ok_ref [OF ok]
      by (intro hub_okI) (auto simp: unsubscribe_known split: if_splits)
  qed
qed

lemma hub_ok_apply: "hub_ok h \<Longrightarrow> hub_ok (hub_apply e h)"
  by (cases e) (simp_all add: hub_ok_subscribe hub_ok_unsubscribe)

text \<open>Subscribing and unsubscribing are what their names say on the connections of a notification.\<close>

lemma hub_conns_subscribe:
  assumes ok: "hub_ok h"
  shows "set (hub_conns j (hub_subscribe i c h)) =
     (if j = i then insert c (set (hub_conns i h)) else set (hub_conns j h))"
  using hub_ok_next_unused [OF ok, of j] hub_okD(3) [OF ok, of i _ j]
  by (cases "hub_subscribers h i"; cases "hub_subscribers h j")
    (auto simp: hub_conns_def subscribe_new subscribe_known)

lemma hub_conns_unsubscribe:
  assumes ok: "hub_ok h"
  shows "set (hub_conns j (hub_unsubscribe i c h)) =
     (if j = i then set (hub_conns i h) - {c} else set (hub_conns j h))"
proof (cases "hub_subscribers h i")
  case None
  then show ?thesis by (simp add: hub_unsubscribe_def hub_conns_def)
next
  case (Some a)
  have rest: "removeAll c (hub_store h a) = [] \<Longrightarrow> set (hub_store h a) - {c} = {}"
    by (metis list.set(1) set_removeAll)
  show ?thesis
  proof (cases "j = i")
    case True
    then show ?thesis
      using Some rest by (auto simp: hub_conns_def unsubscribe_known)
  next
    case False
    then have "hub_subscribers h j \<noteq> Some a" using hub_okD(3) [OF ok Some] by blast
    then show ?thesis
      using Some False by (cases "hub_subscribers h j") (simp_all add: hub_conns_def unsubscribe_known)
  qed
qed

text \<open>
  A reference taken earlier: it is still the set of its notification, or the set is detached and
  empty for good.
\<close>

definition ref_of :: "uuid \<Rightarrow> nat \<Rightarrow> hub \<Rightarrow> bool" where
  "ref_of i a h \<longleftrightarrow> a < hub_next h \<and> (hub_subscribers h i = Some a \<or>
     hub_store h a = [] \<and> (\<forall>j. hub_subscribers h j \<noteq> Some a))"

lemma ref_of_apply:
  assumes ok: "hub_ok h" and ref: "ref_of i a h"
  shows "ref_of i a (hub_apply e h)"
proof (cases e)
  case (Subscribed j c)
  show ?thesis
    using hub_okD(3) [OF ok, of j _ i] ref unfolding Subscribed
    by (cases "hub_subscribers h j") (auto simp: ref_of_def subscribe_new subscribe_known)
next
  case (Unsubscribed j c)
  show ?thesis
  proof (cases "hub_subscribers h j")
    case None
    then show ?thesis using ref by (simp add: Unsubscribed hub_unsubscribe_def)
  next
    case (Some b)
    show ?thesis
    proof (cases "b = a")
      case True
      then have "hub_subscribers h i = Some a" using ref Some by (auto simp: ref_of_def)
      then have "j = i" using hub_okD(3) [OF ok] Some True by blast
      moreover have "\<forall>k. k \<noteq> i \<longrightarrow> hub_subscribers h k \<noteq> Some a"
        using hub_okD(3) [OF ok Some] True \<open>j = i\<close> by blast
      ultimately show ?thesis
        using Some True ref by (simp add: Unsubscribed ref_of_def unsubscribe_known)
    next
      case False
      then show ?thesis
        using Some ref by (auto simp: Unsubscribed ref_of_def unsubscribe_known)
    qed
  qed
qed

lemma hub_run_keeps:
  "hub_ok h \<Longrightarrow> ref_of i a h \<Longrightarrow> hub_ok (hub_run es h) \<and> ref_of i a (hub_run es h)"
  unfolding hub_run_def
  by (induction es arbitrary: h) (simp_all add: hub_ok_apply ref_of_apply)

lemma hub_run_ok: "hub_ok h \<Longrightarrow> hub_ok (hub_run es h)"
  unfolding hub_run_def by (induction es arbitrary: h) (simp_all add: hub_ok_apply)

lemma ref_of_store:
  assumes "hub_ok h" "ref_of i a h"
  shows "hub_store h a = (if hub_subscribers h i = Some a then hub_conns i h else [])"
  using assms by (auto simp: ref_of_def hub_conns_def)

lemma hub_conns_stays:
  assumes "hub_ok h" "ref_of i a h" "c \<in> set (hub_store h a)" "Unsubscribed i c \<notin> set es"
  shows "c \<in> set (hub_store (hub_run es h) a)"
  using assms unfolding hub_run_def
proof (induction es arbitrary: h)
  case (Cons e es)
  have sub: "hub_subscribers h i = Some a"
    using Cons.prems(2,3) by (auto simp: ref_of_def)
  have "c \<in> set (hub_store (hub_apply e h) a)"
  proof (cases e)
    case (Subscribed j d)
    then show ?thesis
      using Cons.prems(3) hub_okD(1) [OF Cons.prems(1) sub]
      by (cases "hub_subscribers h j") (auto simp: subscribe_new subscribe_known)
  next
    case (Unsubscribed j d)
    then have "j = i \<Longrightarrow> d \<noteq> c" using Cons.prems(4) by auto
    then show ?thesis
      using Cons.prems(3) hub_okD(3) [OF Cons.prems(1) sub, of j] Unsubscribed
      by (cases "hub_subscribers h j")
        (auto simp: hub_unsubscribe_def [of j d h] unsubscribe_known removeAll_filter_not_eq
          filter_empty_conv Let_def)
  qed
  then have "c \<in> set (hub_store (fold hub_apply es (hub_apply e h)) a)"
    using Cons.prems by (intro Cons.IH) (auto simp: hub_ok_apply ref_of_apply)
  then show ?case by simp
qed simp

end
