(* ===== verification/Dispatcher.thy ===== *)
theory Dispatcher
  imports Services Delivery Limiter Hub
begin

text \<open>
  Package \<open>internal/worker\<close>: the dispatcher that handles one queue message, the processor of
  delayed retries, and the scheduler's poll. The world is the database, the Redis state, the hub
  and what the worker emits: the socket writes, the metric increments and, as an observation of
  the run, the notifications handed to a provider.

  Errors that the Go code logs and drops leave their state change and nothing else. The readings
  of the clock inside one \<open>processMessage\<close> are numbered: 0 the update to processing, 1 the
  update to failed without a provider, 2 the increment, 3 the attempt, 4 the retry time, 5 the
  last update.
\<close>

section \<open>State\<close>

record 'r world =
  w_db :: db
  w_redis :: 'r
  w_hub :: hub
  w_writes :: "(nat \<times> string) list"
  w_processed :: "(string \<times> string) list"
  w_retried :: nat
  w_dlq :: nat
  w_sent :: "notification list"

record 'r dispatcher =
  d_lib :: lib
  d_redis :: "'r redis"
  d_limiter :: limiter
  d_providers :: "channel \<Rightarrow> (notification \<Rightarrow> result) option"

definition ack_message :: "'r dispatcher \<Rightarrow> message \<Rightarrow> 'r world \<Rightarrow> 'r world" where
  "ack_message D msg w =
     w\<lparr>w_redis := snd (Ack (d_redis D) (m_stream_id msg) (m_message_id msg) (w_redis w))\<rparr>"

definition set_status :: "time \<Rightarrow> uuid \<Rightarrow> status \<Rightarrow> string \<Rightarrow> 'r world \<Rightarrow> 'r world" where
  "set_status now i st e w = w\<lparr>w_db := snd (repo_UpdateStatus now i st e (w_db w))\<rparr>"

definition broadcast :: "'r dispatcher \<Rightarrow> uuid \<Rightarrow> string \<Rightarrow> 'r world \<Rightarrow> 'r world" where
  "broadcast D i st w = w\<lparr>w_writes := w_writes w @ Broadcast (d_lib D) i st (w_hub w)\<rparr>"

definition count_processed :: "channel \<Rightarrow> string \<Rightarrow> 'r world \<Rightarrow> 'r world" where
  "count_processed ch st w = w\<lparr>w_processed := w_processed w @ [(ch, st)]\<rparr>"

section \<open>The rate limit loop\<close>

text \<open>
  The loop asks the limiter until it admits the message, fails, or the context is done while the
  worker sleeps. One element of the list is one turn: the clock, the script's random draw, and
  whether the sleep after it is cut short; \<open>Waiting\<close> is a loop that has not ended yet.
\<close>

datatype wait = Proceed | CtxDone | Waiting

fun rate_wait ::
  "'r redis \<Rightarrow> limiter \<Rightarrow> channel \<Rightarrow> (time \<times> int \<times> bool) list \<Rightarrow> 'r \<Rightarrow> wait \<times> 'r" where
  "rate_wait R l ch [] r = (Waiting, r)"
| "rate_wait R l ch ((clock, rnd, cancelled) # turns) r =
     (case Allow R l ch clock rnd r of
        (Inl e, r) \<Rightarrow> (Proceed, r)
      | (Inr True, r) \<Rightarrow> (Proceed, r)
      | (Inr False, r) \<Rightarrow> if cancelled then (CtxDone, r) else rate_wait R l ch turns r)"

section \<open>processMessage\<close>

definition new_attempt :: "notification \<Rightarrow> result \<Rightarrow> delivery_attempt" where
  [simp]: "new_attempt n res = \<lparr>a_id = 0, a_notification_id = n_id n, a_attempt_number = n_attempt_count n + 1,
     a_status_code = res_status_code res, a_response_body = res_body res,
     a_error = (case res_error res of None \<Rightarrow> '''' | Some e \<Rightarrow> error_text e),
     a_duration_ms = res_duration_ms res, a_created_at = 0\<rparr>"

definition record_attempt ::
  "(nat \<Rightarrow> time) \<Rightarrow> uuid \<Rightarrow> notification \<Rightarrow> result \<Rightarrow> 'r world \<Rightarrow> 'r world" where
  "record_attempt clock aid n res w =
     (let d = snd (repo_IncrementAttempt (clock 2) (n_id n) (w_db w))
      in w\<lparr>w_db := snd (repo_CreateDeliveryAttempt (clock 3) aid (new_attempt n res) d)\<rparr>)"

definition on_success ::
  "'r dispatcher \<Rightarrow> (nat \<Rightarrow> time) \<Rightarrow> message \<Rightarrow> notification \<Rightarrow> 'r world \<Rightarrow> 'r world" where
  "on_success D clock msg n w =
     broadcast D (n_id n) ''delivered''
       (count_processed (n_channel n) ''delivered''
         (ack_message D msg (set_status (clock 5) (n_id n) StatusDelivered '''' w)))"

definition schedule_retry ::
  "'r dispatcher \<Rightarrow> (nat \<Rightarrow> time) \<Rightarrow> notification \<Rightarrow> string \<Rightarrow> 'r world \<Rightarrow> 'r world" where
  "schedule_retry D clock n errMsg w =
     (let retryAt = RetryAt (clock 4) (n_attempt_count n + 1);
          w = set_status (clock 5) (n_id n) StatusQueued errMsg w;
          w = w\<lparr>w_redis := snd (EnqueueDelayed (d_lib D) (d_redis D) (n_id n) (n_channel n)
                 (n_priority n) (UnixMilli retryAt) (w_redis w))\<rparr>;
          w = w\<lparr>w_retried := Suc (w_retried w)\<rparr>
      in broadcast D (n_id n) (''retry_scheduled:'' @ format_RFC3339 (d_lib D) retryAt) w)"

definition give_up ::
  "'r dispatcher \<Rightarrow> (nat \<Rightarrow> time) \<Rightarrow> notification \<Rightarrow> string \<Rightarrow> 'r world \<Rightarrow> 'r world" where
  "give_up D clock n errMsg w =
     (let w = set_status (clock 5) (n_id n) StatusFailed errMsg w;
          w = w\<lparr>w_redis := snd (DLQ_Push (d_lib D) (d_redis D) (n_id n) (n_channel n) errMsg (w_redis w))\<rparr>;
          w = w\<lparr>w_dlq := Suc (w_dlq w)\<rparr>;
          w = count_processed (n_channel n) ''failed'' w
      in broadcast D (n_id n) ''failed'' w)"

definition on_failure ::
  "'r dispatcher \<Rightarrow> (nat \<Rightarrow> time) \<Rightarrow> message \<Rightarrow> notification \<Rightarrow> go_error \<Rightarrow> 'r world \<Rightarrow> 'r world" where
  "on_failure D clock msg n err w =
     (let errMsg = error_text err in
      ack_message D msg
        (if ShouldRetry (n_attempt_count n + 1) (n_max_retries n)
         then schedule_retry D clock n errMsg w
         else give_up D clock n errMsg w))"

definition deliver ::
  "'r dispatcher \<Rightarrow> (nat \<Rightarrow> time) \<Rightarrow> uuid \<Rightarrow> message \<Rightarrow> notification \<Rightarrow> (notification \<Rightarrow> result) \<Rightarrow>
     'r world \<Rightarrow> 'r world" where
  "deliver D clock aid msg n send w =
     (let res = send n;
          w = w\<lparr>w_sent := w_sent w @ [n]\<rparr>;
          w = record_attempt clock aid n res w
      in case res_error res of
           None \<Rightarrow> on_success D clock msg n w
         | Some err \<Rightarrow> on_failure D clock msg n err w)"

definition terminal :: "status \<Rightarrow> bool" where
  "terminal s \<longleftrightarrow> s = StatusDelivered \<or> s = StatusCancelled \<or> s = StatusFailed"

text \<open>What follows the fetch of the notification, and the whole handler.\<close>

definition process_fetched ::
  "'r dispatcher \<Rightarrow> (nat \<Rightarrow> time) \<Rightarrow> uuid \<Rightarrow> message \<Rightarrow> notification \<Rightarrow> 'r world \<Rightarrow> 'r world" where
  "process_fetched D clock aid msg n w =
     (if terminal (n_status n) then ack_message D msg w
      else
        let w = set_status (clock 0) (n_id n) StatusProcessing '''' w in
        case d_providers D (n_channel n) of
          None \<Rightarrow> ack_message D msg
            (set_status (clock 1) (n_id n) StatusFailed (''no provider for channel: '' @ n_channel n) w)
        | Some send \<Rightarrow> deliver D clock aid msg n send w)"

definition processMessage ::
  "'r dispatcher \<Rightarrow> (time \<times> int \<times> bool) list \<Rightarrow> (nat \<Rightarrow> time) \<Rightarrow> uuid \<Rightarrow> message \<Rightarrow>
     'r world \<Rightarrow> 'r world" where
  "processMessage D turns clock aid msg w =
     (case uuid_Parse (d_lib D) (m_notification_id msg) of
        (_, Some err) \<Rightarrow> ack_message D msg w
      | (notificationID, None) \<Rightarrow>
         (case rate_wait (d_redis D) (d_limiter D) (m_channel msg) turns (w_redis w) of
            (Proceed, r) \<Rightarrow>
              (case repo_GetByID notificationID (w_db w) of
                 (Inl e, d) \<Rightarrow> ack_message D msg (w\<lparr>w_redis := r, w_db := d\<rparr>)
               | (Inr n, d) \<Rightarrow> process_fetched D clock aid msg n (w\<lparr>w_redis := r, w_db := d\<rparr>))
          | (_, r) \<Rightarrow> w\<lparr>w_redis := r\<rparr>))"

section \<open>Delayed retries\<close>

text \<open>
  \<open>parseMember\<close>: the loop over the characters with its cut positions; it stops at the second colon.
\<close>

fun parse_loop :: "string \<Rightarrow> nat \<Rightarrow> string \<Rightarrow> string list \<Rightarrow> nat \<Rightarrow> nat \<Rightarrow> string list \<times> nat" where
  "parse_loop s i [] parts start count = (parts, start)"
| "parse_loop s i (c # cs) parts start count =
     (if c = CHR '':'' then
        let parts = parts @ [take (i - start) (drop start s)]; start = i + 1; count = count + 1 in
        if count = 2 then (parts, start) else parse_loop s (Suc i) cs parts start count
      else parse_loop s (Suc i) cs parts start count)"

definition parseMember :: "string \<Rightarrow> string list option" where
  "parseMember s =
     (case parse_loop s 0 s [] 0 0 of (parts, start) \<Rightarrow>
        (let parts = (if start < length s then parts @ [drop start s] else parts) in
         if length parts \<noteq> 3 then None else Some parts))"

definition reenqueue :: "'r dispatcher \<Rightarrow> string \<Rightarrow> 'r \<Rightarrow> 'r" where
  "reenqueue D member r =
     (case parseMember member of
        None \<Rightarrow> r
      | Some parts \<Rightarrow>
         (let notificationID = fst (uuid_Parse (d_lib D) (parts ! 0)) in
          snd (Enqueue (d_lib D) (d_redis D) notificationID (parts ! 1) (parts ! 2) r)))"

definition processDelayedBatch :: "'r dispatcher \<Rightarrow> time \<Rightarrow> 'r \<Rightarrow> 'r" where
  "processDelayedBatch D clock r =
     (case PopDelayedDue (d_redis D) (UnixMilli clock) 50 r of
        (Inl e, r) \<Rightarrow> r
      | (Inr results, r) \<Rightarrow> fold (reenqueue D) results r)"

section \<open>The scheduler\<close>

definition enqueue_due :: "lib \<Rightarrow> 'r redis \<Rightarrow> notification \<Rightarrow> 'r \<Rightarrow> 'r" where
  "enqueue_due L R n r = snd (Enqueue L R (n_id n) (n_channel n) (n_priority n) r)"

definition Scheduler_poll ::
  "lib \<Rightarrow> 'r redis \<Rightarrow> int \<Rightarrow> uuid list \<Rightarrow> time \<Rightarrow> db \<Rightarrow> 'r \<Rightarrow> db \<times> 'r" where
  "Scheduler_poll L R batchSize locked dbnow d r =
     (case repo_FetchScheduledDue dbnow batchSize locked d of
        (Inl e, d) \<Rightarrow> (d, r)
      | (Inr ns, d) \<Rightarrow> (d, fold (enqueue_due L R) ns r))"

section \<open>Invariants of the tables\<close>

lemma world_status [simp]:
  "w_db (ack_message D msg w) = w_db w" "w_db (broadcast D i st w) = w_db w"
  "w_db (count_processed ch st w) = w_db w"
  "w_db (set_status now i st e w) = snd (repo_UpdateStatus now i st e (w_db w))"
  by (simp_all add: ack_message_def broadcast_def count_processed_def set_status_def)

lemma world_sent [simp]:
  "w_sent (ack_message D msg w) = w_sent w" "w_sent (broadcast D i st w) = w_sent w"
  "w_sent (count_processed ch st w) = w_sent w" "w_sent (set_status now i st e w) = w_sent w"
  "w_sent (record_attempt clock aid n res w) = w_sent w"
  by (simp_all add: ack_message_def broadcast_def count_processed_def set_status_def
      record_attempt_def Let_def)

lemma world_redis [simp]:
  "w_redis (ack_message D msg w) =
     snd (Ack (d_redis D) (m_stream_id msg) (m_message_id msg) (w_redis w))"
  "w_redis (broadcast D i st w) = w_redis w" "w_redis (count_processed ch st w) = w_redis w"
  "w_redis (set_status now i st e w) = w_redis w"
  "w_redis (record_attempt clock aid n res w) = w_redis w"
  by (simp_all add: ack_message_def broadcast_def count_processed_def set_status_def
      record_attempt_def Let_def)

lemmas handler_defs = on_success_def on_failure_def schedule_retry_def give_up_def deliver_def
  process_fetched_def

context tables_invariant
begin

lemma inv_record_attempt:
  "I (db_tables (w_db w)) \<Longrightarrow> I (db_tables (w_db (record_attempt clock aid n res w)))"
  by (simp add: record_attempt_def Let_def repo_invs)

lemma inv_deliver:
  "I (db_tables (w_db w)) \<Longrightarrow> I (db_tables (w_db (deliver D clock aid msg n send w)))"
  by (auto simp: handler_defs Let_def worker_status_def source_consts
      intro!: inv_repo_UpdateStatus inv_record_attempt split: option.splits)

lemma inv_process_fetched:
  "I (db_tables (w_db w)) \<Longrightarrow> I (db_tables (w_db (process_fetched D clock aid msg n w)))"
  by (auto simp: process_fetched_def Let_def worker_status_def source_consts
      intro!: inv_repo_UpdateStatus inv_deliver split: option.splits)

lemma inv_processMessage:
  assumes "I (db_tables (w_db w))"
  shows "I (db_tables (w_db (processMessage D turns clock aid msg w)))"
proof -
  have "I (db_tables d)" if "repo_GetByID i (w_db w) = (x, d)" for i x d
    using inv_repo_GetByID [OF assms, of i] that by simp
  then show ?thesis
    using assms
    by (auto simp: processMessage_def intro!: inv_process_fetched
        split: prod.splits option.splits wait.splits sum.splits)
qed

lemma inv_Scheduler_poll:
  "I (db_tables d) \<Longrightarrow> I (db_tables (fst (Scheduler_poll L R batchSize locked dbnow d r)))"
  using inv_repo_FetchScheduledDue [of d dbnow batchSize locked]
  by (auto simp: Scheduler_poll_def split: prod.splits sum.splits)

end

end
