(* ===== verification/History.thy ===== *)
theory History
  imports Dispatcher
begin

text \<open>
  The tables over time. \<open>db_step\<close> has one rule per writing statement of the repositories, in the
  form the program issues it; a run of the whole program, with any number of handlers and
  workers interleaved statement by statement, is a path of this relation. Every service call,
  every handled message and every poll is shown to be such a path, so what holds on paths holds
  of the program: the invariants of the tables, and what the history of one row can be.
\<close>

section \<open>Statement steps\<close>

inductive db_step :: "tables \<Rightarrow> tables \<Rightarrow> bool" where
  step_insert: "fresh_row row \<Longrightarrow> db_step t (snd (sql_insert_notification row t))"
| step_delivered: "db_step t (snd (sql_set_delivered ''delivered'' now i t))"
| step_status_error: "worker_status st \<Longrightarrow> db_step t (snd (sql_set_status_error st e now i t))"
| step_status: "worker_status st \<Longrightarrow> db_step t (snd (sql_set_status st now i t))"
| step_increment: "db_step t (snd (sql_increment_attempt now i t))"
| step_cancel: "db_step t (snd (sql_cancel now i t))"
| step_fetch_due: "db_step t (snd (sql_fetch_due now limit locked t))"
| step_attempt: "db_step t (snd (sql_insert_attempt a t))"
| step_template: "db_step t (snd (sql_insert_template row' t))"
| step_update_template: "db_step t (snd (sql_update_template q now i t))"
| step_delete_template: "db_step t (snd (sql_delete_template i t))"

definition no_tables :: tables where
  "no_tables = \<lparr>notifications = [], templates = [], attempts = []\<rparr>"

definition db_reachable :: "tables \<Rightarrow> bool" where
  "db_reachable t \<longleftrightarrow> db_step\<^sup>*\<^sup>* no_tables t"

lemmas db_path = rtranclp.rtrancl_into_rtrancl [of db_step]

interpretation path: tables_invariant "\<lambda>t. db_step\<^sup>*\<^sup>* t0 t" for t0
  by unfold_locales (blast intro: db_path db_step.intros)+

context tables_invariant
begin

lemma inv_db_step: "db_step t t' \<Longrightarrow> I t \<Longrightarrow> I t'"
  by (induction rule: db_step.induct)
    (blast intro: inv_insert inv_delivered inv_status_error inv_status inv_increment inv_cancel
      inv_fetch_due inv_attempt inv_template inv_update_template inv_delete_template)+

lemma inv_db_steps: "db_step\<^sup>*\<^sup>* t t' \<Longrightarrow> I t \<Longrightarrow> I t'"
  by (induction rule: rtranclp_induct) (blast intro: inv_db_step)+

end

lemma no_tables_ok: "keys_unique no_tables" "rows_ok no_tables" "references_inv no_tables"
  by (simp_all add: keys_unique_def rows_ok_def references_inv_def references_ok_def no_tables_def)

lemma reachable_ok:
  assumes "db_reachable t"
  shows "keys_unique t" "rows_ok t" "references_ok t"
  using assms keys.inv_db_steps rows.inv_db_steps refs.inv_db_steps no_tables_ok
  unfolding db_reachable_def references_inv_def by blast+

section \<open>The history of one row\<close>

definition row_at :: "uuid \<Rightarrow> tables \<Rightarrow> nrow option" where
  "row_at i t = find_row r_id i (notifications t)"

lemma row_step_id: "row_step r r' \<Longrightarrow> r_id r' = r_id r"
  using row_step_keys by blast

lemma rows_step_find:
  assumes "rows_step rows rows'" "find_row r_id i rows = Some r"
  shows "\<exists>r'. find_row r_id i rows' = Some r' \<and> row_step r r'"
  using assms unfolding rows_step_def
  by (induction rule: list_all2_induct) (auto dest: row_step_id split: if_splits)

lemma row_at_step:
  assumes "db_step t t'" "keys_unique t" "row_at i t = Some r"
  shows "\<exists>r'. row_at i t' = Some r' \<and> row_step r r'"
proof -
  have upd: ?thesis if "rows_step (notifications t) (notifications t')"
    using rows_step_find [OF that] assms(3) by (simp add: row_at_def)
  have new: ?thesis if "notifications t' = notifications t @ [row]" for row
    using assms(3) that by (auto simp: row_at_def find_row_append intro: row_same)
  show ?thesis
    using assms(1)
  proof cases
    case (step_insert row)
    then show ?thesis using notifications_insert [of row t] upd new rows_step_refl by metis
  next
    case step_fetch_due
    then show ?thesis using fetch_due_rows [OF keys_unique_ids [OF assms(2)]] upd by simp
  qed (rule upd, simp add: statement_rows after_simps rows_step_refl)+
qed

lemma row_history:
  assumes "db_step\<^sup>*\<^sup>* t t'" "keys_unique t" "row_at i t = Some r"
  shows "\<exists>r'. row_at i t' = Some r' \<and> row_step\<^sup>*\<^sup>* r r'"
  using assms
proof (induction rule: rtranclp_induct)
  case (step t1 t2)
  then obtain r1 where "row_at i t1 = Some r1" "row_step\<^sup>*\<^sup>* r r1" by auto
  moreover have "keys_unique t1" using keys.inv_db_steps step by blast
  ultimately show ?case
    using row_at_step [OF step.hyps(2)] by (metis rtranclp.rtrancl_into_rtrancl)
qed auto

definition row_later :: "nrow \<Rightarrow> nrow \<Rightarrow> bool" where
  "row_later r r' \<longleftrightarrow>
     r_id r' = r_id r \<and> r_channel r' = r_channel r \<and> r_priority r' = r_priority r \<and>
     r_recipient r' = r_recipient r \<and> r_subject r' = r_subject r \<and> r_body r' = r_body r \<and>
     r_idempotency_key r' = r_idempotency_key r \<and> r_batch_id r' = r_batch_id r \<and>
     r_scheduled_at r' = r_scheduled_at r \<and> r_max_retries r' = r_max_retries r \<and>
     r_created_at r' = r_created_at r \<and> r_attempt_count r \<le> r_attempt_count r' \<and>
     (r_delivered_at r \<noteq> None \<longrightarrow> r_delivered_at r' \<noteq> None) \<and>
     (r_status r \<noteq> ''scheduled'' \<longrightarrow> r_status r' \<noteq> ''scheduled'') \<and>
     (r_status r' = ''pending'' \<longrightarrow> r_status r = ''pending'' \<or> r_status r = ''scheduled'')"

lemma row_step_later: "row_step r r' \<Longrightarrow> row_later r r'"
  by (erule row_stepE) (auto simp: row_later_def worker_status_def)

lemma row_later_trans: "row_later a b \<Longrightarrow> row_later b c \<Longrightarrow> row_later a c"
  unfolding row_later_def by auto

lemma row_steps_later: "row_step\<^sup>*\<^sup>* r r' \<Longrightarrow> row_later r r'"
proof (induction rule: rtranclp_induct)
  case base
  then show ?case by (simp add: row_later_def)
qed (blast intro: row_later_trans row_step_later)

end
