(* ===== verification/Fixtures.thy ===== *)
theory Fixtures
  imports History
begin

text \<open>
  A small concrete world, on which the properties are instantiated: one stored notification, the
  reference Redis, the example libraries, a limiter of one hundred messages per second and a
  provider that accepts or refuses everything.
\<close>

definition demo_row :: "int \<Rightarrow> status \<Rightarrow> nrow" where
  "demo_row count st = \<lparr>
     r_id = 1, r_idempotency_key = None, r_batch_id = None, r_channel = ''sms'',
     r_priority = ''high'', r_recipient = ''+905551234567'', r_subject = None, r_body = ''hello'',
     r_template_id = None, r_template_vars = JNull, r_status = st, r_scheduled_at = Some 0,
     r_attempt_count = count, r_max_retries = 3, r_last_error = None, r_delivered_at = None,
     r_created_at = 0, r_updated_at = 0\<rparr>"

definition demo_tables :: "nrow list \<Rightarrow> tables" where
  "demo_tables rows = \<lparr>notifications = rows, templates = [], attempts = []\<rparr>"

definition demo_db :: "nrow list \<Rightarrow> db" where
  "demo_db rows = \<lparr>db_tables = demo_tables rows, db_faults = (\<lambda>_. None), db_calls = 0\<rparr>"

definition demo_world :: "nrow list \<Rightarrow> redis_state world" where
  "demo_world rows = \<lparr>w_db = demo_db rows, w_redis = ref_empty, w_hub = NewHub, w_writes = [],
     w_processed = [], w_retried = 0, w_dlq = 0, w_sent = []\<rparr>"

definition demo_message :: message where
  "demo_message = \<lparr>m_stream_id = ''notifications:high'', m_message_id = ''0'',
     m_notification_id = ''1'', m_channel = ''sms''\<rparr>"

definition demo_send :: "bool \<Rightarrow> notification \<Rightarrow> result" where
  "demo_send ok n = SMSProvider_Send ''https://webhook'' ''/sms''
     (\<lambda>url payload. Response (if ok then 200 else 503) '''') 12 n"

definition demo_dispatcher :: "bool \<Rightarrow> redis_state dispatcher" where
  "demo_dispatcher ok = \<lparr>d_lib = example_lib, d_redis = redis_ref, d_limiter = NewLimiter 100,
     d_providers = (\<lambda>ch. if ch = ''sms'' then Some (demo_send ok) else None)\<rparr>"

definition demo_turns :: "(time \<times> int \<times> bool) list" where
  "demo_turns = [(0, 7, False)]"

lemmas demo_defs = demo_row_def demo_tables_def demo_db_def demo_world_def demo_message_def
  demo_dispatcher_def demo_turns_def

lemma demo_parse [simp]: "uuid_Parse example_lib ''1'' = (1, None)"
  by (simp add: example_lib_def example_parse_def is_digit_def digits_value_def)

lemma demo_faultless [simp]: "no_faults (demo_db rows)"
  by (simp add: demo_db_def no_faults_def)

lemma demo_rows [simp]: "db_tables (demo_db rows) = demo_tables rows"
  "notifications (demo_tables rows) = rows" "w_db (demo_world rows) = demo_db rows"
  "w_redis (demo_world rows) = ref_empty"
  by (simp_all add: demo_db_def demo_tables_def demo_world_def)

lemma demo_row_fields [simp]:
  "r_id (demo_row c s) = 1" "r_status (demo_row c s) = s" "r_attempt_count (demo_row c s) = c"
  "r_max_retries (demo_row c s) = 3" "r_channel (demo_row c s) = ''sms''"
  "r_priority (demo_row c s) = ''high''"
  by (simp_all add: demo_row_def)

lemma demo_row_ok:
  "s \<in> {''pending'', ''queued'', ''processing'', ''scheduled'', ''failed'', ''cancelled''} \<Longrightarrow>
     0 \<le> c \<Longrightarrow> c \<le> 10 \<Longrightarrow> rows_ok (demo_tables [demo_row c s])"
  by (auto simp: rows_ok_def row_ok_def demo_row_def channel_type_def priority_type_def
      status_type_def int4_ok_def timestamptz_def)

text \<open>The limiter of the fixture admits the first message.\<close>

lemma ref_admits:
  assumes "0 < maxPerSec l" "v_zset (state_view r) (limiter_key ch) = []"
  shows "\<exists>r'. rate_wait redis_ref l ch [(t, rnd, b)] r = (Proceed, r')"
proof -
  obtain ok r' where a: "Allow redis_ref l ch t rnd r = (Inr ok, r')"
    using Allow_up [OF redis_ref_up] by blast
  have "ok" using ref.Allow_refines [OF a] assms by (simp add: win_step_def win_live_def Let_def)
  then show ?thesis using a by simp
qed

lemma demo_admits: "\<exists>r'. rate_wait (d_redis (demo_dispatcher ok)) (d_limiter (demo_dispatcher ok))
    (m_channel demo_message) demo_turns ref_empty = (Proceed, r')"
  using ref_admits [of "NewLimiter 100" ref_empty "''sms''" 0 7 False]
  by (simp add: demo_defs NewLimiter_def view_empty_def)

definition demo_redis :: "bool \<Rightarrow> redis_state" where
  "demo_redis ok = snd (rate_wait (d_redis (demo_dispatcher ok)) (d_limiter (demo_dispatcher ok))
     (m_channel demo_message) demo_turns ref_empty)"

lemma demo_send_error:
  "res_error (demo_send ok n) = (if ok then None
     else Some (Errorf '''' (Sentinel ErrProviderFailure) '': status 503''))"
  by (simp add: demo_send_def SMSProvider_Send_def post_payload_def int_text_def digits.simps
      digit_char_def char_of_def bit_0)

lemma demo_error_text [simp]: "text_ok ''delivery provider failure: status 503''"
  by (rule text_ok_ascii) simp

definition demo_request :: "time option \<Rightarrow> create_request" where
  "demo_request due = \<lparr>q_idempotency_key = '''', q_channel = ''sms'', q_priority = ''high'',
     q_recipient = ''+905551234567'', q_subject = '''', q_body = ''hello'', q_template_id = None,
     q_template_vars = None, q_scheduled_at = due, q_max_retries = None\<rparr>"

lemma demo_texts [simp]: "text_ok ''+905551234567''" "text_ok ''hello''"
  by (rule text_ok_ascii, simp)+

lemma demo_content: "ValidateNotificationContent L ''sms'' ''+905551234567'' s ''hello'' = None"
  by (simp add: ValidateNotificationContent_def Let_def source_consts is_digit_def)

definition demo_notification :: "time option \<Rightarrow> uuid option \<Rightarrow> notification" where
  "demo_notification due b = set_initial_status (demo_request due) (request_notification 5 b (demo_request due))"

lemma demo_insertable:
  "nrow_type_error (insert_row (stamped now i (demo_notification due b))) = None"
  "r_template_id (insert_row (stamped now i (demo_notification due b))) = None"
  "r_idempotency_key (insert_row (stamped now i (demo_notification due b))) = None"
  by (cases due; simp add: demo_notification_def nrow_type_error_def insert_row_def stamped_def
      set_initial_status_def request_notification_def demo_request_def channel_type_def
      priority_type_def status_type_def source_consts opt_text_ok_def nilIfEmpty_def json_ok_def
      marshal_vars_def varchar_ok_def char_count_def int4_ok_def)+

lemma demo_created:
  "\<exists>n d' q'. NotificationService_Create example_lib (Some enqueue) 5 clock i (demo_request due)
     (demo_db []) q = (Inr n, d', q')"
proof -
  have "fst (repo_Create (clock 0) i (demo_notification due None) (demo_db [])) = None"
    using demo_insertable [of "clock 0" i due None]
    by (simp add: repo_Create_def pg_exec_faultless sql_insert_notification_def Let_def)
  then obtain n1 d1 where r: "repo_Create (clock 0) i (demo_notification due None) (demo_db []) = (None, n1, d1)"
    by (metis surj_pair fst_conv)
  obtain n2 d2 q2 where "enqueue_new (Some enqueue) (clock 1) n1 d1 q = (n2, d2, q2)" by (metis surj_pair)
  then show ?thesis
    using r demo_content
    by (simp add: NotificationService_Create_def example_lib_def channel_valid_def priority_valid_def
        source_consts fill_template_def request_notification_def demo_request_def demo_notification_def)
qed

lemma demo_batch:
  "\<exists>d'. repo_CreateBatch now ids [demo_notification due b] (demo_db []) =
     (Inr [stamped now (ids 0) (demo_notification due b)], d')"
  using demo_insertable [of now "ids 0" due b]
  by (simp add: repo_CreateBatch_def pg_exec_faultless tx_exec_def next_call_def
      sql_insert_notification_def Let_def demo_db_def no_faults_def)

lemma demo_batch_created:
  "\<exists>ns d' q'. NotificationService_CreateBatch example_lib (Some enqueue) 5 clock b ids [demo_request due]
     (demo_db []) q = (Inr ns, d', q')"
proof -
  have prep: "prepare_loop example_lib 5 b 0 [demo_request due] (demo_db []) =
      (Inr [demo_notification due (Some b)], demo_db [])"
    using demo_content
    by (simp add: prepare_one_def channel_valid_def priority_valid_def source_consts
        fill_template_def request_notification_def demo_request_def demo_notification_def)
  obtain d1 where r: "repo_CreateBatch (clock 0) ids [demo_notification due (Some b)] (demo_db []) =
      (Inr [stamped (clock 0) (ids 0) (demo_notification due (Some b))], d1)"
    using demo_batch by blast
  obtain ns d2 q2 where "enqueue_loop (Some enqueue) clock 0
      [stamped (clock 0) (ids 0) (demo_notification due (Some b))] d1 q = (ns, d2, q2)"
    by (metis surj_pair)
  then show ?thesis
    using r prep by (simp add: NotificationService_CreateBatch_def example_lib_def)
qed

end
