(* ===== verification/Processing.thy ===== *)
theory Processing
  imports Fixtures
begin

text \<open>
  What one handled message does, on every path, when the database answers. First the effect of
  each repository call on the row of a notification, then \<open>processMessage\<close> as a whole; the
  properties at the end are its outcomes and the bound on deliveries.
\<close>

section \<open>Effects of the repository calls on rows\<close>

definition status_effect :: "time \<Rightarrow> status \<Rightarrow> string \<Rightarrow> nrow \<Rightarrow> nrow" where
  "status_effect now st e r =
     (if st = StatusDelivered then
        r\<lparr>r_status := st, r_delivered_at := Some (timestamptz now), r_updated_at := timestamptz now\<rparr>
      else if e \<noteq> '''' then
        r\<lparr>r_status := st, r_last_error := Some e, r_updated_at := timestamptz now\<rparr>
      else r\<lparr>r_status := st, r_updated_at := timestamptz now\<rparr>)"

definition count_effect :: "time \<Rightarrow> nrow \<Rightarrow> nrow" where
  "count_effect now r = r\<lparr>r_attempt_count := r_attempt_count r + 1, r_updated_at := now\<rparr>"

lemma effect_ids [simp]:
  "r_id (status_effect now st e r) = r_id r" "r_id (count_effect now r) = r_id r"
  "r_status (status_effect now st e r) = st"
  "r_status (count_effect now r) = r_status r"
  "r_attempt_count (status_effect now st e r) = r_attempt_count r"
  "r_attempt_count (count_effect now r) = r_attempt_count r + 1"
  "r_max_retries (status_effect now st e r) = r_max_retries r"
  "r_max_retries (count_effect now r) = r_max_retries r"
  "r_channel (status_effect now st e r) = r_channel r"
  "r_channel (count_effect now r) = r_channel r"
  by (simp_all add: status_effect_def count_effect_def)

lemma repo_UpdateStatus_tables:
  assumes "no_faults d" "text_ok e"
  shows "db_tables (snd (repo_UpdateStatus now i st e d)) = (db_tables d)
    \<lparr>notifications := update_rows (\<lambda>r. r_id r = i) (status_effect now st e) (notifications (db_tables d))\<rparr>"
  using assms
  by (simp add: repo_UpdateStatus_def pg_exec_faultless sql_set_delivered_def sql_set_status_error_def
      sql_set_status_def update_notifications_def update_rows_def status_effect_def Let_def)

lemma repo_UpdateStatus_row:
  assumes "no_faults d" "text_ok e"
  shows "row_at j (db_tables (snd (repo_UpdateStatus now i st e d))) =
    (if j = i then map_option (status_effect now st e) (row_at j (db_tables d)) else row_at j (db_tables d))"
  using assms by (simp add: repo_UpdateStatus_tables row_at_def find_update_key)

lemma repo_faults [simp]:
  "no_faults (snd (repo_UpdateStatus now i st e d)) = no_faults d"
  "no_faults (snd (repo_IncrementAttempt now i d)) = no_faults d"
  "no_faults (snd (repo_CreateDeliveryAttempt now aid a d)) = no_faults d"
  "no_faults (snd (repo_GetByID i d)) = no_faults d"
  by (auto simp: no_faults_def repo_UpdateStatus_def repo_IncrementAttempt_def Let_def
      repo_CreateDeliveryAttempt_def repo_GetByID_def dest: pg_faults_eq
      split: prod.splits sum.splits pg_error.splits)

lemma repo_UpdateStatus_attempts:
  "no_faults d \<Longrightarrow> attempts (db_tables (snd (repo_UpdateStatus now i st e d))) = attempts (db_tables d)"
  by (simp add: repo_UpdateStatus_def pg_exec_faultless statement_frames Let_def split: sum.splits)

lemma repo_IncrementAttempt_row:
  assumes "no_faults d" "distinct (map r_id (notifications (db_tables d)))"
    and "row_at i (db_tables d) = Some r" "int4_ok (r_attempt_count r + 1)"
  shows "row_at j (db_tables (snd (repo_IncrementAttempt now i d))) =
      (if j = i then Some (count_effect now r) else row_at j (db_tables d)) \<and>
    attempts (db_tables (snd (repo_IncrementAttempt now i d))) = attempts (db_tables d)"
proof -
  have "x = r" if "x \<in> set (notifications (db_tables d))" "r_id x = i" for x
    using find_row_unique [OF assms(2) that(1)] that(2) assms(3) by (simp add: row_at_def)
  then have "\<not> (\<exists>x \<in> set (notifications (db_tables d)). r_id x = i \<and> \<not> int4_ok (r_attempt_count x + 1))"
    using assms(4) by blast
  then show ?thesis
    using assms(1,3)
    by (auto simp: repo_IncrementAttempt_def pg_exec_faultless sql_increment_attempt_def
        update_notifications_def row_at_def find_update_key count_effect_def)
qed

lemma repo_CreateDeliveryAttempt_rows:
  assumes "no_faults d"
  shows "notifications (db_tables (snd (repo_CreateDeliveryAttempt now aid a d))) =
    notifications (db_tables d)"
  using assms
  by (simp add: repo_CreateDeliveryAttempt_def pg_exec_faultless Let_def after_simps split: sum.splits)

lemma repo_CreateDeliveryAttempt_attempts:
  assumes "no_faults d" "int4_ok (a_attempt_number a)" "int4_ok (a_status_code a)"
    and "text_ok (a_response_body a)" "text_ok (a_error a)"
    and "aid \<notin> ar_id ` set (attempts (db_tables d))"
    and "row_at (a_notification_id a) (db_tables d) \<noteq> None"
  shows "attempts (db_tables (snd (repo_CreateDeliveryAttempt now aid a d))) =
    attempts (db_tables d) @ [attempt_row (a\<lparr>a_id := aid, a_created_at := now\<rparr>)]"
  using assms
  by (simp add: repo_CreateDeliveryAttempt_def pg_exec_faultless Let_def sql_insert_attempt_def
      attempt_row_def row_at_def find_row_None opt_text_ok_def nilIfEmpty_def)

lemma repo_GetByID_found:
  assumes "no_faults d" "row_at i (db_tables d) = Some r"
  shows "repo_GetByID i d = (Inr (scanNotification r), d\<lparr>db_calls := Suc (db_calls d)\<rparr>)"
  using assms by (simp add: repo_GetByID_def pg_exec_faultless sql_select_notification_def row_at_def)

lemma repo_GetByID_missing:
  assumes "no_faults d" "row_at i (db_tables d) = None"
  shows "repo_GetByID i d = (Inl (Sentinel ErrNotFound), d\<lparr>db_calls := Suc (db_calls d)\<rparr>)"
  using assms by (simp add: repo_GetByID_def pg_exec_faultless sql_select_notification_def row_at_def)

lemma row_at_rows: "notifications t' = notifications t \<Longrightarrow> row_at i t' = row_at i t"
  by (simp add: row_at_def)

lemma row_at_id: "row_at i t = Some r \<Longrightarrow> r_id r = i"
  unfolding row_at_def by (blast dest: find_row_SomeD)

section \<open>One delivery\<close>

text \<open>
  A message is ready when it names a stored notification that is not finished, its attempt
  counter has room in its column, the limiter admits it and the database answers.
\<close>

definition admitted :: "'r dispatcher \<Rightarrow> (time \<times> int \<times> bool) list \<Rightarrow> message \<Rightarrow> 'r \<Rightarrow> 'r \<Rightarrow> bool" where
  "admitted D turns msg r r' \<longleftrightarrow>
     rate_wait (d_redis D) (d_limiter D) (m_channel msg) turns r = (Proceed, r')"

definition message_ready :: "'r dispatcher \<Rightarrow> message \<Rightarrow> uuid \<Rightarrow> nrow \<Rightarrow> 'r world \<Rightarrow> bool" where
  "message_ready D msg i r w \<longleftrightarrow>
     no_faults (w_db w) \<and> rows_ok (db_tables (w_db w)) \<and>
     uuid_Parse (d_lib D) (m_notification_id msg) = (i, None) \<and>
     row_at i (db_tables (w_db w)) = Some r \<and>
     \<not> terminal (r_status r) \<and> int4_ok (r_attempt_count r + 1)"

lemma status_update_rows_ok:
  assumes "rows_ok (db_tables d)" "worker_status st \<or> st = StatusDelivered"
  shows "rows_ok (db_tables (snd (repo_UpdateStatus now i st e d)))"
  using rows.inv_repo_UpdateStatus assms by blast

lemma rows_ok_distinct: "rows_ok t \<Longrightarrow> distinct (map r_id (notifications t))"
  by (simp add: rows_ok_def)

lemma worker_statuses [simp]:
  "worker_status StatusProcessing" "worker_status StatusQueued" "worker_status StatusFailed"
  by (simp_all add: worker_status_def source_consts)

lemma record_attempt_row:
  assumes "no_faults (w_db w)" "rows_ok (db_tables (w_db w))"
    and "row_at (n_id n) (db_tables (w_db w)) = Some r" "int4_ok (r_attempt_count r + 1)"
  shows "row_at j (db_tables (w_db (record_attempt clock aid n res w))) =
    (if j = n_id n then Some (count_effect (clock 2) r) else row_at j (db_tables (w_db w)))"
  using repo_IncrementAttempt_row [OF assms(1) rows_ok_distinct [OF assms(2)] assms(3,4), of j "clock 2"]
    assms(1)
  by (simp add: record_attempt_def Let_def row_at_def repo_CreateDeliveryAttempt_rows)

lemma record_attempt_faults [simp]:
  "no_faults (w_db (record_attempt clock aid n res w)) = no_faults (w_db w)"
  by (simp add: record_attempt_def Let_def)

text \<open>The row while the provider is called, and after the attempt has been recorded.\<close>

definition processing_row :: "(nat \<Rightarrow> time) \<Rightarrow> nrow \<Rightarrow> nrow" where
  "processing_row clock r =
     count_effect (clock 2) (status_effect (clock 0) StatusProcessing '''' r)"

definition called ::
  "'r dispatcher \<Rightarrow> (nat \<Rightarrow> time) \<Rightarrow> uuid \<Rightarrow> uuid \<Rightarrow> notification \<Rightarrow> result \<Rightarrow> 'r \<Rightarrow> 'r world \<Rightarrow> 'r world" where
  "called D clock aid i n res r' w =
     record_attempt clock aid n res
       ((set_status (clock 0) i StatusProcessing ''''
          (w\<lparr>w_redis := r', w_db := (w_db w)\<lparr>db_calls := Suc (db_calls (w_db w))\<rparr>\<rparr>))
        \<lparr>w_sent := w_sent w @ [n]\<rparr>)"

lemma process_ready:
  assumes "message_ready D msg i r w" "admitted D turns msg (w_redis w) r'"
    and "d_providers D (r_channel r) = Some send"
  shows "processMessage D turns clock aid msg w =
    (let n = scanNotification r; w' = called D clock aid i n (send n) r' w in
     case res_error (send n) of
       None \<Rightarrow> on_success D clock msg n w' | Some err \<Rightarrow> on_failure D clock msg n err w')"
  using assms row_at_id [of i "db_tables (w_db w)" r]
  by (simp add: processMessage_def message_ready_def admitted_def repo_GetByID_found called_def
      process_fetched_def deliver_def Let_def set_status_def split: option.splits)

lemma process_accepted:
  assumes "message_ready D msg i r w" "admitted D turns msg (w_redis w) r'"
    and "d_providers D (r_channel r) = Some send"
    and "res_error (send (scanNotification r)) = None"
  shows "processMessage D turns clock aid msg w = on_success D clock msg (scanNotification r)
    (called D clock aid i (scanNotification r) (send (scanNotification r)) r' w)"
  using process_ready [OF assms(1-3), of clock aid] assms(4) by (simp add: Let_def)

lemma process_refused:
  assumes "message_ready D msg i r w" "admitted D turns msg (w_redis w) r'"
    and "d_providers D (r_channel r) = Some send"
    and "res_error (send (scanNotification r)) = Some e"
  shows "processMessage D turns clock aid msg w = on_failure D clock msg (scanNotification r) e
    (called D clock aid i (scanNotification r) (send (scanNotification r)) r' w)"
  using process_ready [OF assms(1-3), of clock aid] assms(4) by (simp add: Let_def)

lemma ready_id: "message_ready D msg i r w \<Longrightarrow> r_id r = i"
  by (auto simp: message_ready_def dest: row_at_id)

lemma called_db:
  assumes "message_ready D msg i r w"
  shows "no_faults (w_db (called D clock aid i (scanNotification r) res r' w))"
    and "row_at j (db_tables (w_db (called D clock aid i (scanNotification r) res r' w))) =
      (if j = i then Some (processing_row clock r) else row_at j (db_tables (w_db w)))"
proof -
  let ?w = "(set_status (clock 0) i StatusProcessing ''''
          (w\<lparr>w_redis := r', w_db := (w_db w)\<lparr>db_calls := Suc (db_calls (w_db w))\<rparr>\<rparr>))
        \<lparr>w_sent := w_sent w @ [scanNotification r]\<rparr>"
  let ?d = "(w_db w)\<lparr>db_calls := Suc (db_calls (w_db w))\<rparr>"
  have d: "no_faults ?d" "rows_ok (db_tables ?d)" and i: "r_id r = i"
    and row: "row_at i (db_tables ?d) = Some r" and room: "int4_ok (r_attempt_count r + 1)"
    using assms row_at_id by (auto simp: message_ready_def)
  have w: "no_faults (w_db ?w)" using d by simp
  have ok: "rows_ok (db_tables (w_db ?w))" using status_update_rows_ok [OF d(2)] by simp
  have at: "row_at j (db_tables (w_db ?w)) =
      (if j = i then Some (status_effect (clock 0) StatusProcessing '''' r) else row_at j (db_tables (w_db w)))"
    for j using repo_UpdateStatus_row [OF d(1)] row by simp
  show "no_faults (w_db (called D clock aid i (scanNotification r) res r' w))"
    using w by (simp add: called_def)
  show "row_at j (db_tables (w_db (called D clock aid i (scanNotification r) res r' w))) =
      (if j = i then Some (processing_row clock r) else row_at j (db_tables (w_db w)))"
    using record_attempt_row [OF w ok, of "scanNotification r"] at room i
    by (simp add: called_def processing_row_def)
qed

lemma called_fields [simp]:
  "w_redis (called D clock aid i n res r' w) = r'" "w_hub (called D clock aid i n res r' w) = w_hub w"
  "w_writes (called D clock aid i n res r' w) = w_writes w"
  "w_processed (called D clock aid i n res r' w) = w_processed w"
  "w_retried (called D clock aid i n res r' w) = w_retried w"
  "w_dlq (called D clock aid i n res r' w) = w_dlq w"
  "w_sent (called D clock aid i n res r' w) = w_sent w @ [n]"
  by (simp_all add: called_def record_attempt_def set_status_def Let_def)

lemma outcome_status:
  assumes "message_ready D msg i r w" "text_ok e"
  shows "row_at j (db_tables (snd (repo_UpdateStatus (clock 5) i st e
       (w_db (called D clock aid i (scanNotification r) res r' w))))) =
    (if j = i then Some (status_effect (clock 5) st e (processing_row clock r))
     else row_at j (db_tables (w_db w)))"
  using called_db [OF assms(1)] assms(2) by (simp add: repo_UpdateStatus_row)

section \<open>Outcomes of one message\<close>

lemma demo_ready:
  "message_ready (demo_dispatcher ok) demo_message 1 (demo_row 0 ''queued'')
     (demo_world [demo_row 0 ''queued''])"
  "message_ready (demo_dispatcher ok) demo_message 1 (demo_row 2 ''queued'')
     (demo_world [demo_row 2 ''queued''])"
  by (simp_all add: message_ready_def demo_row_ok row_at_def terminal_def source_consts int4_ok_def)
    (simp_all add: demo_dispatcher_def demo_message_def)

lemma demo_admitted:
  "admitted (demo_dispatcher ok) demo_turns demo_message ref_empty (demo_redis ok)"
  using demo_admits [of ok] by (auto simp: admitted_def demo_redis_def)

lemma demo_provider: "d_providers (demo_dispatcher ok) ''sms'' = Some (demo_send ok)"
  by (simp add: demo_dispatcher_def)

text \<open>
  Property C5. A ready message whose provider accepts it ends in the delivered state: the row has
  its delivery time and one attempt more, no other row has changed, the provider was called
  exactly once with the stored notification, the message is acknowledged after the row was
  written, the delivery is counted, and the subscribers are told. Nothing is retried or given up.
\<close>

theorem processMessage_delivered:
  assumes "message_ready D msg i r w" "admitted D turns msg (w_redis w) r'"
    and "d_providers D (r_channel r) = Some send"
    and "res_error (send (scanNotification r)) = None"
  shows "let w' = processMessage D turns clock aid msg w in
    row_at i (db_tables (w_db w')) = Some (r\<lparr>r_status := StatusDelivered,
      r_delivered_at := Some (timestamptz (clock 5)), r_attempt_count := r_attempt_count r + 1,
      r_updated_at := timestamptz (clock 5)\<rparr>) \<and>
    (\<forall>j. j \<noteq> i \<longrightarrow> row_at j (db_tables (w_db w')) = row_at j (db_tables (w_db w))) \<and>
    w_sent w' = w_sent w @ [scanNotification r] \<and>
    w_redis w' = snd (Ack (d_redis D) (m_stream_id msg) (m_message_id msg) r') \<and>
    w_processed w' = w_processed w @ [(r_channel r, ''delivered'')] \<and>
    w_writes w' = w_writes w @ Broadcast (d_lib D) i ''delivered'' (w_hub w) \<and>
    w_retried w' = w_retried w \<and> w_dlq w' = w_dlq w"
proof -
  have i: "r_id r = i" using assms(1) by (rule ready_id)
  show ?thesis
    unfolding process_accepted [OF assms]
    by (simp add: on_success_def Let_def i outcome_status [OF assms(1)])
      (simp add: ack_message_def broadcast_def count_processed_def set_status_def
        status_effect_def processing_row_def count_effect_def source_consts)
qed

theorem processMessage_delivered_witness:
  "row_at 1 (db_tables (w_db (processMessage (demo_dispatcher True) demo_turns (\<lambda>k. 1000 * int k) 9
       demo_message (demo_world [demo_row 0 ''queued''])))) =
   Some ((demo_row 0 ''queued'')\<lparr>r_status := StatusDelivered, r_delivered_at := Some 5000,
     r_attempt_count := 1, r_updated_at := 5000\<rparr>)"
  using processMessage_delivered [OF demo_ready(1) [of True], of demo_turns "demo_redis True"
      "demo_send True" "\<lambda>k. 1000 * int k" 9]
  by (simp add: timestamptz_def Let_def demo_admitted demo_provider demo_send_error)

text \<open>
  Property C6. A refused delivery with attempts left is retried: the row is queued again with the
  provider's error and one attempt more, the notification sits in the delayed set at the
  backoff time of that attempt, the message is acknowledged after that, and nothing is given up.
\<close>

theorem processMessage_retried:
  assumes "message_ready D msg i r w" "admitted D turns msg (w_redis w) r'"
    and "d_providers D (r_channel r) = Some send"
    and "res_error (send (scanNotification r)) = Some e" "error_text e \<noteq> ''''"
    and "text_ok (error_text e)"
    and "r_attempt_count r + 1 < r_max_retries r"
  shows "let w' = processMessage D turns clock aid msg w;
      retryAt = clock 4 + Backoff (r_attempt_count r + 1) in
    row_at i (db_tables (w_db w')) = Some (r\<lparr>r_status := StatusQueued,
      r_last_error := Some (error_text e), r_attempt_count := r_attempt_count r + 1,
      r_updated_at := timestamptz (clock 5)\<rparr>) \<and>
    (\<forall>j. j \<noteq> i \<longrightarrow> row_at j (db_tables (w_db w')) = row_at j (db_tables (w_db w))) \<and>
    w_sent w' = w_sent w @ [scanNotification r] \<and>
    w_redis w' = snd (Ack (d_redis D) (m_stream_id msg) (m_message_id msg)
      (snd (EnqueueDelayed (d_lib D) (d_redis D) i (r_channel r) (r_priority r)
        (UnixMilli retryAt) r'))) \<and>
    w_writes w' = w_writes w @
      Broadcast (d_lib D) i (''retry_scheduled:'' @ format_RFC3339 (d_lib D) retryAt) (w_hub w) \<and>
    w_retried w' = Suc (w_retried w) \<and> w_dlq w' = w_dlq w \<and> w_processed w' = w_processed w"
proof -
  have i: "r_id r = i" using assms(1) by (rule ready_id)
  have retry: "ShouldRetry (r_attempt_count r + 1) (r_max_retries r)"
    using assms(7) by (simp add: ShouldRetry_def)
  show ?thesis
    unfolding process_refused [OF assms(1-4)]
    by (simp add: on_failure_def schedule_retry_def retry Let_def i
        outcome_status [OF assms(1,6)] RetryAt_def)
      (simp add: ack_message_def broadcast_def set_status_def assms(5)
        status_effect_def processing_row_def count_effect_def source_consts)
qed

theorem processMessage_retried_witness:
  "r_status (the (row_at 1 (db_tables (w_db (processMessage (demo_dispatcher False) demo_turns
       (\<lambda>k. int k) 9 demo_message (demo_world [demo_row 0 ''queued''])))))) = StatusQueued"
  using processMessage_retried [OF demo_ready(1) [of False], of demo_turns "demo_redis False"
      "demo_send False" "Errorf '''' (Sentinel ErrProviderFailure) '': status 503''" "\<lambda>k. int k" 9]
  by (simp add: Let_def demo_admitted demo_provider demo_send_error)

text \<open>
  Property C7. A refused delivery on the last attempt is given up: the row is failed with the
  provider's error, the notification goes to the dead letter stream with that error, the message
  is acknowledged after that, and no retry is scheduled.
\<close>

theorem processMessage_dead_letter:
  assumes "message_ready D msg i r w" "admitted D turns msg (w_redis w) r'"
    and "d_providers D (r_channel r) = Some send"
    and "res_error (send (scanNotification r)) = Some e" "error_text e \<noteq> ''''"
    and "text_ok (error_text e)"
    and "r_max_retries r \<le> r_attempt_count r + 1"
  shows "let w' = processMessage D turns clock aid msg w in
    row_at i (db_tables (w_db w')) = Some (r\<lparr>r_status := StatusFailed,
      r_last_error := Some (error_text e), r_attempt_count := r_attempt_count r + 1,
      r_updated_at := timestamptz (clock 5)\<rparr>) \<and>
    (\<forall>j. j \<noteq> i \<longrightarrow> row_at j (db_tables (w_db w')) = row_at j (db_tables (w_db w))) \<and>
    w_sent w' = w_sent w @ [scanNotification r] \<and>
    w_redis w' = snd (Ack (d_redis D) (m_stream_id msg) (m_message_id msg)
      (snd (DLQ_Push (d_lib D) (d_redis D) i (r_channel r) (error_text e) r'))) \<and>
    w_processed w' = w_processed w @ [(r_channel r, ''failed'')] \<and>
    w_writes w' = w_writes w @ Broadcast (d_lib D) i ''failed'' (w_hub w) \<and>
    w_dlq w' = Suc (w_dlq w) \<and> w_retried w' = w_retried w"
proof -
  have i: "r_id r = i" using assms(1) by (rule ready_id)
  have last: "\<not> ShouldRetry (r_attempt_count r + 1) (r_max_retries r)"
    using assms(7) by (simp add: ShouldRetry_def)
  show ?thesis
    unfolding process_refused [OF assms(1-4)]
    by (simp add: on_failure_def give_up_def last Let_def i
        outcome_status [OF assms(1,6)])
      (simp add: ack_message_def broadcast_def set_status_def count_processed_def assms(5)
        status_effect_def processing_row_def count_effect_def source_consts)
qed

theorem processMessage_dead_letter_witness:
  "r_status (the (row_at 1 (db_tables (w_db (processMessage (demo_dispatcher False) demo_turns
       (\<lambda>k. int k) 9 demo_message (demo_world [demo_row 2 ''queued''])))))) = StatusFailed"
  using processMessage_dead_letter [OF demo_ready(2) [of False], of demo_turns "demo_redis False"
      "demo_send False" "Errorf '''' (Sentinel ErrProviderFailure) '': status 503''" "\<lambda>k. int k" 9]
  by (simp add: Let_def demo_admitted demo_provider demo_send_error)

text \<open>
  A message for a finished notification (delivered, cancelled or failed) is
  acknowledged and has no other effect: no table changes, no provider is called, nothing is
  broadcast or counted. A message handled a second time is harmless.
\<close>

theorem processMessage_finished:
  assumes "no_faults (w_db w)" "uuid_Parse (d_lib D) (m_notification_id msg) = (i, None)"
    and "row_at i (db_tables (w_db w)) = Some r" "terminal (r_status r)"
    and "admitted D turns msg (w_redis w) r'"
  shows "processMessage D turns clock aid msg w = w\<lparr>
    w_db := (w_db w)\<lparr>db_calls := Suc (db_calls (w_db w))\<rparr>,
    w_redis := snd (Ack (d_redis D) (m_stream_id msg) (m_message_id msg) r')\<rparr>"
  using assms
  by (simp add: processMessage_def admitted_def repo_GetByID_found process_fetched_def
      ack_message_def)

theorem processMessage_finished_witness:
  "db_tables (w_db (processMessage (demo_dispatcher True) demo_turns (\<lambda>k. int k) 9 demo_message
     (demo_world [demo_row 0 ''cancelled'']))) = demo_tables [demo_row 0 ''cancelled'']"
proof -
  have "uuid_Parse (d_lib (demo_dispatcher True)) (m_notification_id demo_message) = (1, None)"
    by (simp add: demo_dispatcher_def demo_message_def)
  then show ?thesis
    using processMessage_finished [of "demo_world [demo_row 0 ''cancelled'']" "demo_dispatcher True"
        demo_message 1 "demo_row 0 ''cancelled''" demo_turns "demo_redis True" "\<lambda>k. int k" 9]
    by (simp add: row_at_def terminal_def source_consts demo_admitted)
qed

section \<open>Acknowledgement\<close>

lemma deliver_acks:
  "\<exists>r'. w_redis (deliver D clock aid msg n send w) =
     snd (Ack (d_redis D) (m_stream_id msg) (m_message_id msg) r')"
  by (auto simp: deliver_def on_success_def on_failure_def Let_def split: option.splits)

lemma process_fetched_acks:
  "\<exists>r'. w_redis (process_fetched D clock aid msg n w) =
     snd (Ack (d_redis D) (m_stream_id msg) (m_message_id msg) r')"
  using deliver_acks by (auto simp: process_fetched_def Let_def split: option.splits)

lemma processMessage_acks:
  assumes "snd (uuid_Parse (d_lib D) (m_notification_id msg)) \<noteq> None \<or>
    fst (rate_wait (d_redis D) (d_limiter D) (m_channel msg) turns (w_redis w)) = Proceed"
  shows "\<exists>r'. w_redis (processMessage D turns clock aid msg w) =
    snd (Ack (d_redis D) (m_stream_id msg) (m_message_id msg) r')"
  using assms process_fetched_acks
  by (auto simp: processMessage_def split: prod.splits option.splits sum.splits wait.splits)

lemma processMessage_interrupted:
  assumes "snd (uuid_Parse (d_lib D) (m_notification_id msg)) = None"
    and "rate_wait (d_redis D) (d_limiter D) (m_channel msg) turns (w_redis w) = (x, r')"
    and "x \<noteq> Proceed"
  shows "processMessage D turns clock aid msg w = w\<lparr>w_redis := r'\<rparr>"
  using assms by (cases x) (auto simp: processMessage_def split: prod.splits option.splits)

context redis_service
begin

lemma rate_wait_pending:
  "redis_up R \<Longrightarrow> rate_wait R l ch turns r = (x, r') \<Longrightarrow>
     v_pending (view_of r') = v_pending (view_of r)"
proof (induction turns arbitrary: r)
  case (Cons turn turns)
  obtain clock rnd c where turn: "turn = (clock, rnd, c)" by (cases turn)
  obtain ok r1 where a: "Allow R l ch clock rnd r = (Inr ok, r1)"
    using Allow_up [OF Cons.prems(1)] by blast
  then have "v_pending (view_of r1) = v_pending (view_of r)" by (rule Allow_frame)
  then show ?case
    using Cons.IH [OF Cons.prems(1)] Cons.prems(2) a
    by (auto simp: turn split: bool.splits if_splits)
qed simp

lemma Ack_not_pending:
  assumes "redis_up R"
  shows "m \<notin> fst ` set (v_pending (view_of (snd (Ack R k m r))) k)"
proof -
  have "Ack R k m r = (None, snd (Ack R k m r))"
    using Ack_up [OF assms, of k m r] by (metis prod.collapse)
  from Ack_ok [OF this] show ?thesis by (auto simp: view_defs)
qed

end

text \<open>
  Whatever the database, the provider and the stored row do, a handled message is
  acknowledged: it leaves the pending entries of its stream. The one exception is a rate limit
  wait that did not end in an admission (the context was done, or it has not ended yet); then
  the message stays pending, the database is untouched and no provider was called.
\<close>

theorem processMessage_acknowledges:
  assumes "redis_service (d_redis D) V" "redis_up (d_redis D)"
  shows "let w' = processMessage D turns clock aid msg w;
      stream = m_stream_id msg in
    (if snd (uuid_Parse (d_lib D) (m_notification_id msg)) \<noteq> None \<or>
        fst (rate_wait (d_redis D) (d_limiter D) (m_channel msg) turns (w_redis w)) = Proceed
     then m_message_id msg \<notin> fst ` set (v_pending (V (w_redis w')) stream)
     else v_pending (V (w_redis w')) = v_pending (V (w_redis w)) \<and>
       w_db w' = w_db w \<and> w_sent w' = w_sent w)"
proof (cases "snd (uuid_Parse (d_lib D) (m_notification_id msg)) \<noteq> None \<or>
    fst (rate_wait (d_redis D) (d_limiter D) (m_channel msg) turns (w_redis w)) = Proceed")
  case True
  then have "m_message_id msg \<notin> fst ` set (v_pending
      (V (w_redis (processMessage D turns clock aid msg w))) (m_stream_id msg))"
    using processMessage_acks [OF True, of clock aid] redis_service.Ack_not_pending [OF assms]
    by metis
  with True show ?thesis by (simp only: Let_def if_True not_False_eq_True)
next
  case False
  obtain x r' where wait: "rate_wait (d_redis D) (d_limiter D) (m_channel msg) turns (w_redis w) = (x, r')"
    by (metis surj_pair)
  with False have "x \<noteq> Proceed" by simp
  then show ?thesis
    using processMessage_interrupted [OF _ wait, of clock aid] False
      redis_service.rate_wait_pending [OF assms wait] by (simp add: Let_def)
qed

theorem processMessage_acknowledges_witness:
  "m_message_id demo_message \<notin> fst ` set (v_pending (state_view (w_redis
     (processMessage (demo_dispatcher True) demo_turns (\<lambda>k. int k) 9 demo_message
       (demo_world [demo_row 0 ''queued''])))) ''notifications:high'')"
proof -
  have R: "d_redis (demo_dispatcher True) = redis_ref" by (simp add: demo_dispatcher_def)
  have "fst (rate_wait redis_ref (d_limiter (demo_dispatcher True)) (m_channel demo_message)
      demo_turns ref_empty) = Proceed"
    using demo_admits [of True] by (auto simp: R)
  then show ?thesis
    using processMessage_acknowledges [of "demo_dispatcher True" state_view demo_turns "\<lambda>k. int k" 9
        demo_message "demo_world [demo_row 0 ''queued'']"] ref.redis_service_axioms
    by (simp add: R Let_def) (simp add: demo_message_def)
qed

section \<open>The record of attempts\<close>

lemma outcome_attempts:
  assumes "message_ready D msg i r w" "admitted D turns msg (w_redis w) r'"
    and "d_providers D (r_channel r) = Some send"
  shows "attempts (db_tables (w_db (processMessage D turns clock aid msg w))) =
    attempts (db_tables (w_db (called D clock aid i (scanNotification r)
      (send (scanNotification r)) r' w)))"
  using called_db(1) [OF assms(1)] process_ready [OF assms, of clock aid]
  by (simp add: on_success_def on_failure_def schedule_retry_def give_up_def Let_def
      repo_UpdateStatus_attempts split: option.splits)

text \<open>The row of the attempt, as \<open>processMessage\<close> fills it.\<close>

definition attempt_of :: "(nat \<Rightarrow> time) \<Rightarrow> uuid \<Rightarrow> nrow \<Rightarrow> result \<Rightarrow> arow" where
  "attempt_of clock aid r res = \<lparr>ar_id = aid, ar_notification_id = r_id r,
     ar_attempt_number = r_attempt_count r + 1, ar_status_code = res_status_code res,
     ar_response_body = nilIfEmpty (res_body res),
     ar_error = (case res_error res of None \<Rightarrow> None | Some e \<Rightarrow> nilIfEmpty (error_text e)),
     ar_duration_ms = res_duration_ms res, ar_created_at = timestamptz (clock 3)\<rparr>"

lemma nilIfEmpty_ok [simp]: "opt_text_ok (nilIfEmpty s) = text_ok s"
  by (simp add: opt_text_ok_def nilIfEmpty_def)

lemma record_attempt_attempts:
  assumes "no_faults (w_db w)" "rows_ok (db_tables (w_db w))"
    and "row_at (r_id r) (db_tables (w_db w)) = Some r0" "r_attempt_count r0 = r_attempt_count r"
    and "int4_ok (r_attempt_count r + 1)" "int4_ok (res_status_code res)"
    and "aid \<notin> ar_id ` set (attempts (db_tables (w_db w)))"
    and "case res_error res of None \<Rightarrow> True | Some e \<Rightarrow> text_ok (error_text e)"
  shows "attempts (db_tables (w_db (record_attempt clock aid (scanNotification r) res w))) =
    attempts (db_tables (w_db w)) @ (if text_ok (res_body res) then [attempt_of clock aid r res] else [])"
proof -
  let ?d = "snd (repo_IncrementAttempt (clock 2) (r_id r) (w_db w))"
  have d: "no_faults ?d" "attempts (db_tables ?d) = attempts (db_tables (w_db w))"
    "row_at (r_id r) (db_tables ?d) \<noteq> None"
    using repo_IncrementAttempt_row [OF assms(1) rows_ok_distinct [OF assms(2)] assms(3)]
      assms(1,4,5) by auto
  then show ?thesis
    using assms(5-8)
    by (auto simp: record_attempt_def Let_def repo_CreateDeliveryAttempt_def pg_exec_faultless
        sql_insert_attempt_def attempt_row_def attempt_of_def row_at_def find_row_None
        nilIfEmpty_def [of "''''"] opt_text_ok_def [of None] split: option.splits)
qed

lemma called_attempts:
  assumes "message_ready D msg i r w" "int4_ok (res_status_code res)"
    and "aid \<notin> ar_id ` set (attempts (db_tables (w_db w)))"
    and "case res_error res of None \<Rightarrow> True | Some e \<Rightarrow> text_ok (error_text e)"
  shows "attempts (db_tables (w_db (called D clock aid i (scanNotification r) res r' w))) =
    attempts (db_tables (w_db w)) @ (if text_ok (res_body res) then [attempt_of clock aid r res] else [])"
proof -
  let ?d = "(w_db w)\<lparr>db_calls := Suc (db_calls (w_db w))\<rparr>"
  let ?w = "(set_status (clock 0) i StatusProcessing '''' (w\<lparr>w_redis := r', w_db := ?d\<rparr>))
        \<lparr>w_sent := w_sent w @ [scanNotification r]\<rparr>"
  have d: "no_faults ?d" "rows_ok (db_tables ?d)" "row_at i (db_tables ?d) = Some r"
    and room: "int4_ok (r_attempt_count r + 1)"
    using assms(1) by (simp_all add: message_ready_def)
  have i: "r_id r = i" using ready_id [OF assms(1)] .
  have "attempts (db_tables (w_db ?w)) = attempts (db_tables (w_db w))"
    using repo_UpdateStatus_attempts [OF d(1)] by simp
  then show ?thesis
    using record_attempt_attempts [of ?w r "status_effect (clock 0) StatusProcessing '''' r" res aid clock]
      d status_update_rows_ok [OF d(2)] room assms(2-4)
    by (simp add: called_def i repo_UpdateStatus_row)
qed

text \<open>The attempts of a notification are numbered from one up to its attempt counter.\<close>

definition attempts_numbered :: "uuid \<Rightarrow> tables \<Rightarrow> bool" where
  "attempts_numbered i t \<longleftrightarrow>
     (case row_at i t of None \<Rightarrow> True
      | Some r \<Rightarrow> map ar_attempt_number (filter (\<lambda>a. ar_notification_id a = i) (attempts t))
          = [1..r_attempt_count r])"

lemma outcome_count:
  assumes "message_ready D msg i r w" "admitted D turns msg (w_redis w) r'"
    and "d_providers D (r_channel r) = Some send"
    and "case res_error (send (scanNotification r)) of None \<Rightarrow> True | Some e \<Rightarrow> text_ok (error_text e)"
  shows "\<exists>r2. row_at i (db_tables (w_db (processMessage D turns clock aid msg w))) = Some r2 \<and>
    r_attempt_count r2 = r_attempt_count r + 1 \<and> r_max_retries r2 = r_max_retries r"
proof -
  let ?n = "scanNotification r"
  let ?w = "called D clock aid i ?n (send ?n) r' w"
  have "row_at i (db_tables (snd (repo_UpdateStatus (clock 5) i st e (w_db ?w)))) =
      Some (status_effect (clock 5) st e (processing_row clock r))" if "text_ok e" for st e
    using outcome_status [OF assms(1) that, of i clock st aid "send ?n" r'] by simp
  moreover have "r_attempt_count (processing_row clock r) = r_attempt_count r + 1"
    "r_max_retries (processing_row clock r) = r_max_retries r"
    by (simp_all add: processing_row_def)
  ultimately show ?thesis
    using process_ready [OF assms(1-3), of clock aid] assms(4) ready_id [OF assms(1)]
    by (auto simp: on_success_def on_failure_def schedule_retry_def give_up_def Let_def
        split: option.splits)
qed



lemma utf8_run_ascii: "utf8_run 0 128 191 (replicate n 97 @ bs) = utf8_run 0 128 191 bs"
  by (induction n) auto

definition long_body :: string where
  "long_body = replicate 4095 (CHR ''a'') @ [CHR 0xC3, CHR 0xA9]"

text \<open>
  An attempt can be lost: when the recorded body is not text the database accepts,
  the counter of the notification still goes up and no attempt is stored. The providers record
  the first 4096 bytes of a response, and the cut can fall inside a character of a well-formed
  body: 4095 letters and one two-byte character are accepted as a whole and refused once cut.
\<close>

theorem processMessage_loses_attempt:
  assumes "message_ready D msg i r w" "admitted D turns msg (w_redis w) r'"
    and "d_providers D (r_channel r) = Some (SMSProvider_Send baseURL path (\<lambda>url p. Response 200 body) ms)"
    and "\<not> text_ok (take 4096 body)"
    and "aid \<notin> ar_id ` set (attempts (db_tables (w_db w)))"
  shows "text_ok long_body \<and> \<not> text_ok (take 4096 long_body) \<and>
    (let t' = db_tables (w_db (processMessage D turns clock aid msg w)) in
      attempts t' = attempts (db_tables (w_db w)) \<and>
      map_option r_attempt_count (row_at i t') = Some (r_attempt_count r + 1))"
proof -
  let ?res = "SMSProvider_Send baseURL path (\<lambda>url p. Response 200 body) ms (scanNotification r)"
  have res: "res_body ?res = take 4096 body" "res_error ?res = None" "res_status_code ?res = 200"
    by (simp_all add: SMSProvider_Send_def post_payload_def)
  have "attempts (db_tables (w_db (processMessage D turns clock aid msg w))) =
      attempts (db_tables (w_db w))"
    using outcome_attempts [OF assms(1-3)] called_attempts [OF assms(1), of ?res aid] assms(4,5) res
    by (simp add: int4_ok_def)
  moreover have "text_ok long_body" "\<not> text_ok (take 4096 long_body)"
    by (simp_all add: text_ok_def long_body_def utf8_run_ascii)
  ultimately show ?thesis
    using outcome_count [OF assms(1-3), of clock aid] res by (auto simp: Let_def)
qed

definition demo_verbose :: "redis_state dispatcher" where
  "demo_verbose = (demo_dispatcher True)\<lparr>d_providers := (\<lambda>ch. Some
     (SMSProvider_Send ''https://webhook'' ''/sms'' (\<lambda>url p. Response 200 long_body) 12))\<rparr>"

theorem processMessage_loses_attempt_witness:
  "attempts (db_tables (w_db (processMessage demo_verbose demo_turns (\<lambda>k. int k) 9
     demo_message (demo_world [demo_row 0 ''queued''])))) = []"
proof -
  have "message_ready demo_verbose demo_message 1 (demo_row 0 ''queued'') (demo_world [demo_row 0 ''queued''])"
    using demo_ready(1) [of True] by (simp add: message_ready_def demo_verbose_def)
  moreover have "admitted demo_verbose demo_turns demo_message ref_empty (demo_redis True)"
    using demo_admitted [of True] by (simp add: admitted_def demo_verbose_def)
  moreover have "\<not> text_ok (take 4096 long_body)"
    by (simp add: text_ok_def long_body_def utf8_run_ascii)
  ultimately show ?thesis
    using processMessage_loses_attempt [of demo_verbose demo_message 1 "demo_row 0 ''queued''"
        "demo_world [demo_row 0 ''queued'']" demo_turns "demo_redis True" "''https://webhook''"
        "''/sms''" long_body 12 9 "\<lambda>k. int k"]
    by (simp add: Let_def demo_verbose_def demo_tables_def)
qed

end
