(* ===== verification/Creation.thy ===== *)
theory Creation
  imports Processing
begin

text \<open>
  What the creation of notifications does to the tables and the queue: one notification, and a
  batch in a transaction.
\<close>

section \<open>Inserting rows\<close>

lemma sql_insert_cases:
  "fst (sql_insert_notification row t) = Inr () \<and>
     snd (sql_insert_notification row t) = t\<lparr>notifications := notifications t @ [row]\<rparr> \<and>
     r_id row \<notin> r_id ` set (notifications t) \<or>
   (\<exists>e. fst (sql_insert_notification row t) = Inl e) \<and> snd (sql_insert_notification row t) = t"
  by (auto simp: sql_insert_notification_def split: option.splits)

lemma insert_row_id [simp]: "r_id (insert_row n) = n_id n"
  by (simp add: insert_row_def)

lemma stamped_id [simp]: "n_id (stamped now i n) = i"
  by (simp add: stamped_def)

lemma repo_Create_ok:
  assumes "no_faults d" "repo_Create now i n d = (None, n', d')"
  shows "n' = stamped now i n" "i \<notin> r_id ` set (notifications (db_tables d))"
    and "d' = d\<lparr>db_tables := (db_tables d)\<lparr>notifications :=
      notifications (db_tables d) @ [insert_row (stamped now i n)]\<rparr>, db_calls := Suc (db_calls d)\<rparr>"
  using assms sql_insert_cases [of "insert_row (stamped now i n)" "db_tables d"]
  by (auto simp: repo_Create_def Let_def pg_exec_faultless split: sum.splits)

lemma repo_Create_failed:
  assumes "no_faults d" "repo_Create now i n d = (Some e, n', d')"
  shows "db_tables d' = db_tables d"
  using assms sql_insert_cases [of "insert_row (stamped now i n)" "db_tables d"]
  by (auto simp: repo_Create_def Let_def pg_exec_faultless split: sum.splits)

lemma row_at_append:
  "row_at j (t\<lparr>notifications := notifications t @ rows\<rparr>) =
     (case row_at j t of None \<Rightarrow> find_row r_id j rows | Some r \<Rightarrow> Some r)"
  by (simp add: row_at_def find_row_append)

lemma row_at_absent: "row_at j t = None \<longleftrightarrow> j \<notin> r_id ` set (notifications t)"
  by (simp add: row_at_def find_row_None)

lemma fill_template_no_faults:
  "fill_template L f g req n d = (x, d') \<Longrightarrow> no_faults d' = no_faults d"
  using fill_template_faults [of L f g req n d] by (simp add: no_faults_def)

lemma fill_template_same_tables:
  "fill_template L f g req n d = (x, d') \<Longrightarrow> db_tables d' = db_tables d"
  using fill_template_tables [of L f g req n d] by simp

text \<open>A created notification that was enqueued, and one that was not.\<close>

lemma queued_differs: "n_status n = StatusPending \<Longrightarrow> n\<lparr>n_status := StatusQueued\<rparr> \<noteq> n"
  by (auto dest!: arg_cong [of _ _ n_status] simp: source_consts)

lemma enqueue_new_row:
  assumes "no_faults d" "enqueue_new producer now n d q = (n', d', q')"
  shows "row_at j (db_tables d') =
    (if j = n_id n \<and> n' \<noteq> n then map_option (status_effect now StatusQueued '''') (row_at j (db_tables d))
     else row_at j (db_tables d))"
proof (cases "n_status n = StatusPending \<and> n' \<noteq> n")
  case True
  then show ?thesis
    using enqueue_new_fields [OF assms(2)] repo_UpdateStatus_row [OF assms(1) text_ok_Nil] by auto
next
  case False
  then have "n' = n \<and> d' = d"
    using assms(2) queued_differs [of n]
    by (auto simp: enqueue_new_def split: if_splits option.splits prod.splits)
  then show ?thesis by simp
qed

lemma enqueue_new_queue:
  assumes "enqueue_new producer now n d q = (n', d', q')"
  shows "(n', q') = (case producer of
      Some enqueue \<Rightarrow>
        if n_status n = StatusPending then
          (if fst (enqueue (n_id n) (n_channel n) (n_priority n) q) = None
           then n\<lparr>n_status := StatusQueued\<rparr> else n,
           snd (enqueue (n_id n) (n_channel n) (n_priority n) q))
        else (n, q)
    | None \<Rightarrow> (n, q))"
  using assms by (auto simp: enqueue_new_def split: if_splits option.splits prod.splits)

section \<open>Create\<close>

lemma Create_steps:
  assumes "NotificationService_Create L producer m clock i req d q = (Inr n, d', q')"
  obtains n0 d0 n1 d1 where
    "fill_template L (\<lambda>e. Errorf ''fetching template: '' e '''') (\<lambda>e. e) req
       (request_notification m None req) d = (Inr n0, d0)"
    "content_ok L (n_channel n0) (n_recipient n0) (n_subject n0) (n_body n0)"
    "priority_valid (q_priority req)"
    "repo_Create (clock 0) i (set_initial_status req n0) d0 = (None, n1, d1)"
    "enqueue_new producer (clock 1) n1 d1 q = (n, d', q')"
  using assms content_accepted
  by (auto simp: NotificationService_Create_def
      split: option.splits if_splits prod.splits sum.splits)

lemma scan_status_queued:
  "scanNotification (status_effect now StatusQueued '''' r) =
     (scanNotification r)\<lparr>n_status := StatusQueued, n_updated_at := timestamptz now\<rparr>"
  by (simp add: scanNotification_def status_effect_def source_consts)

text \<open>The row of a notification that \<open>Create\<close> has returned.\<close>

definition stored_row :: "(nat \<Rightarrow> time) \<Rightarrow> notification \<Rightarrow> nrow" where
  "stored_row clock n =
     (if n_status n = StatusQueued then status_effect (clock 1) StatusQueued '''' else id)
       (insert_row (n\<lparr>n_status := (if n_status n = StatusQueued then StatusPending else n_status n)\<rparr>))"

lemma Create_stored:
  assumes "no_faults d"
    and "NotificationService_Create L (Some enqueue) m clock i req d q = (Inr n, d', q')"
  shows "n_id n = i \<and> row_at i (db_tables d) = None \<and>
    content_ok L (n_channel n) (n_recipient n) (n_subject n) (n_body n) \<and>
    n_channel n = q_channel req \<and> n_priority n = q_priority req \<and> priority_valid (n_priority n) \<and>
    n_recipient n = q_recipient req \<and> n_attempt_count n = 0 \<and>
    row_at i (db_tables d') = Some (stored_row clock n) \<and>
    scanNotification (stored_row clock n) = n\<lparr>n_scheduled_at := map_option timestamptz (q_scheduled_at req),
      n_created_at := timestamptz (clock 0),
      n_updated_at := timestamptz (clock (if n_status n = StatusQueued then 1 else 0))\<rparr> \<and>
    (\<forall>j. j \<noteq> i \<longrightarrow> row_at j (db_tables d') = row_at j (db_tables d)) \<and>
    (case q_scheduled_at req of
       Some t \<Rightarrow> n_status n = StatusScheduled \<and> q' = q
     | None \<Rightarrow> (case enqueue i (q_channel req) (q_priority req) q of
           (None, q1) \<Rightarrow> n_status n = StatusQueued \<and> q' = q1
         | (Some e, q1) \<Rightarrow> n_status n = StatusPending \<and> q' = q1))"
proof -
  obtain n0 d0 n1 d1 where
    fill: "fill_template L (\<lambda>e. Errorf ''fetching template: '' e '''') (\<lambda>e. e) req
       (request_notification m None req) d = (Inr n0, d0)"
    and ok: "content_ok L (n_channel n0) (n_recipient n0) (n_subject n0) (n_body n0)"
      "priority_valid (q_priority req)"
    and create: "repo_Create (clock 0) i (set_initial_status req n0) d0 = (None, n1, d1)"
    and enq: "enqueue_new (Some enqueue) (clock 1) n1 d1 q = (n, d', q')"
    using Create_steps [OF assms(2)] by metis
  have d0: "no_faults d0" "db_tables d0 = db_tables d"
    using fill_template_no_faults [OF fill] fill_template_same_tables [OF fill] assms(1) by simp_all
  note n0 = fill_template_fresh [OF fill]
  note c = repo_Create_ok [OF d0(1) create]
  have d1: "no_faults d1" using c(3) d0(1) by simp
  have row1: "row_at j (db_tables d1) =
      (if j = i then Some (insert_row n1) else row_at j (db_tables d))" for j
    using c(1,2) d0(2) by (auto simp: c(3) row_at_append row_at_absent [symmetric] split: option.splits)
  have row: "row_at j (db_tables d') = (if j \<noteq> i then row_at j (db_tables d)
      else Some ((if n = n1 then id else status_effect (clock 1) StatusQueued '''') (insert_row n1)))" for j
    using enqueue_new_row [OF d1 enq, of j] row1 c(1) by auto
  have fields: "n_channel n1 = q_channel req" "n_priority n1 = q_priority req" "n_id n1 = i"
    and n1: "n1 = stamped (clock 0) i (set_initial_status req n0)"
    using c(1) n0 by (simp_all add: stamped_def)
  have initial: "n_status n1 = (case q_scheduled_at req of None \<Rightarrow> StatusPending | Some _ \<Rightarrow> StatusScheduled)"
    by (simp add: n1 stamped_def set_initial_status_def split: option.splits)
  have enq_n: "(n, q') = (if n_status n1 = StatusPending then
      (if fst (enqueue i (q_channel req) (q_priority req) q) = None then n1\<lparr>n_status := StatusQueued\<rparr>
       else n1, snd (enqueue i (q_channel req) (q_priority req) q)) else (n1, q))"
    using enqueue_new_queue [OF enq] fields by simp
  have n: "n = (if n_status n = StatusQueued then n1\<lparr>n_status := StatusQueued\<rparr> else n1)"
    and st: "n_status n = StatusQueued \<longrightarrow> n_status n1 = StatusPending"
    using enq_n initial by (auto simp: source_consts split: if_splits option.splits)
  have queue: "case q_scheduled_at req of
       Some t \<Rightarrow> n_status n = StatusScheduled \<and> q' = q
     | None \<Rightarrow> (case enqueue i (q_channel req) (q_priority req) q of
           (None, q1) \<Rightarrow> n_status n = StatusQueued \<and> q' = q1
         | (Some e, q1) \<Rightarrow> n_status n = StatusPending \<and> q' = q1)"
    using enq_n initial
    by (cases "enqueue i (q_channel req) (q_priority req) q"; cases "q_scheduled_at req")
      (simp_all add: source_consts split: option.splits if_splits)
  have absent: "row_at i (db_tables d) = None" using c(2) d0(2) by (simp add: row_at_absent)
  have alt: "n = n1\<lparr>n_status := StatusQueued\<rparr> \<or> n = n1" using n by metis
  then have undo: "n1 = n\<lparr>n_status := n_status n1\<rparr>" by auto
  have stored: "stored_row clock n =
      (if n = n1 then id else status_effect (clock 1) StatusQueued '''') (insert_row n1)"
  proof (cases "n_status n = StatusQueued")
    case True
    then have pending: "n_status n1 = StatusPending" using st by simp
    then have "n \<noteq> n1" using True by (auto simp: source_consts)
    moreover have "n1 = n\<lparr>n_status := StatusPending\<rparr>" using undo pending by simp
    ultimately show ?thesis using True by (simp add: stored_row_def)
  next
    case False
    then show ?thesis using n by (simp add: stored_row_def)
  qed
  have scan: "scanNotification (stored_row clock n) = n\<lparr>n_scheduled_at := map_option timestamptz (q_scheduled_at req),
      n_created_at := timestamptz (clock 0),
      n_updated_at := timestamptz (clock (if n_status n = StatusQueued then 1 else 0))\<rparr>"
  proof (cases "n_status n = StatusQueued")
    case True
    have n1: "n_last_error n1 = ''''" "n_delivered_at n1 = None" "n_created_at n1 = clock 0"
      "n_scheduled_at n1 = None"
      using n0 st True
      by (auto simp: n1 stamped_def set_initial_status_def source_consts split: option.splits)
    have "q_scheduled_at req = None"
      using queue True by (auto simp: source_consts split: option.splits)
    moreover have "n = n1\<lparr>n_status := StatusQueued\<rparr>" using n True by simp
    ultimately show ?thesis
      using n1 by (simp add: stored_row_def scan_status_queued scan_insert)
  next
    case False
    moreover have "n_scheduled_at (set_initial_status req n0) = q_scheduled_at req"
      using n0 by (simp add: set_initial_status_def split: option.splits)
    ultimately show ?thesis
      using n n0
      by (auto simp: stored_row_def scan_insert n1 stamped_def intro!: notification.equality)
  qed
  have "n_id n = i" "n_channel n = q_channel req" "n_priority n = q_priority req"
    "n_recipient n = q_recipient req" "n_attempt_count n = 0" "n_subject n = n_subject n0"
    "n_body n = n_body n0"
    using alt n0 by (auto simp: n1 stamped_def)
  then show ?thesis
    using row [of i] row absent ok queue fields stored scan n0 by simp
qed

text \<open>
  Property C13. A successful creation: the identifier is new, the content satisfies the rules of its
  channel, and exactly one row has been added, from which the returned notification is read back
  (with times cut to microseconds). A request with a time is scheduled and not enqueued; any
  other is handed to the queue exactly once and is queued if the queue took it, else pending.
\<close>

theorem Create_success:
  assumes "no_faults d"
    and "NotificationService_Create L (Some enqueue) m clock i req d q = (Inr n, d', q')"
  shows "n_id n = i \<and> row_at i (db_tables d) = None \<and>
    content_ok L (n_channel n) (n_recipient n) (n_subject n) (n_body n) \<and>
    n_channel n = q_channel req \<and> n_priority n = q_priority req \<and> priority_valid (n_priority n) \<and>
    n_recipient n = q_recipient req \<and> n_attempt_count n = 0 \<and>
    row_at i (db_tables d') = Some (stored_row clock n) \<and>
    scanNotification (stored_row clock n) = n\<lparr>n_scheduled_at := map_option timestamptz (q_scheduled_at req),
      n_created_at := timestamptz (clock 0),
      n_updated_at := timestamptz (clock (if n_status n = StatusQueued then 1 else 0))\<rparr> \<and>
    (\<forall>j. j \<noteq> i \<longrightarrow> row_at j (db_tables d') = row_at j (db_tables d)) \<and>
    (case q_scheduled_at req of
       Some t \<Rightarrow> n_status n = StatusScheduled \<and> q' = q
     | None \<Rightarrow> (case enqueue i (q_channel req) (q_priority req) q of
           (None, q1) \<Rightarrow> n_status n = StatusQueued \<and> q' = q1
         | (Some e, q1) \<Rightarrow> n_status n = StatusPending \<and> q' = q1))"
  using Create_stored [OF assms] .

theorem Create_success_witness:
  "\<exists>n d' q'. NotificationService_Create example_lib (Some (Enqueue example_lib redis_ref)) 5
       (\<lambda>k. int k) 9 (demo_request None) (demo_db []) ref_empty = (Inr n, d', q') \<and>
     n_status n = StatusQueued \<and> row_at 9 (db_tables d') = Some (stored_row (\<lambda>k. int k) n)"
proof -
  obtain n d' q' where c: "NotificationService_Create example_lib (Some (Enqueue example_lib redis_ref)) 5
       (\<lambda>k. int k) 9 (demo_request None) (demo_db []) ref_empty = (Inr n, d', q')"
    using demo_created by metis
  moreover have "q_scheduled_at (demo_request None) = None" by (simp add: demo_request_def)
  moreover have "fst (Enqueue example_lib redis_ref 9 ''sms'' ''high'' ref_empty) = None"
    by (rule Enqueue_up) simp
  ultimately show ?thesis
    using Create_success [OF demo_faultless c]
    by (auto simp: demo_request_def split: prod.splits option.splits)
qed

lemma Create_failed:
  assumes "no_faults d"
    and "NotificationService_Create L producer m clock i req d q = (Inl e, d', q')"
  shows "db_tables d' = db_tables d \<and> q' = q"
proof -
  obtain r0 d0 where fill: "fill_template L (\<lambda>e. Errorf ''fetching template: '' e '''') (\<lambda>e. e) req
       (request_notification m None req) d = (r0, d0)" by (metis surj_pair)
  have d0: "no_faults d0" "db_tables d0 = db_tables d"
    using fill_template_no_faults [OF fill] fill_template_same_tables [OF fill] assms(1) by simp_all
  show ?thesis
    using assms(2) fill d0 repo_Create_failed [OF d0(1)]
    by (auto simp: NotificationService_Create_def
        split: option.splits if_splits prod.splits sum.splits)
qed

text \<open>
  Property C14. A creation that fails changes nothing: when the database answers, an error of any
  kind (validation, template, content, duplicate key) leaves every table and the queue as they
  were.
\<close>

theorem Create_failure:
  assumes "no_faults d"
    and "NotificationService_Create L producer m clock i req d q = (Inl e, d', q')"
  shows "db_tables d' = db_tables d \<and> q' = q"
  using Create_failed [OF assms] .

theorem Create_failure_witness:
  "NotificationService_Create example_lib (Some (Enqueue example_lib redis_ref)) 5 (\<lambda>k. int k) 9
     ((demo_request None)\<lparr>q_channel := ''fax''\<rparr>) (demo_db []) ref_empty =
     (Inl (Sentinel ErrInvalidChannel), demo_db [], ref_empty) \<and>
   db_tables (demo_db []) = demo_tables []"
proof -
  have c: "NotificationService_Create example_lib (Some (Enqueue example_lib redis_ref)) 5 (\<lambda>k. int k) 9
     ((demo_request None)\<lparr>q_channel := ''fax''\<rparr>) (demo_db []) ref_empty =
     (Inl (Sentinel ErrInvalidChannel), demo_db [], ref_empty)"
    by (simp add: NotificationService_Create_def example_lib_def demo_request_def channel_valid_def
        source_consts)
  from Create_failure [OF demo_faultless c] c show ?thesis by simp
qed

section \<open>A batch\<close>

definition batch_stamped :: "time \<Rightarrow> (nat \<Rightarrow> uuid) \<Rightarrow> nat \<Rightarrow> notification list \<Rightarrow> notification list" where
  "batch_stamped now ids k ns = map2 (stamped now) (map ids [k..<k + length ns]) ns"

lemma batch_stamped_simps [simp]:
  "batch_stamped now ids k [] = []"
  "batch_stamped now ids k (n # ns) = stamped now (ids k) n # batch_stamped now ids (Suc k) ns"
proof -
  have "[k..<k + length (n # ns)] = k # [Suc k..<Suc k + length ns]"
    by (simp add: upt_conv_Cons del: upt_Suc)
  then show "batch_stamped now ids k (n # ns) = stamped now (ids k) n # batch_stamped now ids (Suc k) ns"
    by (simp add: batch_stamped_def del: upt_Suc)
qed (simp add: batch_stamped_def)

lemma batch_stamped_ids: "map n_id (batch_stamped now ids k ns) = map ids [k..<k + length ns]"
  by (induction ns arbitrary: k) (simp_all add: upt_conv_Cons del: upt_Suc)

lemma batch_loop_ok:
  assumes "batch_loop now ids k ns (d, work) = (Inr ns', d', work')"
  shows "ns' = batch_stamped now ids k ns \<and> db_tables d' = db_tables d \<and> db_faults d' = db_faults d \<and>
    work' = work\<lparr>notifications := notifications work @ map insert_row ns'\<rparr> \<and>
    (distinct (map r_id (notifications work)) \<longrightarrow> distinct (map r_id (notifications work')))"
  using assms
proof (induction ns arbitrary: k d work ns')
  case (Cons n ns)
  let ?row = "insert_row (stamped now (ids k) n)"
  obtain d1 w1 ns1 where one: "tx_exec (sql_insert_notification ?row) (d, work) = (Inr (), d1, w1)"
    and rest: "batch_loop now ids (Suc k) ns (d1, w1) = (Inr ns1, d', work')"
    and ns': "ns' = stamped now (ids k) n # ns1"
    using Cons.prems by (auto simp: Let_def split: prod.splits sum.splits)
  have w1: "w1 = work\<lparr>notifications := notifications work @ [?row]\<rparr>" "db_tables d1 = db_tables d"
    "db_faults d1 = db_faults d" "r_id ?row \<notin> r_id ` set (notifications work)"
    using one sql_insert_cases [of ?row work]
    by (auto simp: tx_exec_def next_call_def split: prod.splits option.splits)
  then have "distinct (map r_id (notifications work)) \<Longrightarrow> distinct (map r_id (notifications w1))"
    by simp
  then have "distinct (map r_id (notifications work)) \<longrightarrow> distinct (map r_id (notifications work'))"
    using Cons.IH [OF rest] by blast
  moreover have "work' = w1\<lparr>notifications := notifications w1 @ map insert_row ns1\<rparr>"
    "ns1 = batch_stamped now ids (Suc k) ns" "db_tables d' = db_tables d1" "db_faults d' = db_faults d1"
    using Cons.IH [OF rest] by blast+
  ultimately show ?case using ns' w1(1-3) by (intro conjI) simp_all
qed simp

lemma batch_loop_tables:
  "batch_loop now ids k ns (d, work) = (Inl e, d', work') \<Longrightarrow> db_tables d' = db_tables d"
proof (induction ns arbitrary: k d work)
  case (Cons n ns)
  let ?q = "sql_insert_notification (insert_row (stamped now (ids k) n))"
  obtain r1 d1 w1 where one: "tx_exec ?q (d, work) = (r1, d1, w1)" by (metis surj_pair)
  then show ?case
    using Cons.prems Cons.IH [of "Suc k" d1 w1] tx_exec_tables [OF one]
    by (auto simp: Let_def split: sum.splits prod.splits)
qed simp

lemma pg_exec_const:
  "pg_exec (\<lambda>_. (Inr (), work)) d = (res, d') \<Longrightarrow>
     db_tables d' = work \<or> db_tables d' = db_tables d \<and> res \<noteq> Inr ()"
  by (auto simp: pg_exec_def next_call_def split: option.splits fault.splits)

lemma pg_exec_begin:
  "pg_exec (\<lambda>t. (Inr (), t)) d = (res, d') \<Longrightarrow> db_tables d' = db_tables d \<and> db_faults d' = db_faults d"
  by (auto simp: pg_exec_def next_call_def split: option.splits fault.splits)

lemma repo_CreateBatch_rows:
  assumes "repo_CreateBatch now ids ns d = (res, d')"
  defines "rows \<equiv> notifications (db_tables d) @ map insert_row (batch_stamped now ids 0 ns)"
  shows "db_tables d' = (db_tables d)\<lparr>notifications := rows\<rparr> \<and>
      (distinct (map r_id (notifications (db_tables d))) \<longrightarrow> distinct (map r_id rows)) \<and>
      (\<forall>ns'. res = Inr ns' \<longrightarrow> ns' = batch_stamped now ids 0 ns) \<or>
    db_tables d' = db_tables d \<and> (\<exists>e. res = Inl e)"
proof -
  obtain r0 d0 where b: "pg_exec (\<lambda>t. (Inr (), t)) d = (r0, d0)" by (metis surj_pair)
  note d0 = pg_exec_begin [OF b]
  obtain r1 d1 w1 where l: "batch_loop now ids 0 ns (d0, db_tables d0) = (r1, d1, w1)"
    by (metis surj_pair)
  obtain r2 d2 where c: "pg_exec (\<lambda>_. (Inr (), w1)) d1 = (r2, d2)" by (metis surj_pair)
  show ?thesis
  proof (cases r1)
    case (Inl e)
    then show ?thesis
      using assms(1) b l d0 batch_loop_tables [of now ids 0 ns d0 "db_tables d0" e d1 w1]
      by (auto simp: repo_CreateBatch_def split: sum.splits)
  next
    case (Inr ns1)
    note ok = batch_loop_ok [OF l [unfolded Inr]]
    show ?thesis
      using assms(1) b l d0 Inr c ok pg_exec_const [OF c]
      by (auto simp: repo_CreateBatch_def rows_def split: sum.splits)
  qed
qed

lemma tx_exec_faults: "tx_exec q (d, work) = (res, d', work') \<Longrightarrow> db_faults d' = db_faults d"
  by (auto simp: tx_exec_def next_call_def split: option.splits prod.splits)

lemma batch_loop_faults:
  "batch_loop now ids k ns (d, work) = (res, d', work') \<Longrightarrow> db_faults d' = db_faults d"
proof (induction ns arbitrary: k d work res d' work')
  case (Cons n ns)
  let ?q = "sql_insert_notification (insert_row (stamped now (ids k) n))"
  obtain r1 d1 w1 where one: "tx_exec ?q (d, work) = (r1, d1, w1)" by (metis surj_pair)
  obtain r2 d2 w2 where rest: "batch_loop now ids (Suc k) ns (d1, w1) = (r2, d2, w2)" by (metis surj_pair)
  show ?case
    using Cons.prems Cons.IH [OF rest] tx_exec_faults [OF one] one rest
    by (auto simp: Let_def split: sum.splits)
qed simp

lemma repo_CreateBatch_no_faults:
  assumes "no_faults d" "repo_CreateBatch now ids ns d = (res, d')"
  shows "no_faults d'" "\<exists>e. res = Inl e \<Longrightarrow> db_tables d' = db_tables d"
proof -
  let ?d0 = "d\<lparr>db_calls := Suc (db_calls d)\<rparr>"
  obtain r1 d1 w1 where l: "batch_loop now ids 0 ns (?d0, db_tables ?d0) = (r1, d1, w1)"
    by (metis surj_pair)
  have d1: "no_faults d1" using batch_loop_faults [OF l] assms(1) by (simp add: no_faults_def)
  show "no_faults d'" "\<exists>e. res = Inl e \<Longrightarrow> db_tables d' = db_tables d"
    using assms l d1 batch_loop_tables [of now ids 0 ns ?d0 "db_tables ?d0" _ d1 w1]
    by (auto simp: repo_CreateBatch_def pg_exec_faultless split: sum.splits)
qed

text \<open>
  Property C15. A batch is stored atomically, whatever the database does: refused statements, lost
  answers and broken connections at any call. After \<open>CreateBatch\<close> of the repository the table
  holds either exactly the rows it held, or these followed by one row per notification in the
  order of the request, all under distinct identifiers; and when it reports success, the latter.
\<close>

theorem CreateBatch_atomic:
  assumes "repo_CreateBatch now ids ns d = (res, d')"
    and "distinct (map r_id (notifications (db_tables d)))"
  shows "(db_tables d' = db_tables d \<and> (\<exists>e. res = Inl e)) \<or>
    (notifications (db_tables d') =
       notifications (db_tables d) @ map insert_row (batch_stamped now ids 0 ns) \<and>
     distinct (map r_id (notifications (db_tables d'))) \<and>
     templates (db_tables d') = templates (db_tables d) \<and>
     attempts (db_tables d') = attempts (db_tables d) \<and>
     (\<forall>ns'. res = Inr ns' \<longrightarrow> ns' = batch_stamped now ids 0 ns))"
  using repo_CreateBatch_rows [OF assms(1)] assms(2) by auto

theorem CreateBatch_atomic_witness:
  "\<exists>d'. repo_CreateBatch 5 (\<lambda>k. of_nat k) [demo_notification None (Some 3)] (demo_db []) =
     (Inr [stamped 5 0 (demo_notification None (Some 3))], d') \<and>
     notifications (db_tables d') = [insert_row (stamped 5 0 (demo_notification None (Some 3)))]"
proof -
  obtain d' where c: "repo_CreateBatch 5 (\<lambda>k. of_nat k) [demo_notification None (Some 3)] (demo_db []) =
     (Inr [stamped 5 0 (demo_notification None (Some 3))], d')"
    using demo_batch [of 5 "\<lambda>k. of_nat k"] by auto
  show ?thesis using CreateBatch_atomic [OF c] c by simp
qed

text \<open>A stored row and a notification agree when they differ in their times only.\<close>

definition agrees :: "notification \<Rightarrow> tables \<Rightarrow> bool" where
  "agrees n t \<longleftrightarrow> (\<exists>r. row_at (n_id n) t = Some r \<and>
     (scanNotification r)\<lparr>n_scheduled_at := n_scheduled_at n, n_created_at := n_created_at n,
       n_updated_at := n_updated_at n\<rparr> = n)"

lemma agrees_insert:
  assumes "row_at (n_id n) t = Some (insert_row n)" "n_last_error n = ''''" "n_delivered_at n = None"
  shows "agrees n t"
  using assms by (auto simp: agrees_def scan_insert intro!: notification.equality)

lemma agrees_queued:
  assumes "agrees n t" "row_at (n_id n) t' =
    map_option (status_effect now StatusQueued '''') (row_at (n_id n) t)"
  shows "agrees (n\<lparr>n_status := StatusQueued\<rparr>) t'"
proof -
  obtain r where r: "row_at (n_id n) t = Some r" "(scanNotification r)\<lparr>n_scheduled_at := n_scheduled_at n,
      n_created_at := n_created_at n, n_updated_at := n_updated_at n\<rparr> = n"
    using assms(1) by (auto simp: agrees_def)
  have "(scanNotification (status_effect now StatusQueued '''' r))\<lparr>n_scheduled_at := n_scheduled_at n,
      n_created_at := n_created_at n, n_updated_at := n_updated_at n\<rparr> =
    ((scanNotification r)\<lparr>n_scheduled_at := n_scheduled_at n,
      n_created_at := n_created_at n, n_updated_at := n_updated_at n\<rparr>)\<lparr>n_status := StatusQueued\<rparr>"
    by (simp add: scan_status_queued)
  then show ?thesis using r assms(2) by (simp add: agrees_def)
qed

lemma agrees_same: "row_at (n_id n) t' = row_at (n_id n) t \<Longrightarrow> agrees n t' = agrees n t"
  by (simp add: agrees_def)

lemma enqueue_new_keeps:
  assumes "no_faults d" "enqueue_new producer now n d q = (n', d', q')"
  shows "n_id n' = n_id n" "no_faults d'" "map r_id (notifications (db_tables d')) = map r_id (notifications (db_tables d))"
    "j \<noteq> n_id n \<Longrightarrow> row_at j (db_tables d') = row_at j (db_tables d)"
    "agrees n (db_tables d) \<Longrightarrow> agrees n' (db_tables d')"
proof -
  have cases: "n' = n \<and> d' = d \<or> n' = n\<lparr>n_status := StatusQueued\<rparr> \<and>
      d' = snd (repo_UpdateStatus now (n_id n) StatusQueued '''' d)"
    using enqueue_new_fields [OF assms(2)] by blast
  then show "n_id n' = n_id n" "no_faults d'" using assms(1) by auto
  show "map r_id (notifications (db_tables d')) = map r_id (notifications (db_tables d))"
  proof -
    have "notifications (db_tables (snd (repo_UpdateStatus now (n_id n) StatusQueued '''' d))) =
      update_rows (\<lambda>r. r_id r = n_id n) (status_effect now StatusQueued '''') (notifications (db_tables d))"
      by (simp add: repo_UpdateStatus_tables [OF assms(1) text_ok_Nil])
    then have "map r_id (notifications (db_tables (snd (repo_UpdateStatus now (n_id n) StatusQueued '''' d)))) =
      map r_id (notifications (db_tables d))"
      by (metis (no_types, lifting) effect_ids(1) map_update_rows)
    then show ?thesis using cases by auto
  qed
  show "row_at j (db_tables d') = row_at j (db_tables d)" if "j \<noteq> n_id n"
    using enqueue_new_row [OF assms, of j] that by simp
  show "agrees n' (db_tables d')" if "agrees n (db_tables d)"
  proof (cases "n' = n")
    case True
    then show ?thesis
      using enqueue_new_row [OF assms, of "n_id n"] that
        agrees_same [of n "db_tables d'" "db_tables d"] by simp
  next
    case False
    then have "n' = n\<lparr>n_status := StatusQueued\<rparr>" using enqueue_new_fields [OF assms(2)] by auto
    then show ?thesis
      using agrees_queued [OF that] enqueue_new_row [OF assms, of "n_id n"] False by simp
  qed
qed

lemma enqueue_loop_keeps:
  assumes "no_faults d" "enqueue_loop producer clock k ns d q = (ns', d', q')" "distinct (map n_id ns)"
  shows "map r_id (notifications (db_tables d')) = map r_id (notifications (db_tables d)) \<and>
    (\<forall>j. j \<notin> n_id ` set ns \<longrightarrow> row_at j (db_tables d') = row_at j (db_tables d)) \<and>
    list_all2 (\<lambda>n n'. n' = n\<lparr>n_status := n_status n'\<rparr> \<and>
      (agrees n (db_tables d) \<longrightarrow> agrees n' (db_tables d'))) ns ns'"
  using assms
proof (induction ns arbitrary: k d q ns')
  case (Cons n ns)
  obtain n1 d1 q1 where one: "enqueue_new producer (clock (Suc k)) n d q = (n1, d1, q1)"
    by (metis surj_pair)
  obtain ns1 where rest: "enqueue_loop producer clock (Suc k) ns d1 q1 = (ns1, d', q')"
    and ns': "ns' = n1 # ns1"
    using Cons.prems(2) one by (auto split: prod.splits)
  note keep = enqueue_new_keeps [OF Cons.prems(1) one]
  note ih = Cons.IH [OF keep(2) rest]
  have d: "distinct (map n_id ns)" "n_id n \<notin> n_id ` set ns" using Cons.prems(3) by auto
  have "n1 = n\<lparr>n_status := n_status n1\<rparr>" using enqueue_new_fields [OF one] by auto
  moreover have "agrees n (db_tables d) \<Longrightarrow> agrees n1 (db_tables d')"
    using keep(1,5) ih [OF d(1)] d(2) agrees_same [of n1 "db_tables d'" "db_tables d1"] by simp
  moreover have "agrees x (db_tables d1) = agrees x (db_tables d)" if "x \<in> set ns" for x
    using keep(4) d(2) that by (intro agrees_same) (metis imageI)
  moreover have "list_all2 (\<lambda>n n'. n' = n\<lparr>n_status := n_status n'\<rparr> \<and>
      (agrees n (db_tables d) \<longrightarrow> agrees n' (db_tables d'))) ns ns1"
    using ih [OF d(1)] calculation(3) by (auto elim!: list.rel_mono_strong)
  ultimately show ?case using ih [OF d(1)] keep(3,4) ns' by auto
qed simp

lemma prepare_loop_requests:
  "prepare_loop L m b k reqs d = (Inr ns, d') \<Longrightarrow> no_faults d' = no_faults d \<and>
    list_all2 (\<lambda>req n. n_batch_id n = Some b \<and> n_channel n = q_channel req \<and>
      n_priority n = q_priority req \<and> n_recipient n = q_recipient req \<and>
      n_last_error n = '''' \<and> n_delivered_at n = None \<and>
      content_ok L (n_channel n) (n_recipient n) (n_subject n) (n_body n)) reqs ns"
proof (induction reqs arbitrary: k d ns)
  case (Cons req reqs)
  then obtain n ns' d1 where ns: "ns = n # ns'" and one: "prepare_one L m b k req d = (Inr n, d1)"
      and rest: "prepare_loop L m b (Suc k) reqs d1 = (Inr ns', d')"
    using prepare_loop_Cons [OF Cons.prems] by blast
  obtain n0 where fill: "fill_template L (at_index ''template'' k) (at_index ''template render'' k)
        req (request_notification m (Some b) req) d = (Inr n0, d1)" and n: "n = set_initial_status req n0"
    using one by (auto simp: prepare_one_def split: prod.splits sum.splits option.splits if_splits)
  have "n_batch_id n0 = Some b"
    using fill by (auto simp: fill_template_def request_notification_def Let_def
        split: option.splits prod.splits sum.splits if_splits)
  then have "n_batch_id n = Some b" by (simp add: n set_initial_status_def split: option.splits)
  then show ?case
    using Cons.IH [OF rest] prepare_one_ok(2) [OF one] fill_template_fresh [OF fill]
      fill_template_no_faults [OF fill] by (simp add: ns n)
qed simp

lemma prepare_one_no_faults: "no_faults (snd (prepare_one L m b k req d)) = no_faults d"
  using fill_template_faults [of L "at_index ''template'' k" "at_index ''template render'' k" req
      "request_notification m (Some b) req" d]
  by (auto simp: prepare_one_def no_faults_def simp del: fill_template_faults
      split: prod.splits sum.splits option.splits)

lemma prepare_loop_no_faults:
  "prepare_loop L m b k reqs d = (res, d') \<Longrightarrow> no_faults d' = no_faults d"
proof (induction reqs arbitrary: k d res d')
  case (Cons req reqs)
  obtain r1 d1 where one: "prepare_one L m b k req d = (r1, d1)" by (metis surj_pair)
  obtain r2 d2 where rest: "prepare_loop L m b (Suc k) reqs d1 = (r2, d2)" by (metis surj_pair)
  show ?case
    using Cons.prems Cons.IH [OF rest] prepare_one_no_faults [of L m b k req d] one rest
    by (auto split: sum.splits)
qed simp

lemma batch_stamped_all2:
  assumes "list_all2 P xs ns" "\<And>x n i. P x n \<Longrightarrow> Q x (stamped now i n)"
  shows "list_all2 Q xs (batch_stamped now ids k ns)"
  using assms(1) by (induction arbitrary: k rule: list_all2_induct) (simp_all add: assms(2))

lemma notification_status_frame:
  "n' = n\<lparr>n_status := n_status n'\<rparr> \<Longrightarrow> n_id n' = n_id n \<and> n_batch_id n' = n_batch_id n \<and>
     n_channel n' = n_channel n \<and> n_priority n' = n_priority n \<and> n_recipient n' = n_recipient n \<and>
     n_subject n' = n_subject n \<and> n_body n' = n_body n"
  by (metis notification.ext_inject notification.surjective notification.update_convs(11))

lemma same_ids:
  assumes "list_all2 (\<lambda>n n'. n' = n\<lparr>n_status := n_status n'\<rparr> \<and> P n n') ns ns'"
  shows "map n_id ns' = map n_id ns"
  using assms by (induction rule: list_all2_induct) (auto dest: notification_status_frame)

lemma CreateBatch_result:
  assumes "no_faults d" "distinct (map r_id (notifications (db_tables d)))"
    and "NotificationService_CreateBatch L producer m clock b ids reqs d q = (res, d', q')"
  shows "case res of
      Inl e \<Rightarrow> db_tables d' = db_tables d \<and> q' = q
    | Inr ns \<Rightarrow> length reqs \<le> 1000 \<and> map n_id ns = map ids [0..<length reqs] \<and>
        map r_id (notifications (db_tables d')) = map r_id (notifications (db_tables d)) @ map n_id ns \<and>
        distinct (map r_id (notifications (db_tables d'))) \<and>
        list_all2 (\<lambda>req n. n_batch_id n = Some b \<and> n_channel n = q_channel req \<and>
          n_priority n = q_priority req \<and> n_recipient n = q_recipient req \<and>
          content_ok L (n_channel n) (n_recipient n) (n_subject n) (n_body n) \<and>
          agrees n (db_tables d')) reqs ns \<and>
        (\<forall>j. j \<notin> n_id ` set ns \<longrightarrow> row_at j (db_tables d') = row_at j (db_tables d))"
proof -
  obtain r0 d0 where prep: "prepare_loop L m b 0 reqs d = (r0, d0)" by (metis surj_pair)
  have t0: "db_tables d0 = db_tables d" using prepare_loop_tables [OF prep] .
  show ?thesis
  proof (cases res)
    case (Inr ns)
    obtain ns0 d1 ns1 where r0: "r0 = Inr ns0"
      and create: "repo_CreateBatch (clock 0) ids ns0 d0 = (Inr ns1, d1)"
      and enq: "enqueue_loop producer clock 0 ns1 d1 q = (ns, d', q')" and len: "length reqs \<le> 1000"
      using assms(3) prep Inr
      by (auto simp: NotificationService_CreateBatch_def split: option.splits if_splits prod.splits sum.splits)
    have d0: "no_faults d0" and reqs: "list_all2 (\<lambda>req n. n_batch_id n = Some b \<and>
        n_channel n = q_channel req \<and> n_priority n = q_priority req \<and>
        n_recipient n = q_recipient req \<and> n_last_error n = '''' \<and> n_delivered_at n = None \<and>
        content_ok L (n_channel n) (n_recipient n) (n_subject n) (n_body n)) reqs ns0"
      using prepare_loop_requests [OF prep [unfolded r0]] assms(1) by simp_all
    let ?ns1 = "batch_stamped (clock 0) ids 0 ns0"
    have ns1: "ns1 = ?ns1" and t1: "notifications (db_tables d1) = notifications (db_tables d) @ map insert_row ?ns1"
      and dist: "distinct (map r_id (notifications (db_tables d1)))"
      using repo_CreateBatch_rows [OF create] assms(2) t0 by auto
    have ids: "map n_id ns1 = map ids [0..<length reqs]"
      using list_all2_lengthD [OF reqs] batch_stamped_ids [of "clock 0" ids 0 ns0] by (simp add: ns1)
    note d1 = repo_CreateBatch_no_faults(1) [OF d0 create]
    have "distinct (map n_id ns1)" using dist by (simp add: t1 ns1 comp_def)
    note keep = enqueue_loop_keeps [OF d1 enq this]
    have agree: "agrees n (db_tables d1)" if "n \<in> set ns1" "n_last_error n = ''''" "n_delivered_at n = None" for n
      using find_row_unique [OF dist, of "insert_row n"] that
      by (intro agrees_insert) (auto simp: row_at_def t1 ns1)
    have new: "list_all2 (\<lambda>req n. n_batch_id n = Some b \<and> n_channel n = q_channel req \<and>
        n_priority n = q_priority req \<and> n_recipient n = q_recipient req \<and>
        content_ok L (n_channel n) (n_recipient n) (n_subject n) (n_body n) \<and>
        n_last_error n = '''' \<and> n_delivered_at n = None) reqs ns1"
      unfolding ns1 using reqs by (rule batch_stamped_all2) (auto simp: stamped_def)
    have "list_all2 (\<lambda>req n. n_batch_id n = Some b \<and> n_channel n = q_channel req \<and>
        n_priority n = q_priority req \<and> n_recipient n = q_recipient req \<and>
        content_ok L (n_channel n) (n_recipient n) (n_subject n) (n_body n) \<and>
        agrees n (db_tables d1)) reqs ns1"
      using new by (rule list.rel_mono_strong) (auto simp: agree)
    moreover have "list_all2 (\<lambda>n n'. n' = n\<lparr>n_status := n_status n'\<rparr> \<and>
      (agrees n (db_tables d1) \<longrightarrow> agrees n' (db_tables d'))) ns1 ns"
      using keep by blast
    ultimately have final: "list_all2 (\<lambda>req n. n_batch_id n = Some b \<and> n_channel n = q_channel req \<and>
        n_priority n = q_priority req \<and> n_recipient n = q_recipient req \<and>
        content_ok L (n_channel n) (n_recipient n) (n_subject n) (n_body n) \<and>
        agrees n (db_tables d')) reqs ns"
      by (rule list_all2_trans [rotated]) (elim conjE, frule notification_status_frame, simp)
    have ids': "map n_id ns = map n_id ns1"
      by (rule same_ids [OF conjunct2 [OF conjunct2 [OF keep]]])
    have same: "row_at j (db_tables d') = row_at j (db_tables d)" if "j \<notin> n_id ` set ns" for j
    proof -
      have j: "j \<notin> n_id ` set ns1" using that ids' by (metis set_map)
      then have "find_row r_id j (map insert_row ?ns1) = None" by (auto simp: find_row_None ns1)
      then have "row_at j (db_tables d1) = row_at j (db_tables d)"
        by (simp add: row_at_def t1 find_row_append split: option.splits)
      then show ?thesis using keep j by simp
    qed
    show ?thesis
      using len ids ids' final same keep dist by (simp add: Inr t1 ns1 comp_def)
  next
    case (Inl e)
    then show ?thesis
      using assms(1,3) prep t0 prepare_loop_no_faults [OF prep] repo_CreateBatch_no_faults(2) [of d0 "clock 0" ids]
      by (auto simp: NotificationService_CreateBatch_def split: option.splits if_splits prod.splits sum.splits)
  qed
qed

text \<open>
  Property C16. The batch operation of the service is all or nothing: on success every request has its
  notification, in order, under the batch identifier, valid for its channel, stored as one new
  row that agrees with what is returned, and no other row has changed; at most a thousand are
  accepted. On failure the tables and the queue are as before.
\<close>

theorem CreateBatch_all_or_nothing:
  assumes "no_faults d" "distinct (map r_id (notifications (db_tables d)))"
    and "NotificationService_CreateBatch L producer m clock b ids reqs d q = (res, d', q')"
  shows "case res of
      Inl e \<Rightarrow> db_tables d' = db_tables d \<and> q' = q
    | Inr ns \<Rightarrow> length reqs \<le> 1000 \<and> map n_id ns = map ids [0..<length reqs] \<and>
        map r_id (notifications (db_tables d')) = map r_id (notifications (db_tables d)) @ map n_id ns \<and>
        distinct (map r_id (notifications (db_tables d'))) \<and>
        list_all2 (\<lambda>req n. n_batch_id n = Some b \<and> n_channel n = q_channel req \<and>
          n_priority n = q_priority req \<and> n_recipient n = q_recipient req \<and>
          content_ok L (n_channel n) (n_recipient n) (n_subject n) (n_body n) \<and>
          agrees n (db_tables d')) reqs ns \<and>
        (\<forall>j. j \<notin> n_id ` set ns \<longrightarrow> row_at j (db_tables d') = row_at j (db_tables d))"
  using CreateBatch_result [OF assms] .

theorem CreateBatch_all_or_nothing_witness:
  "\<exists>ns d' q'. NotificationService_CreateBatch example_lib (Some (Enqueue example_lib redis_ref)) 5
       (\<lambda>k. int k) 3 (\<lambda>k. of_nat k + 1) [demo_request None] (demo_db []) ref_empty = (Inr ns, d', q') \<and>
     map n_id ns = [1] \<and> map r_id (notifications (db_tables d')) = [1]"
proof -
  obtain ns d' q' where c: "NotificationService_CreateBatch example_lib
      (Some (Enqueue example_lib redis_ref)) 5 (\<lambda>k. int k) 3 (\<lambda>k. of_nat k + 1) [demo_request None]
      (demo_db []) ref_empty = (Inr ns, d', q')"
    using demo_batch_created by metis
  show ?thesis using CreateBatch_all_or_nothing [OF demo_faultless _ c] c by simp
qed

end
