(* ===== verification/Streams.thy ===== *)
theory Streams
  imports Dispatcher
begin

text \<open>
  What the program does to Redis, as steps on the view of its state: it appends an entry under a
  new id, acknowledges, or changes sorted sets; only reading moves entries from unread to pending.
  Every operation is a path of these steps, with the acknowledgements it may make, so that what
  the steps keep is kept by every handler, worker and scheduler.
\<close>

section \<open>Steps on the view\<close>

inductive view_step :: "(string \<times> string) set \<Rightarrow> view \<Rightarrow> view \<Rightarrow> bool"
  for acks :: "(string \<times> string) set" where
  step_add: "i \<notin> fst ` set (v_log v k) \<Longrightarrow> entry_ok (i, f) \<Longrightarrow> view_step acks v (view_xadd k (i, f) v)"
| step_ack: "(k, i) \<in> acks \<Longrightarrow> view_step acks v (view_xack k i v)"
| step_zset: "view_step acks v (v\<lparr>v_zset := z\<rparr>)"

abbreviation view_steps :: "(string \<times> string) set \<Rightarrow> view \<Rightarrow> view \<Rightarrow> bool" where
  "view_steps acks \<equiv> (view_step acks)\<^sup>*\<^sup>*"

lemma view_steps_trans: "view_steps acks u v \<Longrightarrow> view_steps acks v w \<Longrightarrow> view_steps acks u w"
  by (rule rtranclp_trans)

lemma view_zset_same: "v_log v = v_log u \<Longrightarrow> v_unread v = v_unread u \<Longrightarrow> v_pending v = v_pending u \<Longrightarrow>
    view_step acks u v"
  using step_zset [of acks u "v_zset v"] by (cases u; cases v) simp

lemma view_zset_steps:
  "view_step acks v (view_zadd k m s v)" "view_step acks v (view_zrem k ms v)"
  by (simp_all add: view_zset_same view_defs)

lemma view_steps_mono: "acks \<subseteq> acks' \<Longrightarrow> view_steps acks v w \<Longrightarrow> view_steps acks' v w"
  by (erule rtranclp_mono [THEN predicate2D, rotated])
    (auto elim!: view_step.cases intro: view_step.intros)

lemma steps_readable: "view_steps acks v w \<Longrightarrow> streams_ok v \<Longrightarrow> streams_ok w"
proof (induction rule: rtranclp_induct)
  case (step u w)
  have "streams_ok u" using step by blast
  with step.hyps(2) show ?case
    by cases (simp_all add: streams_ok_xadd streams_ok_xack, simp add: streams_ok_def)
qed

section \<open>Whatever the producer keeps, its clients keep\<close>

text \<open>
  Any predicate on the Redis state that the producer keeps is kept by the services that call it.
\<close>

definition keeps :: "('q \<Rightarrow> bool) \<Rightarrow> 'q producer \<Rightarrow> bool" where
  "keeps J enqueue \<longleftrightarrow> (\<forall>u ch p q. J q \<longrightarrow> J (snd (enqueue u ch p q)))"

lemma keepsD: "keeps J enqueue \<Longrightarrow> J q \<Longrightarrow> enqueue u ch p q = (e, q') \<Longrightarrow> J q'"
  unfolding keeps_def by (metis snd_conv)

lemma keeps_enqueue_new:
  "keeps J enqueue \<Longrightarrow> J q \<Longrightarrow> enqueue_new (Some enqueue) now n d q = (n', d', q') \<Longrightarrow> J q'"
  by (auto simp: enqueue_new_def split: if_splits prod.splits option.splits dest: keepsD)

lemma keeps_enqueue_loop:
  "keeps J enqueue \<Longrightarrow> J q \<Longrightarrow> enqueue_loop (Some enqueue) clock k ns d q = (ns', d', q') \<Longrightarrow> J q'"
proof (induction ns arbitrary: k d q ns' d' q')
  case (Cons n ns)
  obtain n1 d1 q1 where one: "enqueue_new (Some enqueue) (clock (Suc k)) n d q = (n1, d1, q1)"
    by (metis surj_pair)
  then show ?case
    using Cons.IH [OF Cons.prems(1) keeps_enqueue_new [OF Cons.prems(1,2) one]] Cons.prems(3)
    by (auto split: prod.splits)
qed simp

lemma keeps_Create:
  assumes "keeps J enqueue" "J q"
    and "NotificationService_Create L (Some enqueue) m clock i req d q = (res, d', q')"
  shows "J q'"
  using assms
  by (auto simp: NotificationService_Create_def dest: keeps_enqueue_new
      split: option.splits if_splits prod.splits sum.splits)

lemma keeps_CreateBatch:
  assumes "keeps J enqueue" "J q"
    and "NotificationService_CreateBatch L (Some enqueue) m clock b ids reqs d q = (res, d', q')"
  shows "J q'"
  using assms
  by (auto simp: NotificationService_CreateBatch_def dest: keeps_enqueue_loop
      split: option.splits if_splits prod.splits sum.splits)

lemma keeps_fold: "(\<And>x q. J q \<Longrightarrow> J (f x q)) \<Longrightarrow> J q \<Longrightarrow> J (fold f xs q)"
  by (induction xs arbitrary: q) auto


section \<open>Every operation is a path\<close>

lemma up_pair: "fst p = None \<Longrightarrow> p = (None, snd p)"
  by (metis prod.collapse)

context redis_service
begin

lemma steps_Enqueue:
  assumes "redis_up R"
  shows "view_steps acks (view_of r) (view_of (snd (Enqueue L R u ch p r)))"
proof -
  obtain i r' where x: "xadd R (StreamKey p) [(''notification_id'', uuid_String L u), (''channel'', ch)] r
      = (Inr i, r')"
    using assms unfolding redis_up_def by metis
  then show ?thesis using xadd_law [OF x] by (auto simp: Enqueue_def Let_def intro!: step_add)
qed

lemma steps_keeps:
  "redis_up R \<Longrightarrow> keeps (\<lambda>r. view_steps acks v (view_of r)) (Enqueue L R)"
  unfolding keeps_def using steps_Enqueue view_steps_trans by blast

lemma steps_EnqueueDelayed:
  "redis_up R \<Longrightarrow> view_steps acks (view_of r) (view_of (snd (EnqueueDelayed L R u ch p s r)))"
  using EnqueueDelayed_ok [OF up_pair [OF EnqueueDelayed_up]] view_zset_steps(1) by force

lemma steps_DLQ_Push:
  assumes "redis_up R"
  shows "view_steps acks (view_of r) (view_of (snd (DLQ_Push L R u ch e r)))"
proof -
  obtain i r' where x: "xadd R DLQStream [(''notification_id'', uuid_String L u), (''channel'', ch),
      (''error'', e)] r = (Inr i, r')"
    using assms unfolding redis_up_def by metis
  then show ?thesis using xadd_law [OF x] by (auto simp: DLQ_Push_def intro!: step_add)
qed

lemma steps_Ack:
  "redis_up R \<Longrightarrow> (k, i) \<in> acks \<Longrightarrow> view_steps acks (view_of r) (view_of (snd (Ack R k i r)))"
  using Ack_ok [OF up_pair [OF Ack_up]] step_ack by force

lemma steps_rate_wait:
  "redis_up R \<Longrightarrow> rate_wait R l ch turns r = (x, r') \<Longrightarrow> view_steps acks (view_of r) (view_of r')"
proof (induction turns arbitrary: r)
  case (Cons turn turns)
  obtain clock rnd c where turn: "turn = (clock, rnd, c)" by (cases turn)
  obtain ok r1 where a: "Allow R l ch clock rnd r = (Inr ok, r1)"
    using Allow_up [OF Cons.prems(1)] by blast
  then have "view_step acks (view_of r) (view_of r1)"
    by (intro view_zset_same) (rule Allow_frame, assumption)+
  then show ?case
    using Cons.IH [OF Cons.prems(1)] Cons.prems(2) a
    by (auto simp: turn split: bool.splits if_splits intro: converse_rtranclp_into_rtranclp)
qed simp

lemma steps_processMessage:
  assumes "d_redis D = R" "redis_up R"
  shows "view_steps {(m_stream_id msg, m_message_id msg)} (view_of (w_redis w))
    (view_of (w_redis (processMessage D turns clock aid msg w)))"
proof -
  note trans = view_steps_trans [OF _ steps_Ack [OF assms(2)]] view_steps_trans [OF _ steps_DLQ_Push [OF assms(2)]]
    view_steps_trans [OF _ steps_EnqueueDelayed [OF assms(2)]]
  obtain x r where wait: "rate_wait R (d_limiter D) (m_channel msg) turns (w_redis w) = (x, r)"
    by (metis surj_pair)
  show ?thesis
    using steps_rate_wait [OF assms(2) wait] wait
    by (auto simp: processMessage_def process_fetched_def deliver_def on_success_def on_failure_def
        schedule_retry_def give_up_def Let_def assms(1) steps_Ack [OF assms(2)]
        split: prod.splits option.splits wait.splits sum.splits intro!: trans)
qed

lemma steps_PopDelayedDue:
  assumes "redis_up R" "PopDelayedDue R now c r = (x, r')"
  shows "view_steps acks (view_of r) (view_of r')"
proof -
  obtain ms r1 where z: "zrangebyscore R delayed_key now c r = (Inr ms, r1)"
    using assms(1) unfolding redis_up_def by metis
  obtain r2 where rem: "zrem R delayed_key ms r1 = (None, r2)"
    using assms(1) unfolding redis_up_def by metis
  have "r' = r1 \<or> r' = r2"
    using assms(2) by (auto simp: PopDelayedDue_def pop_fetch_def pop_remove_def z rem)
  then show ?thesis
    using zrange_law [OF z] zrem_law [OF rem] view_zset_steps(2) by auto
qed

lemma steps_fold:
  "(\<And>x r. view_steps acks (view_of r) (view_of (f x r))) \<Longrightarrow>
     view_steps acks (view_of r) (view_of (fold f xs r))"
  by (induction xs arbitrary: r) (auto intro: view_steps_trans)

lemma steps_processDelayedBatch:
  assumes "d_redis D = R" "redis_up R"
  shows "view_steps acks (view_of r) (view_of (processDelayedBatch D now r))"
proof -
  have "view_steps acks (view_of q) (view_of (reenqueue D member q))" for member q
    using steps_Enqueue [OF assms(2)] by (auto simp: reenqueue_def Let_def assms(1) split: option.splits)
  note batch = view_steps_trans [OF _ steps_fold [of acks "reenqueue D", OF this]]
  obtain x r1 where pop: "PopDelayedDue R (UnixMilli now) 50 r = (x, r1)" by (metis surj_pair)
  show ?thesis
    using steps_PopDelayedDue [OF assms(2) pop] batch pop
    by (auto simp: processDelayedBatch_def assms(1) split: sum.splits)
qed

lemma steps_poll:
  assumes "redis_up R" "Scheduler_poll L R bsize locked now d r = (d', r')"
  shows "view_steps acks (view_of r) (view_of r')"
proof -
  have "view_steps acks (view_of q) (view_of (enqueue_due L R n q))" for n q
    using steps_Enqueue [OF assms(1)] by (simp add: enqueue_due_def)
  then show ?thesis
    using assms(2) steps_fold [of acks "enqueue_due L R"] by (auto simp: Scheduler_poll_def split: prod.splits sum.splits)
qed

lemma steps_Create:
  "redis_up R \<Longrightarrow> NotificationService_Create L (Some (Enqueue L R)) m clock i req d r = (res, d', r') \<Longrightarrow>
     view_steps acks (view_of r) (view_of r')"
  by (rule keeps_Create [OF steps_keeps]) auto

lemma steps_CreateBatch:
  "redis_up R \<Longrightarrow> NotificationService_CreateBatch L (Some (Enqueue L R)) m clock b ids reqs d r =
     (res, d', r') \<Longrightarrow> view_steps acks (view_of r) (view_of r')"
  by (rule keeps_CreateBatch [OF steps_keeps]) auto

end

section \<open>Reading\<close>

lemma view_xread_nothing:
  "\<forall>k \<in> set ks. v_unread v k = [] \<Longrightarrow> view_xread ks c v = v"
proof -
  assume "\<forall>k \<in> set ks. v_unread v k = []"
  then have "(\<lambda>k. if k \<in> set ks then drop (nat c) (v_unread v k) else v_unread v k) = v_unread v"
    "(\<lambda>k. if k \<in> set ks then v_pending v k @ take (nat c) (v_unread v k) else v_pending v k) = v_pending v"
    by auto
  then show ?thesis by (simp add: view_xread_def)
qed

lemma concat_filter_Nil: "(\<And>k. \<not> P k \<Longrightarrow> f k = []) \<Longrightarrow> concat (map f (filter P ks)) = concat (map f ks)"
  by (induction ks) auto

definition oldest_messages :: "int \<Rightarrow> view \<Rightarrow> string \<Rightarrow> message list" where
  "oldest_messages c v k = map (the \<circ> to_message k) (take (nat c) (v_unread v k))"

context redis_service
begin

lemma ReadMessages_reads:
  assumes "streams_ok (view_of r)" "0 < c"
    and "ReadMessages R cn c b r = (Some (Inr ms), r')"
  shows "ms = concat (map (oldest_messages c (view_of r)) priority_streams) \<and>
    view_of r' = view_xread priority_streams c (view_of r)"
proof -
  obtain res r1 where x: "xreadgroup R ConsumerGroup cn
      (priority_streams @ map (\<lambda>_. ''>'') priority_streams) c b r = (res, r1)" by (metis surj_pair)
  show ?thesis
  proof (cases res)
    case (Inl e)
    then have nil: "e = RedisNil" "ms = []" "r' = r1"
      using assms(3) x by (auto simp: ReadMessages_def Let_def split: redis_error.splits)
    then have "\<forall>k \<in> set priority_streams. v_unread (view_of r) k = []" "view_of r1 = view_of r"
      using xread_nil_law x Inl by blast+
    then show ?thesis
      using nil view_xread_nothing by (auto simp: oldest_messages_def)
  next
    case (Inr results)
    then have view: "results = view_read priority_streams c (view_of r)" "view_of r1 = view_xread priority_streams c (view_of r)"
      using xread_law x assms(2) distinct_priority_streams by blast+
    have "to_messages k (take (nat c) (v_unread (view_of r) k)) = Some (oldest_messages c (view_of r) k)" for k
      unfolding oldest_messages_def using assms(1) in_set_takeD
      by (intro to_messages_ok) (fastforce simp: streams_ok_def)
    then have "those (map (\<lambda>(s, es). to_messages s es) results) =
        Some (map (oldest_messages c (view_of r)) (filter (\<lambda>k. v_unread (view_of r) k \<noteq> []) priority_streams))"
      by (simp add: view(1) view_read_def comp_def those_map_Some)
    then have "ms = concat (map (oldest_messages c (view_of r))
        (filter (\<lambda>k. v_unread (view_of r) k \<noteq> []) priority_streams))" "r' = r1"
      using assms(3) x Inr by (simp_all add: ReadMessages_def Let_def)
    moreover have "concat (map (oldest_messages c (view_of r))
        (filter (\<lambda>k. v_unread (view_of r) k \<noteq> []) priority_streams)) =
      concat (map (oldest_messages c (view_of r)) priority_streams)"
      by (rule concat_filter_Nil) (simp add: oldest_messages_def)
    ultimately show ?thesis using view(2) by simp
  qed
qed

end

end
