(* ===== verification/System.thy ===== *)
theory System
  imports Creation Streams
begin

text \<open>
  The program as a transition system. A step is one API call, one message read or handled by a
  worker, one turn of the delayed-retry processor, one poll of the scheduler or one socket
  subscription; between steps anything may happen in any order. Every step is shown to be a path of
  statement steps (theory History), and to keep the streams readable.
\<close>

section \<open>Steps of the program\<close>

inductive sys_step :: "'r dispatcher \<Rightarrow> int \<Rightarrow> 'r world \<Rightarrow> 'r world \<Rightarrow> bool"
  for D :: "'r dispatcher" and m :: int where
  sys_create: "NotificationService_Create (d_lib D) (Some (Enqueue (d_lib D) (d_redis D))) m clock i
      req (w_db w) (w_redis w) = (res, d, q) \<Longrightarrow> sys_step D m w (w\<lparr>w_db := d, w_redis := q\<rparr>)"
| sys_create_batch: "NotificationService_CreateBatch (d_lib D) (Some (Enqueue (d_lib D) (d_redis D))) m
      clock b ids reqs (w_db w) (w_redis w) = (res', d, q) \<Longrightarrow>
      sys_step D m w (w\<lparr>w_db := d, w_redis := q\<rparr>)"
| sys_cancel: "sys_step D m w (w\<lparr>w_db := snd (NotificationService_Cancel now i (w_db w))\<rparr>)"
| sys_get: "sys_step D m w (w\<lparr>w_db := snd (NotificationService_GetByID i (w_db w))\<rparr>)"
| sys_list: "sys_step D m w (w\<lparr>w_db := snd (NotificationService_List f (w_db w))\<rparr>)"
| sys_attempts: "sys_step D m w (w\<lparr>w_db := snd (NotificationService_GetDeliveryAttempts i (w_db w))\<rparr>)"
| sys_template_create: "sys_step D m w
      (w\<lparr>w_db := snd (TemplateService_Create (d_lib D) now i treq (w_db w))\<rparr>)"
| sys_template_get: "sys_step D m w (w\<lparr>w_db := snd (TemplateService_GetByID i (w_db w))\<rparr>)"
| sys_template_list: "sys_step D m w (w\<lparr>w_db := snd (TemplateService_List rank (w_db w))\<rparr>)"
| sys_template_update: "sys_step D m w
      (w\<lparr>w_db := snd (TemplateService_Update (d_lib D) now i ureq (w_db w))\<rparr>)"
| sys_template_delete: "sys_step D m w (w\<lparr>w_db := snd (TemplateService_Delete i (w_db w))\<rparr>)"
| sys_read: "sys_step D m w (w\<lparr>w_redis := snd (ReadMessages (d_redis D) cn 1 blocktime (w_redis w))\<rparr>)"
| sys_process: "sys_step D m w (processMessage D turns clock aid msg w)"
| sys_delayed: "sys_step D m w (w\<lparr>w_redis := processDelayedBatch D now (w_redis w)\<rparr>)"
| sys_poll: "Scheduler_poll (d_lib D) (d_redis D) bsize locked now (w_db w) (w_redis w) = (d, q) \<Longrightarrow>
      sys_step D m w (w\<lparr>w_db := d, w_redis := q\<rparr>)"
| sys_socket: "sys_step D m w (w\<lparr>w_hub := hub_apply e (w_hub w)\<rparr>)"

context tables_invariant
begin

lemma inv_pg_read:
  "(\<And>t. snd (q t) = t) \<Longrightarrow> I (db_tables d) \<Longrightarrow> I (db_tables (snd (pg_query q d)))"
  using inv_query [of d q] by simp

lemma inv_reads:
  assumes "I (db_tables d)"
  shows "I (db_tables (snd (repo_List f d)))" "I (db_tables (snd (repo_GetDeliveryAttempts i d)))"
    "I (db_tables (snd (tmpl_repo_List rank d)))"
  using inv_pg_read [of "sql_list_notifications f (effective_limit (f_limit f) + 1)" d]
    inv_pg_read [of "sql_select_attempts i" d] inv_pg_read [of "sql_list_templates rank" d] assms
  by (auto simp: repo_List_def repo_GetDeliveryAttempts_def tmpl_repo_List_def Let_def
      sql_list_notifications_def sql_select_attempts_def sql_list_templates_def
      split: prod.splits sum.splits)

lemma inv_GetDeliveryAttempts:
  assumes "I (db_tables d)"
  shows "I (db_tables (snd (NotificationService_GetDeliveryAttempts i d)))"
proof -
  have "I (db_tables d1)" if "repo_GetByID i d = (x, d1)" for x d1
    using inv_repo_GetByID [OF assms, of i] that by simp
  then show ?thesis
    by (auto simp: NotificationService_GetDeliveryAttempts_def intro: inv_reads
        split: prod.splits sum.splits)
qed

lemma inv_sys_step:
  assumes "sys_step D m w w'" "I (db_tables (w_db w))"
  shows "I (db_tables (w_db w'))"
  using assms
proof cases
  case (sys_poll bsize locked now d q)
  have "I (db_tables (fst (d, q)))"
    using inv_Scheduler_poll [OF assms(2)] sys_poll(2) by metis
  then show ?thesis using sys_poll(1) by simp
qed (auto simp: assms(2) NotificationService_GetByID_def NotificationService_List_def
    TemplateService_GetByID_def TemplateService_List_def TemplateService_Delete_def
    dest: inv_NotificationService_Create [OF assms(2)] inv_NotificationService_CreateBatch [OF assms(2)]
    intro: inv_NotificationService_Cancel inv_repo_GetByID inv_reads inv_GetDeliveryAttempts
      inv_TemplateService_Create inv_TemplateService_Update inv_tmpl_repo_Delete inv_processMessage)

lemma inv_sys_steps:
  "(sys_step D m)\<^sup>*\<^sup>* w w' \<Longrightarrow> I (db_tables (w_db w)) \<Longrightarrow> I (db_tables (w_db w'))"
  by (induction rule: rtranclp_induct) (blast intro: inv_sys_step)+

end

section \<open>Invariants and history\<close>

text \<open>
  Property C9. Whatever the program does to the tables is a sequence of its SQL statements: every
  run of API calls, handled messages and polls, with any database faults (refused statements,
  lost answers, broken connections), is a path of statement steps.
\<close>

theorem system_refines_statements:
  assumes "(sys_step D m)\<^sup>*\<^sup>* w w'"
  shows "db_step\<^sup>*\<^sup>* (db_tables (w_db w)) (db_tables (w_db w'))"
  by (rule path.inv_sys_steps [OF assms]) simp

lemma demo_cancel_step:
  "(sys_step (demo_dispatcher ok) 5)\<^sup>*\<^sup>* (demo_world rows)
     ((demo_world rows)\<lparr>w_db := snd (NotificationService_Cancel 3 1 (demo_db rows))\<rparr>)"
  using sys_cancel [of "demo_dispatcher ok" 5 "demo_world rows" 3 1] by auto

theorem system_refines_statements_witness:
  "db_step\<^sup>*\<^sup>* (demo_tables [demo_row 0 ''queued''])
     (db_tables (snd (NotificationService_Cancel 3 1 (demo_db [demo_row 0 ''queued'']))))"
  using system_refines_statements [OF demo_cancel_step [of True "[demo_row 0 ''queued'']"]] by simp

text \<open>
  Property C10. From an empty database every reachable state of the tables is consistent: identifiers,
  idempotency keys and template names are unique; every row holds values of the schema, a
  delivered row has a delivery time and a scheduled row a time to send it at; attempts belong to
  stored notifications and notifications to stored templates.
\<close>

theorem system_tables_consistent:
  assumes "(sys_step D m)\<^sup>*\<^sup>* w w'" "db_tables (w_db w) = no_tables"
  shows "keys_unique (db_tables (w_db w')) \<and> rows_ok (db_tables (w_db w')) \<and>
    references_ok (db_tables (w_db w'))"
  using keys.inv_sys_steps [OF assms(1)] rows.inv_sys_steps [OF assms(1)]
    refs.inv_sys_steps [OF assms(1)] no_tables_ok assms(2) by (simp add: references_inv_def)

theorem system_tables_consistent_witness:
  "keys_unique (db_tables (snd (NotificationService_Cancel 3 1 (demo_db []))))"
  using system_tables_consistent [OF demo_cancel_step [of True "[]"]]
  by (simp add: no_tables_def demo_tables_def)

text \<open>
  Property C11. The history of a stored notification, at the granularity of single statements and so
  under any interleaving of handlers and workers: it never disappears; its content, keys, channel,
  priority, retry limit and times of creation and schedule never change; its attempt counter never
  decreases; a delivery time is never erased; it never becomes scheduled again, and pending only
  from scheduled; and it becomes cancelled only from pending, scheduled or queued.
\<close>

theorem notification_history:
  assumes "db_reachable t" "db_step\<^sup>*\<^sup>* t t1" "db_step t1 t2" "row_at i t = Some r"
  shows "\<exists>r1 r2. row_at i t1 = Some r1 \<and> row_at i t2 = Some r2 \<and>
    row_later r r1 \<and> row_later r1 r2 \<and>
    (r_status r2 = StatusCancelled \<longrightarrow> r_status r1 = StatusCancelled \<or> cancellable (r_status r1))"
proof -
  have k: "keys_unique t" using reachable_ok(1) [OF assms(1)] .
  obtain r1 where r1: "row_at i t1 = Some r1" "row_step\<^sup>*\<^sup>* r r1"
    using row_history [OF assms(2) k assms(4)] by blast
  have "keys_unique t1" using keys.inv_db_steps [OF assms(2) k] .
  then obtain r2 where r2: "row_at i t2 = Some r2" "row_step r1 r2"
    using row_at_step [OF assms(3) _ r1(1)] by blast
  have "r_status r2 = StatusCancelled \<longrightarrow> r_status r1 = StatusCancelled \<or> cancellable (r_status r1)"
    using r2(2) by (auto elim!: row_stepE simp: worker_status_def source_consts)
  then show ?thesis
    using r1 r2 row_steps_later row_step_later by blast
qed

lemma demo_insert:
  "snd (sql_insert_notification (demo_row 0 ''pending'') no_tables) = demo_tables [demo_row 0 ''pending'']"
  by (simp add: sql_insert_notification_def nrow_type_error_def demo_row_def no_tables_def
      demo_tables_def channel_type_def priority_type_def status_type_def varchar_ok_def
      char_count_def int4_ok_def opt_text_ok_def json_ok_def text_ok_ascii)

theorem notification_history_witness:
  "\<exists>r2. row_at 1 (snd (sql_cancel 7 1 (demo_tables [demo_row 0 ''pending'']))) = Some r2 \<and>
     row_later (demo_row 0 ''pending'') r2"
proof -
  have "fresh_row (demo_row 0 ''pending'')"
    by (simp add: fresh_row_def demo_row_def timestamptz_def)
  then have "db_step no_tables (demo_tables [demo_row 0 ''pending''])"
    using step_insert [of "demo_row 0 ''pending''" no_tables] demo_insert by simp
  then have "db_reachable (demo_tables [demo_row 0 ''pending''])"
    unfolding db_reachable_def by blast
  moreover have "row_at 1 (demo_tables [demo_row 0 ''pending'']) = Some (demo_row 0 ''pending'')"
    by (simp add: row_at_def)
  ultimately show ?thesis
    using notification_history [OF _ rtranclp.rtrancl_refl step_cancel] row_later_trans by blast
qed

section \<open>The streams stay readable\<close>

context redis_service
begin

lemma view_read_ok:
  "streams_ok v \<Longrightarrow> (k, es) \<in> set (view_read ks c v) \<Longrightarrow> e \<in> set es \<Longrightarrow> entry_ok e"
  by (auto simp: view_read_def streams_ok_def dest!: in_set_takeD)

lemma ReadMessages_total:
  assumes "redis_up R" "streams_ok (view_of r)" "0 < c" "ReadMessages R cn c b r = (x, r')"
  shows "x \<noteq> None \<and> streams_ok (view_of r')"
proof -
  obtain y r1 where read: "xreadgroup R ConsumerGroup cn
      (priority_streams @ map (\<lambda>_. ''>'') priority_streams) c b r = (y, r1)" by (metis surj_pair)
  show ?thesis
  proof (cases y)
    case (Inl e)
    moreover have "e = RedisNil"
      using assms(1) read Inl unfolding redis_up_def by (cases e) blast+
    ultimately show ?thesis
      using assms(2,4) read xread_nil_law [of cn priority_streams c b r r1]
      by (auto simp: ReadMessages_def)
  next
    case (Inr res)
    then have res: "res = view_read priority_streams c (view_of r)"
      and r1: "view_of r1 = view_xread priority_streams c (view_of r)"
      using xread_law [of cn priority_streams c b r res r1] read assms(3) by auto
    have "to_messages k es \<noteq> None" if "(k, es) \<in> set res" for k es
      using to_messages_ok [of es k] view_read_ok [OF assms(2)] that res by fastforce
    then have "those (map (\<lambda>(s, es). to_messages s es) res) \<noteq> None"
      using those_map_Some [of res "\<lambda>(s, es). to_messages s es"] by fastforce
    then show ?thesis
      using assms(2,4) read Inr r1 streams_ok_xread by (auto simp: ReadMessages_def)
  qed
qed

lemma readable_sys_step:
  assumes "sys_step D m w w'" "d_redis D = R" "redis_up R" "streams_ok (view_of (w_redis w))"
  shows "streams_ok (view_of (w_redis w'))"
  using assms(1)
proof cases
  case (sys_create clock i req res d q)
  then show ?thesis
    using steps_readable [OF steps_Create [OF assms(3)] assms(4)] assms(2) by simp
next
  case (sys_create_batch clock b ids reqs res d q)
  then show ?thesis
    using steps_readable [OF steps_CreateBatch [OF assms(3)] assms(4)] assms(2) by simp
next
  case (sys_read cn b)
  obtain x q where "ReadMessages R cn 1 b (w_redis w) = (x, q)" by (metis surj_pair)
  then show ?thesis
    using ReadMessages_total [OF assms(3,4), of 1 cn b x q] sys_read assms(2) by auto
next
  case (sys_poll bsize locked now d q)
  then show ?thesis
    using steps_readable [OF steps_poll [OF assms(3)] assms(4)] assms(2) by simp
next
  case (sys_process turns clock aid msg)
  then show ?thesis
    using steps_readable [OF steps_processMessage [OF assms(2,3)] assms(4)] by simp
next
  case (sys_delayed now)
  then show ?thesis
    using steps_readable [OF steps_processDelayedBatch [OF assms(2,3)] assms(4)] by simp
qed (use assms(4) in simp_all)

lemma readable_sys_steps:
  assumes "(sys_step D m)\<^sup>*\<^sup>* w w'" "d_redis D = R" "redis_up R" "streams_ok (view_of (w_redis w))"
  shows "streams_ok (view_of (w_redis w'))"
  using assms(1,4)
  by (induction rule: rtranclp_induct) (use readable_sys_step [OF _ assms(2,3)] in blast)+

end

text \<open>
  Reading messages never panics on what the program writes: over a Redis that is up
  and behaves as documented, from empty streams, after any run of the program every entry carries
  the two values that the consumer asserts to be strings, so the type assertions of
  \<open>ReadMessages\<close> succeed.
\<close>

theorem ReadMessages_never_panics:
  assumes "redis_service (d_redis D) V" "redis_up (d_redis D)"
    and "(sys_step D m)\<^sup>*\<^sup>* w w'" "V (w_redis w) = view_empty" "0 < count"
  shows "fst (ReadMessages (d_redis D) cn count blocktime (w_redis w')) \<noteq> None"
proof -
  have "streams_ok (V (w_redis w))" using assms(4) by (simp add: streams_ok_def view_empty_def)
  then have "streams_ok (V (w_redis w'))"
    using redis_service.readable_sys_steps [OF assms(1,3) refl assms(2)] by blast
  then show ?thesis
    using redis_service.ReadMessages_total [OF assms(1,2) _ assms(5)] by (metis prod.collapse)
qed

theorem ReadMessages_never_panics_witness:
  "fst (ReadMessages redis_ref ''worker-0'' 1 2000000000 (snd (Enqueue example_lib redis_ref 7 ''sms''
     ''high'' ref_empty))) \<noteq> None"
proof -
  let ?D = "demo_dispatcher True"
  have "Scheduler_poll (d_lib ?D) (d_redis ?D) 100 [] 5
      (demo_db [(demo_row 0 ''scheduled'')\<lparr>r_id := 7\<rparr>]) ref_empty =
    (fst (Scheduler_poll (d_lib ?D) (d_redis ?D) 100 [] 5 (demo_db [(demo_row 0 ''scheduled'')\<lparr>r_id := 7\<rparr>]) ref_empty),
     snd (Enqueue example_lib redis_ref 7 ''sms'' ''high'' ref_empty))"
    by (simp add: Scheduler_poll_def repo_FetchScheduledDue_def pg_query_faultless rows_seen_def
        sql_fetch_due_def due_selection_def due_row_def demo_row_def update_rows_def Let_def
        enqueue_due_def scanNotification_def demo_dispatcher_def)
  from sys_poll [of ?D 100 "[]" 5 "demo_world [(demo_row 0 ''scheduled'')\<lparr>r_id := 7\<rparr>]", simplified, OF this]
  have "(sys_step ?D 5)\<^sup>*\<^sup>* (demo_world [(demo_row 0 ''scheduled'')\<lparr>r_id := 7\<rparr>])
      ((demo_world [(demo_row 0 ''scheduled'')\<lparr>r_id := 7\<rparr>])\<lparr>w_db := fst (Scheduler_poll (d_lib ?D) (d_redis ?D)
         100 [] 5 (demo_db [(demo_row 0 ''scheduled'')\<lparr>r_id := 7\<rparr>]) ref_empty),
       w_redis := snd (Enqueue example_lib redis_ref 7 ''sms'' ''high'' ref_empty)\<rparr>)"
    by blast
  from ReadMessages_never_panics [OF _ _ this, of state_view 1 "''worker-0''" 2000000000]
  show ?thesis
    using ref.redis_service_axioms by (simp add: demo_dispatcher_def)
qed

end
