(* ===== verification/Cancellation.thy ===== *)
theory Cancellation
  imports System
begin

text \<open>
  Cancelling a notification and fetching the scheduled ones that are due: what the two
  conditional updates of the notification repository do to every row, what the scheduler puts on
  the queue, and which notifications nothing will ever put there.
\<close>

section \<open>Cancel\<close>

lemma find_unique:
  assumes "distinct (map r_id rows)"
  shows "find (\<lambda>r. r_id r = i \<and> P r) rows =
    (case find_row r_id i rows of None \<Rightarrow> None | Some r \<Rightarrow> if P r then Some r else None)"
  using assms
proof (induction rows)
  case (Cons r rows)
  show ?case
  proof (cases "r_id r = i")
    case True
    then have "i \<notin> r_id ` set rows" using Cons.prems by auto
    then have "find (\<lambda>r. r_id r = i \<and> P r) rows = None" by (auto simp: find_None_iff)
    then show ?thesis using True by simp
  next
    case False
    then show ?thesis using Cons by simp
  qed
qed simp

definition cancelled_row :: "time \<Rightarrow> nrow \<Rightarrow> nrow" where
  "cancelled_row now r = r\<lparr>r_status := ''cancelled'', r_updated_at := now\<rparr>"

lemma cancel_rows:
  assumes "row_at i t = Some r" "cancellable (r_status r)" "distinct (map r_id (notifications t))"
  shows "fst (sql_cancel now i t) = Inr i \<and>
    row_at j (snd (sql_cancel now i t)) = (if j = i then Some (cancelled_row now r) else row_at j t)"
proof -
  have "find (\<lambda>r. r_id r = i \<and> cancellable (r_status r)) (notifications t) = Some r"
    using find_unique [OF assms(3)] assms(1,2) by (simp add: row_at_def)
  then have "sql_cancel now i t = (Inr i, t\<lparr>notifications :=
      update_rows (\<lambda>r. r_id r = i \<and> cancellable (r_status r)) (cancelled_row now) (notifications t)\<rparr>)"
    by (simp add: sql_cancel_def Let_def cancelled_row_def [abs_def])
  moreover have "row_at j (t\<lparr>notifications :=
      update_rows (\<lambda>r. r_id r = i \<and> cancellable (r_status r)) (cancelled_row now) (notifications t)\<rparr>) =
    map_option (\<lambda>r. if r_id r = i \<and> cancellable (r_status r) then cancelled_row now r else r) (row_at j t)"
    unfolding row_at_def by (simp add: find_update_guarded [where f = "cancelled_row now"] cancelled_row_def)
  moreover have "r_id x = j" if "row_at j t = Some x" for x using row_at_id [OF that] .
  ultimately show ?thesis
    using assms(1,2) by (cases "row_at j t") auto
qed

lemma cancel_refused:
  assumes "distinct (map r_id (notifications t))"
    and "case row_at i t of None \<Rightarrow> True | Some r \<Rightarrow> \<not> cancellable (r_status r)"
  shows "sql_cancel now i t = (Inl NoRows, t)"
proof -
  have "find (\<lambda>r. r_id r = i \<and> cancellable (r_status r)) (notifications t) = None"
    using find_unique [OF assms(1)] assms(2) by (auto simp: row_at_def split: option.splits)
  then show ?thesis by (simp add: sql_cancel_def Let_def)
qed

lemma repo_Cancel_cases:
  assumes "no_faults d" "distinct (map r_id (notifications (db_tables d)))"
  shows "case row_at i (db_tables d) of
      None \<Rightarrow> fst (repo_Cancel now i d) = Some (Sentinel ErrNotFound) \<and>
        db_tables (snd (repo_Cancel now i d)) = db_tables d
    | Some r \<Rightarrow>
        if cancellable (r_status r)
        then fst (repo_Cancel now i d) = None \<and>
          (\<forall>j. row_at j (db_tables (snd (repo_Cancel now i d))) =
            (if j = i then Some (cancelled_row now r) else row_at j (db_tables d)))
        else fst (repo_Cancel now i d) = Some (Sentinel ErrCannotCancel) \<and>
          db_tables (snd (repo_Cancel now i d)) = db_tables d"
proof (cases "row_at i (db_tables d)")
  case None
  then show ?thesis
    using cancel_refused [OF assms(2), where i = i and now = now] assms(1)
    by (simp add: repo_Cancel_def pg_exec_faultless repo_GetByID_missing)
next
  case (Some r)
  show ?thesis
  proof (cases "cancellable (r_status r)")
    case True
    then show ?thesis
      using cancel_rows [OF Some True assms(2), where now = now] Some assms(1)
      by (auto simp: repo_Cancel_def pg_exec_faultless)
  next
    case False
    then show ?thesis
      using cancel_refused [OF assms(2), where i = i and now = now] Some assms(1)
      by (simp add: repo_Cancel_def pg_exec_faultless repo_GetByID_found)
  qed
qed

text \<open>
  Property C17. Cancelling: a stored notification that is pending, scheduled or queued becomes
  cancelled, and the call succeeds; in any other state the answer is \<open>ErrCannotCancel\<close>, for an
  unknown identifier it is \<open>ErrNotFound\<close>, and then nothing changes. No other row ever changes.
\<close>

theorem Cancel_outcome:
  assumes "no_faults d" "distinct (map r_id (notifications (db_tables d)))"
  shows "case (NotificationService_Cancel now i d, row_at i (db_tables d)) of
      ((err, d'), None) \<Rightarrow> err = Some (Sentinel ErrNotFound) \<and> db_tables d' = db_tables d
    | ((err, d'), Some r) \<Rightarrow>
        if r_status r \<in> {StatusPending, StatusScheduled, StatusQueued}
        then err = None \<and> (\<forall>j. row_at j (db_tables d') = (if j = i
          then Some (r\<lparr>r_status := StatusCancelled, r_updated_at := now\<rparr>) else row_at j (db_tables d)))
        else err = Some (Sentinel ErrCannotCancel) \<and> db_tables d' = db_tables d"
  using repo_Cancel_cases [OF assms, where i = i and now = now]
  by (auto simp: NotificationService_Cancel_def cancellable_def cancelled_row_def source_consts
      split: option.splits prod.splits if_splits)

theorem Cancel_outcome_witness:
  "fst (NotificationService_Cancel 5 1 (demo_db [demo_row 0 ''processing''])) = Some (Sentinel ErrCannotCancel) \<and>
   fst (NotificationService_Cancel 5 1 (demo_db [demo_row 0 ''queued''])) = None"
  using Cancel_outcome [of "demo_db [demo_row 0 ''processing'']" 1 5]
    Cancel_outcome [of "demo_db [demo_row 0 ''queued'']" 1 5]
  by (auto simp: row_at_def source_consts split: prod.splits)

section \<open>The scheduled notifications that are due\<close>

definition pending_row :: "time \<Rightarrow> nrow \<Rightarrow> nrow" where
  "pending_row now r = r\<lparr>r_status := ''pending'', r_updated_at := now\<rparr>"

lemma pending_row_fields [simp]:
  "r_id (pending_row now r) = r_id r" "r_status (pending_row now r) = ''pending''"
  "r_scheduled_at (pending_row now r) = r_scheduled_at r" "r_priority (pending_row now r) = r_priority r"
  "scheduled_key (pending_row now r) = scheduled_key r"
  by (simp_all add: pending_row_def scheduled_key_def)

lemma due_selection_first:
  assumes "r \<in> set rows" "due_row now r" "r_id r \<notin> set locked"
    and "r \<notin> set (due_selection now n locked rows)"
  shows "length (due_selection now n locked rows) = n \<and>
    (\<forall>x \<in> set (due_selection now n locked rows). scheduled_key x \<le> scheduled_key r)"
proof -
  let ?s = "sort_key scheduled_key (filter (\<lambda>r. due_row now r \<and> r_id r \<notin> set locked) rows)"
  have sel: "due_selection now n locked rows = take n ?s" by (simp add: due_selection_def)
  have "r \<in> set ?s" using assms(1-3) by simp
  then have "r \<in> set (take n ?s @ drop n ?s)" by (simp only: append_take_drop_id)
  then have rest: "r \<in> set (drop n ?s)"
    using assms(4) by (simp only: sel set_append Un_iff simp_thms)
  then have "n < length ?s" using in_set_dropD [of r n ?s] by (cases "n < length ?s") simp_all
  moreover have "sorted (map scheduled_key (take n ?s @ drop n ?s))" by simp
  then have "\<forall>x \<in> set (take n ?s). scheduled_key x \<le> scheduled_key r"
    using rest by (auto simp only: map_append sorted_append set_map)
  ultimately show ?thesis by (simp add: sel)
qed

definition fetched_rows :: "time \<Rightarrow> int \<Rightarrow> uuid list \<Rightarrow> nrow list \<Rightarrow> nrow list" where
  "fetched_rows now limit locked rows =
     filter (\<lambda>r. r \<in> set (due_selection now (nat limit) locked rows)) rows"

lemma filter_update_rows:
  assumes "\<And>r. p (f r) = p r"
  shows "filter p (update_rows p f rows) = map f (filter p rows)"
  by (induction rows) (simp_all add: update_rows_def assms)

lemma sql_fetch_due_result:
  assumes "distinct (map r_id (notifications t))" "0 \<le> limit"
  shows "fst (sql_fetch_due now limit locked t) =
      Inr (map (pending_row now) (fetched_rows now limit locked (notifications t)))"
    and "row_at j (snd (sql_fetch_due now limit locked t)) =
      (if j \<in> r_id ` set (fetched_rows now limit locked (notifications t))
       then map_option (pending_row now) (row_at j t) else row_at j t)"
proof -
  let ?rows = "notifications t"
  let ?sel = "due_selection now (nat limit) locked ?rows"
  let ?p = "\<lambda>r. r_id r \<in> set (map r_id ?sel)"
  have same: "filter ?p ?rows = fetched_rows now limit locked ?rows"
    unfolding fetched_rows_def
    using due_selection_in_ids [OF assms(1)] by (intro filter_cong) auto
  have upd: "sql_fetch_due now limit locked t =
      (Inr (filter ?p (update_rows ?p (pending_row now) ?rows)),
       t\<lparr>notifications := update_rows ?p (pending_row now) ?rows\<rparr>)"
    using assms(2) by (simp add: sql_fetch_due_def Let_def pending_row_def [abs_def])
  have "filter ?p (update_rows ?p (pending_row now) ?rows) = map (pending_row now) (filter ?p ?rows)"
    by (rule filter_update_rows) simp
  then show "fst (sql_fetch_due now limit locked t) =
      Inr (map (pending_row now) (fetched_rows now limit locked ?rows))"
    by (simp add: upd same del: set_map)
  have "row_at j (snd (sql_fetch_due now limit locked t)) =
      map_option (\<lambda>r. if ?p r then pending_row now r else r) (row_at j t)"
    unfolding row_at_def upd by (simp add: find_update_guarded [where f = "pending_row now"])
  moreover have "j \<in> r_id ` set (fetched_rows now limit locked ?rows) \<longleftrightarrow> ?p r" if "row_at j t = Some r" for r
  proof -
    have "r \<in> set ?rows" "r_id r = j" using that find_row_SomeD unfolding row_at_def by fastforce+
    then show ?thesis unfolding same [symmetric] by auto
  qed
  ultimately show "row_at j (snd (sql_fetch_due now limit locked t)) =
      (if j \<in> r_id ` set (fetched_rows now limit locked ?rows)
       then map_option (pending_row now) (row_at j t) else row_at j t)"
    by (cases "row_at j t") (simp_all del: set_map)
qed

text \<open>The rows a poll fetches: the negative limit is refused by the server, and nothing is seen.\<close>

definition polled :: "time \<Rightarrow> int \<Rightarrow> uuid list \<Rightarrow> db \<Rightarrow> nrow list" where
  "polled now limit locked d =
     (if limit < 0 then [] else fetched_rows now limit locked (notifications (db_tables d)))"

lemma repo_FetchScheduledDue_result:
  assumes "no_faults d" "distinct (map r_id (notifications (db_tables d)))"
  shows "fst (repo_FetchScheduledDue now limit locked d) =
      Inr (map (scanNotification \<circ> pending_row now) (polled now limit locked d))"
    and "row_at j (db_tables (snd (repo_FetchScheduledDue now limit locked d))) =
      (if j \<in> r_id ` set (polled now limit locked d)
       then map_option (pending_row now) (row_at j (db_tables d)) else row_at j (db_tables d))"
proof -
  note res = sql_fetch_due_result [OF assms(2), where limit = limit and now = now and locked = locked]
  have neg: "limit < 0 \<Longrightarrow> sql_fetch_due now limit locked (db_tables d) =
      (Inl (PgError ''2201W'' ''''), db_tables d)"
    by (simp add: sql_fetch_due_def)
  show "fst (repo_FetchScheduledDue now limit locked d) =
      Inr (map (scanNotification \<circ> pending_row now) (polled now limit locked d))"
    using res(1) neg assms(1)
    by (cases "limit < 0")
      (simp_all add: repo_FetchScheduledDue_def pg_query_faultless rows_seen_def polled_def)
  show "row_at j (db_tables (snd (repo_FetchScheduledDue now limit locked d))) =
      (if j \<in> r_id ` set (polled now limit locked d)
       then map_option (pending_row now) (row_at j (db_tables d)) else row_at j (db_tables d))"
    using res neg assms(1)
    by (cases "limit < 0")
      (simp_all add: repo_FetchScheduledDue_def pg_query_faultless rows_seen_def polled_def)
qed

lemma polled_due:
  assumes "r \<in> set (polled now limit locked d)"
  shows "r \<in> set (notifications (db_tables d))" "due_row now r" "r_id r \<notin> set locked"
  using assms due_selection_due [of now "nat limit" locked "notifications (db_tables d)"]
  by (auto simp: polled_def fetched_rows_def split: if_splits)

lemma fetched_rows_set:
  "set (fetched_rows now limit locked rows) = set (due_selection now (nat limit) locked rows)"
  using due_selection_due [of now "nat limit" locked rows] by (auto simp: fetched_rows_def)

lemma fetched_rows_length:
  assumes "distinct (map r_id rows)"
  shows "length (fetched_rows now limit locked rows) = length (due_selection now (nat limit) locked rows)"
proof -
  have d: "distinct rows" using assms by (simp add: distinct_map)
  then have "distinct (due_selection now (nat limit) locked rows)"
    by (simp add: due_selection_def distinct_take)
  moreover have "distinct (fetched_rows now limit locked rows)" using d by (simp add: fetched_rows_def)
  ultimately show ?thesis using distinct_card fetched_rows_set by metis
qed

text \<open>
  Property C18. Fetching the due notifications, when the database answers: the call returns without an
  error at most \<open>limit\<close> notifications, each stored as scheduled for a time that has come and not locked
  by another transaction; exactly these rows become pending, no other row changes; and a due row
  is left out only when the limit is reached by rows scheduled no later.
\<close>

theorem FetchScheduledDue_selects:
  assumes "no_faults d" "distinct (map r_id (notifications (db_tables d)))"
    and "repo_FetchScheduledDue now limit locked d = (res, d')"
  shows "\<exists>ns. res = Inr ns \<and> length ns \<le> nat limit \<and>
    (\<forall>n \<in> set ns. n_status n = StatusPending \<and> n_id n \<notin> set locked \<and>
      (\<exists>r. row_at (n_id n) (db_tables d) = Some r \<and> r_status r = StatusScheduled \<and>
        (\<exists>t \<le> now. r_scheduled_at r = Some t))) \<and>
    (\<forall>j. row_at j (db_tables d') =
      (if j \<in> n_id ` set ns then map_option (\<lambda>r. r\<lparr>r_status := StatusPending, r_updated_at := now\<rparr>)
         (row_at j (db_tables d)) else row_at j (db_tables d))) \<and>
    (\<forall>r \<in> set (notifications (db_tables d)).
      due_row now r \<and> r_id r \<notin> set locked \<and> r_id r \<notin> n_id ` set ns \<longrightarrow> 0 \<le> limit \<longrightarrow>
      length ns = nat limit \<and> (\<forall>n \<in> set ns. n_scheduled_at n \<noteq> None \<and>
        the (n_scheduled_at n) \<le> scheduled_key r))"
proof -
  let ?rows = "polled now limit locked d"
  let ?ns = "map (scanNotification \<circ> pending_row now) ?rows"
  have ids: "n_id ` set ?ns = r_id ` set ?rows" by (simp add: image_image)
  have res: "res = Inr ?ns" and rows: "row_at j (db_tables d') =
      (if j \<in> n_id ` set ?ns then map_option (pending_row now) (row_at j (db_tables d))
       else row_at j (db_tables d))" for j
    using repo_FetchScheduledDue_result [OF assms(1,2), where now = now and limit = limit and locked = locked]
      assms(3) unfolding ids by simp_all
  have "length ?rows \<le> nat limit"
    using fetched_rows_length [OF assms(2)] by (simp add: polled_def due_selection_def)
  moreover have "length ?ns = nat limit \<and> (\<forall>n \<in> set ?ns. n_scheduled_at n \<noteq> None \<and>
        the (n_scheduled_at n) \<le> scheduled_key r)"
    if "r \<in> set (notifications (db_tables d))" "due_row now r" "r_id r \<notin> set locked"
      "r_id r \<notin> n_id ` set ?ns" "0 \<le> limit" for r
  proof -
    let ?sel = "due_selection now (nat limit) locked (notifications (db_tables d))"
    have sel: "set ?rows = set ?sel" "length ?rows = length ?sel"
      using that(5) fetched_rows_set fetched_rows_length [OF assms(2)] by (simp_all add: polled_def)
    then have "r \<notin> set ?sel" using that(4) unfolding ids by blast
    from due_selection_first [OF that(1-3) this] have
      "length ?sel = nat limit" "\<forall>x \<in> set ?sel. scheduled_key x \<le> scheduled_key r" by simp_all
    moreover have "n_scheduled_at (scanNotification (pending_row now x)) \<noteq> None \<and>
        the (n_scheduled_at (scanNotification (pending_row now x))) = scheduled_key x"
      if "x \<in> set ?sel" for x
      using that due_selection_due
      by (fastforce simp: scanNotification_def pending_row_def due_row_def scheduled_key_def split: option.splits)
    ultimately show ?thesis using sel by auto
  qed
  moreover have "\<forall>n \<in> set ?ns. n_status n = StatusPending \<and> n_id n \<notin> set locked \<and>
      (\<exists>r. row_at (n_id n) (db_tables d) = Some r \<and> r_status r = StatusScheduled \<and>
        (\<exists>t \<le> now. r_scheduled_at r = Some t))"
    using polled_due find_row_unique [OF assms(2)]
    by (fastforce simp: row_at_def due_row_def source_consts split: option.splits)
  moreover have "(\<lambda>r. r\<lparr>r_status := StatusPending, r_updated_at := now\<rparr>) = pending_row now"
    by (simp add: pending_row_def [abs_def] source_consts)
  ultimately show ?thesis
    using res rows by (intro exI [of _ ?ns]) simp
qed

theorem FetchScheduledDue_selects_witness:
  "\<exists>ns. fst (repo_FetchScheduledDue 9 5 [] (demo_db [demo_row 0 ''scheduled''])) = Inr ns \<and> length ns \<le> 5 \<and>
     (n_id ` set ns = {1})"
proof -
  let ?d = "demo_db [demo_row 0 ''scheduled'']"
  obtain res d' where c: "repo_FetchScheduledDue 9 5 [] ?d = (res, d')" by (metis surj_pair)
  have due: "due_row 9 (demo_row 0 ''scheduled'')" by (simp add: due_row_def demo_row_def)
  have "distinct (map r_id (notifications (db_tables ?d)))" by simp
  from FetchScheduledDue_selects [OF demo_faultless this c] show ?thesis
  proof (elim exE conjE, goal_cases)
    case (1 ns)
    then have "\<exists>r. row_at (n_id n) (db_tables ?d) = Some r" if "n \<in> set ns" for n
      using that by blast
    then have "n_id n = 1" if "n \<in> set ns" for n
      using that by (force simp: row_at_def split: if_splits)
    then have ids: "n_id ` set ns \<subseteq> {1}" by blast
    have "1 \<notin> n_id ` set ns \<longrightarrow> length ns = 5" using 1(5) due by simp
    then have "n_id ` set ns = {1}" using ids by (cases ns) auto
    then show ?case using c 1(1,2) by (intro exI [of _ ns]) simp
  qed
qed

section \<open>The scheduler's poll\<close>

text \<open>The identifiers waiting in a stream, as their messages carry them.\<close>

definition waiting_ids :: "string \<Rightarrow> view \<Rightarrow> string option list" where
  "waiting_ids k v = map (\<lambda>e. map_of (snd e) ''notification_id'') (v_unread v k)"

context redis_service
begin

lemma waiting_Enqueue:
  assumes "redis_up R"
  shows "waiting_ids k (view_of (snd (Enqueue L R u ch p r))) =
    waiting_ids k (view_of r) @ (if k = StreamKey p then [Some (uuid_String L u)] else [])"
  using Enqueue_ok [OF up_pair [OF Enqueue_up [OF assms]], of L u ch p r]
  by (auto simp: waiting_ids_def view_defs)

lemma waiting_fold_enqueue:
  assumes "redis_up R"
  shows "waiting_ids k (view_of (fold (enqueue_due L R) ns r)) = waiting_ids k (view_of r) @
    map (\<lambda>n. Some (uuid_String L (n_id n))) (filter (\<lambda>n. k = StreamKey (n_priority n)) ns)"
  by (induction ns arbitrary: r) (simp_all add: enqueue_due_def waiting_Enqueue [OF assms])

end

text \<open>
  Property C19. One poll of the scheduler hands every notification it fetched to the queue, once: over a
  Redis that is up, the stream of each priority gains the identifiers of the fetched
  notifications of that priority, in the order in which they were returned, and nothing else.
\<close>

theorem Scheduler_poll_enqueues:
  assumes "redis_service R V" "redis_up R" "no_faults d"
    and "distinct (map r_id (notifications (db_tables d)))"
    and "Scheduler_poll L R limit locked now d r = (d', r')"
  shows "\<exists>ns. fst (repo_FetchScheduledDue now limit locked d) = Inr ns \<and>
    d' = snd (repo_FetchScheduledDue now limit locked d) \<and>
    (\<forall>p. waiting_ids (StreamKey p) (V r') = waiting_ids (StreamKey p) (V r) @
      map (\<lambda>n. Some (uuid_String L (n_id n))) (filter (\<lambda>n. n_priority n = p) ns))"
proof -
  obtain ns d1 where f: "repo_FetchScheduledDue now limit locked d = (Inr ns, d1)"
    using repo_FetchScheduledDue_result(1) [OF assms(3,4)] by (metis prod.collapse)
  then have d: "d' = d1" "r' = fold (enqueue_due L R) ns r"
    using assms(5) by (simp_all add: Scheduler_poll_def)
  have "waiting_ids (StreamKey p) (V r') = waiting_ids (StreamKey p) (V r) @
      map (\<lambda>n. Some (uuid_String L (n_id n))) (filter (\<lambda>n. n_priority n = p) ns)" for p
    using redis_service.waiting_fold_enqueue [OF assms(1,2), of "StreamKey p" L ns r]
    by (simp add: d eq_commute [of p])
  then show ?thesis using f d by (intro exI [of _ ns]) simp
qed

theorem Scheduler_poll_enqueues_witness:
  "\<exists>d' r'. Scheduler_poll example_lib redis_ref 5 [] 9 (demo_db [demo_row 0 ''scheduled'']) ref_empty = (d', r') \<and>
     waiting_ids (StreamKey ''high'') (state_view r') = [Some (uuid_String example_lib 1)]"
proof -
  let ?d = "demo_db [demo_row 0 ''scheduled'']"
  obtain d' r' where c: "Scheduler_poll example_lib redis_ref 5 [] 9 ?d ref_empty = (d', r')"
    by (metis surj_pair)
  have "distinct (map r_id (notifications (db_tables ?d)))" by simp
  from Scheduler_poll_enqueues [OF ref.redis_service_axioms redis_ref_up demo_faultless this c]
  obtain ns where ns: "fst (repo_FetchScheduledDue 9 5 [] ?d) = Inr ns"
    "waiting_ids (StreamKey ''high'') (state_view r') = waiting_ids (StreamKey ''high'') (state_view ref_empty) @
       map (\<lambda>n. Some (uuid_String example_lib (n_id n))) (filter (\<lambda>n. n_priority n = ''high'') ns)"
    by blast
  have "due_row 9 (demo_row 0 ''scheduled'')" by (simp add: due_row_def demo_row_def)
  then have "polled 9 5 [] ?d = [demo_row 0 ''scheduled'']"
    by (simp add: polled_def fetched_rows_def due_selection_def)
  then have "ns = [scanNotification (pending_row 9 (demo_row 0 ''scheduled''))]"
    using repo_FetchScheduledDue_result(1) [OF demo_faultless, of "[demo_row 0 ''scheduled'']" 9 5 "[]"] ns(1)
    by simp
  then have "waiting_ids (StreamKey ''high'') (state_view r') = [Some (uuid_String example_lib 1)]"
    using ns(2) by (simp add: waiting_ids_def view_empty_def)
  then show ?thesis using c by blast
qed

section \<open>Pending notifications that no poll picks up\<close>

text \<open>Successive polls: the notifications they fetched and the database they leave.\<close>

fun polls :: "lib \<Rightarrow> 'r redis \<Rightarrow> int \<Rightarrow> (uuid list \<times> time) list \<Rightarrow> db \<Rightarrow> 'r \<Rightarrow> notification list \<times> db" where
  "polls L R limit [] d r = ([], d)"
| "polls L R limit ((locked, now) # ps) d r =
     (case Scheduler_poll L R limit locked now d r of (d', r') \<Rightarrow>
       (case polls L R limit ps d' r' of (ns, d'') \<Rightarrow>
         ((case fst (repo_FetchScheduledDue now limit locked d) of Inl _ \<Rightarrow> [] | Inr ns0 \<Rightarrow> ns0) @ ns, d'')))"

lemma repo_FetchScheduledDue_faults [simp]:
  "no_faults (snd (repo_FetchScheduledDue now limit locked d)) = no_faults d"
  by (auto simp: repo_FetchScheduledDue_def no_faults_def dest: pg_faults_eq split: prod.splits sum.splits)

lemma Scheduler_poll_db:
  "db_tables (fst (Scheduler_poll L R limit locked now d r)) =
     db_tables (snd (repo_FetchScheduledDue now limit locked d))"
  "no_faults (fst (Scheduler_poll L R limit locked now d r)) = no_faults d"
  using repo_FetchScheduledDue_faults [of now limit locked d]
  by (auto simp del: repo_FetchScheduledDue_faults simp: Scheduler_poll_def split: prod.splits sum.splits)

lemma poll_skips:
  assumes "no_faults d" "rows_ok (db_tables d)" "row_at i (db_tables d) = Some row"
    and "r_status row \<noteq> StatusScheduled"
  shows "row_at i (db_tables (snd (repo_FetchScheduledDue now limit locked d))) = Some row"
    and "fst (repo_FetchScheduledDue now limit locked d) = Inr ns \<Longrightarrow> i \<notin> n_id ` set ns"
proof -
  note ids = rows_ok_distinct [OF assms(2)]
  have "i \<notin> r_id ` set (polled now limit locked d)"
    using polled_due(1,2) find_row_unique [OF ids] assms(3,4)
    by (fastforce simp: row_at_def due_row_def source_consts)
  then show "row_at i (db_tables (snd (repo_FetchScheduledDue now limit locked d))) = Some row"
    "fst (repo_FetchScheduledDue now limit locked d) = Inr ns \<Longrightarrow> i \<notin> n_id ` set ns"
    using repo_FetchScheduledDue_result [OF assms(1) ids] assms(3) by (auto simp: image_image)
qed

lemma polls_skip:
  assumes "polls L R limit ps d r = (ns, d')" "no_faults d" "rows_ok (db_tables d)"
    and "row_at i (db_tables d) = Some row" "r_status row \<noteq> StatusScheduled"
  shows "row_at i (db_tables d') = Some row \<and> i \<notin> n_id ` set ns"
  using assms(1-4)
proof (induction ps arbitrary: d r ns d')
  case (Cons p ps)
  obtain locked now where p: "p = (locked, now)" by (cases p)
  obtain d1 r1 where one: "Scheduler_poll L R limit locked now d r = (d1, r1)" by (metis surj_pair)
  obtain ns1 d2 where rest: "polls L R limit ps d1 r1 = (ns1, d2)" by (metis surj_pair)
  note skip = poll_skips [OF Cons.prems(2-4) assms(5), where now = now and limit = limit and locked = locked]
  have d1: "no_faults d1" "rows_ok (db_tables d1)" "row_at i (db_tables d1) = Some row"
    using Scheduler_poll_db [of L R limit locked now d r] one skip(1) Cons.prems(2,3)
      rows.inv_repo_FetchScheduledDue [of d now limit locked]
    by simp_all
  have "row_at i (db_tables d2) = Some row \<and> i \<notin> n_id ` set ns1"
    using Cons.IH [OF rest d1] .
  moreover have "ns = (case fst (repo_FetchScheduledDue now limit locked d) of Inl _ \<Rightarrow> [] | Inr ns0 \<Rightarrow> ns0) @ ns1"
    "d' = d2"
    using Cons.prems(1) by (simp_all add: p one rest)
  ultimately show ?case using skip(2) by (auto split: sum.splits)
qed simp

text \<open>
  Property C27. A notification that could not be enqueued when it was created stays pending for ever: the
  scheduler, on which the comment in \<open>Create\<close> relies to pick it up, selects scheduled rows only.
  However many polls follow the creation, at whatever times and with whatever rows locked, none
  fetches it and its row stays as it was stored.
\<close>

theorem unqueued_notification_stuck:
  assumes "no_faults d" "rows_ok (db_tables d)"
    and "NotificationService_Create L (Some enqueue) m clock i req d q = (Inr n, d1, q1)"
    and "q_scheduled_at req = None" "fst (enqueue i (q_channel req) (q_priority req) q) \<noteq> None"
    and "polls L' R limit ps d1 r = (ns, d2)"
  shows "n_status n = StatusPending \<and> i \<notin> n_id ` set ns \<and>
    row_at i (db_tables d2) = row_at i (db_tables d1) \<and> row_at i (db_tables d1) = Some (stored_row clock n) \<and>
    r_status (stored_row clock n) = StatusPending"
proof -
  obtain n0 d0 n1 d2' where
    fill: "fill_template L (\<lambda>e. Errorf ''fetching template: '' e '''') (\<lambda>e. e) req
       (request_notification m None req) d = (Inr n0, d0)"
    and create: "repo_Create (clock 0) i (set_initial_status req n0) d0 = (None, n1, d2')"
    and enq: "enqueue_new (Some enqueue) (clock 1) n1 d2' q = (n, d1, q1)"
    using Create_steps [OF assms(3)] by metis
  have d0: "no_faults d0" "db_tables d0 = db_tables d"
    using fill_template_no_faults [OF fill] fill_template_same_tables [OF fill] assms(1) by simp_all
  note c = repo_Create_ok [OF d0(1) create]
  have n1: "n_id n1 = i" "n_channel n1 = q_channel req" "n_priority n1 = q_priority req"
    "n_status n1 = StatusPending"
    using c(1) fill_template_fresh [OF fill] assms(4)
    by (simp_all add: stamped_def set_initial_status_def)
  then have same: "n = n1" "d1 = d2'"
    using enq assms(5) by (auto simp: enqueue_new_def split: option.splits prod.splits)
  have row: "row_at i (db_tables d1) = Some (insert_row n1)"
    using c(1,2) n1(1) same by (auto simp: c(3) row_at_append row_at_absent [symmetric] split: option.splits)
  have stored: "stored_row clock n = insert_row n1" "r_status (insert_row n1) = StatusPending"
    using n1 same by (simp_all add: stored_row_def source_consts insert_row_def)
  have faults: "no_faults d1" using c(3) d0(1) same by simp
  have ok: "rows_ok (db_tables d1)" using rows.inv_NotificationService_Create [OF assms(2,3)] .
  have "row_at i (db_tables d2) = Some (insert_row n1) \<and> i \<notin> n_id ` set ns"
    by (rule polls_skip [OF assms(6) faults ok row]) (simp add: stored(2) source_consts)
  then show ?thesis using row stored n1 same by simp
qed

theorem unqueued_notification_stuck_witness:
  "\<exists>n d1 ns d2. NotificationService_Create example_lib
       (Some (\<lambda>i ch p q. (Some (Errorf ''enqueue to stream notifications:high: '' (Plain ''down'') ''''), q)))
       5 (\<lambda>_. 0) 7 (demo_request None) (demo_db []) () = (Inr n, d1, ()) \<and>
     polls example_lib redis_ref 100 [([], 10), ([], 20)] d1 ref_empty = (ns, d2) \<and>
     7 \<notin> n_id ` set ns \<and> (\<exists>row. row_at 7 (db_tables d2) = Some row \<and> r_status row = ''pending'')"
proof -
  let ?q = "\<lambda>(i::uuid) (ch::channel) (p::priority) (q::unit).
    (Some (Errorf ''enqueue to stream notifications:high: '' (Plain ''down'') ''''), q)"
  obtain n d1 where c: "NotificationService_Create example_lib (Some ?q) 5 (\<lambda>_. 0) 7 (demo_request None)
      (demo_db []) () = (Inr n, d1, ())"
    using demo_created [of ?q "\<lambda>_. 0" 7 None "()"] by auto
  obtain ns d2 where p: "polls example_lib redis_ref 100 [([], 10), ([], 20)] d1 ref_empty = (ns, d2)"
    by (metis surj_pair)
  have "rows_ok (db_tables (demo_db []))" by (simp add: rows_ok_def demo_tables_def)
  from unqueued_notification_stuck [OF demo_faultless this c _ _ p] show ?thesis
    using c p by (auto simp: demo_request_def source_consts)
qed

end
