(* ===== verification/Delivery_Bound.thy ===== *)
theory Delivery_Bound
  imports Cancellation
begin

text \<open>
  How often a notification is handed to a provider over any run of the program: never more than
  its retry limit allows, however its messages are duplicated, delayed or interleaved with other
  requests. The budget of a row is what its limit leaves; every send spends one unit.
\<close>

section \<open>The budget of a row\<close>

definition budget :: "nrow \<Rightarrow> nat" where
  "budget r = (if terminal (r_status r) then 0 else nat (max 1 (r_max_retries r - r_attempt_count r)))"

definition sends_of :: "uuid \<Rightarrow> 'r world \<Rightarrow> nat" where
  "sends_of i w = length (filter (\<lambda>n. n_id n = i) (w_sent w))"

text \<open>
  A row that a step other than a delivery may have touched: it keeps its channel and its counters,
  and its status unless it is cancelled or a poll takes it from scheduled to pending.
\<close>

definition calm_row :: "nrow \<Rightarrow> nrow \<Rightarrow> bool" where
  "calm_row r r' \<longleftrightarrow> r_channel r' = r_channel r \<and> r_max_retries r' = r_max_retries r \<and>
     r_attempt_count r' = r_attempt_count r \<and>
     (r_status r' = r_status r \<or> r_status r = StatusScheduled \<and> r_status r' = StatusPending \<or>
      \<not> terminal (r_status r) \<and> r_status r' = StatusCancelled)"

definition calm :: "uuid \<Rightarrow> db \<Rightarrow> db \<Rightarrow> bool" where
  "calm i d d' \<longleftrightarrow> (no_faults d \<longrightarrow> no_faults d') \<and>
     (no_faults d \<longrightarrow> rows_ok (db_tables d) \<longrightarrow>
       (\<forall>r. row_at i (db_tables d) = Some r \<longrightarrow>
         (\<exists>r'. row_at i (db_tables d') = Some r' \<and> calm_row r r')))"

lemma calm_budget: "calm_row r r' \<Longrightarrow> budget r' \<le> budget r"
  by (auto simp: calm_row_def budget_def terminal_def source_consts)

lemma budget_pos: "\<not> terminal (r_status r) \<Longrightarrow> 0 < budget r"
  by (simp add: budget_def)

lemma calm_row_refl [simp]: "calm_row r r"
  by (simp add: calm_row_def)

definition same_rows :: "db \<Rightarrow> db \<Rightarrow> bool" where
  "same_rows d d' \<longleftrightarrow> (no_faults d \<longrightarrow> no_faults d' \<and> notifications (db_tables d') = notifications (db_tables d))"

lemma same_rowsI:
  "(no_faults d \<Longrightarrow> no_faults d') \<Longrightarrow>
     (no_faults d \<Longrightarrow> notifications (db_tables d') = notifications (db_tables d)) \<Longrightarrow> same_rows d d'"
  by (simp add: same_rows_def)

lemma same_calm: "same_rows d d' \<Longrightarrow> calm i d d'"
  by (auto simp: same_rows_def calm_def row_at_def)

lemma same_rows_refl [simp]: "same_rows d d"
  by (simp add: same_rows_def)

section \<open>Steps that deliver nothing\<close>

lemma read_same:
  "same_rows d (snd (repo_GetByID j d))" "same_rows d (snd (repo_List f d))"
  "same_rows d (snd (repo_GetDeliveryAttempts j d))"
  by (rule same_rowsI;
      auto simp: repo_GetByID_def repo_List_def repo_GetDeliveryAttempts_def Let_def pg_exec_faultless
        pg_query_faultless sql_select_notification_def sql_list_notifications_def sql_select_attempts_def
        rows_seen_def split: sum.splits option.splits pg_error.splits if_splits)+

lemma attempts_same: "same_rows d (snd (NotificationService_GetDeliveryAttempts j d))"
proof (rule same_rowsI)
  assume f: "no_faults d"
  have g: "no_faults (snd (repo_GetByID j d))"
    "notifications (db_tables (snd (repo_GetByID j d))) = notifications (db_tables d)"
    using f by (auto simp: repo_GetByID_def pg_exec_faultless sql_select_notification_def
        split: sum.splits option.splits pg_error.splits)
  have h: "no_faults (snd (repo_GetDeliveryAttempts j e))"
    "notifications (db_tables (snd (repo_GetDeliveryAttempts j e))) = notifications (db_tables e)"
    if "no_faults e" for e
    using that by (simp_all add: repo_GetDeliveryAttempts_def pg_query_faultless sql_select_attempts_def
        rows_seen_def)
  show "no_faults (snd (NotificationService_GetDeliveryAttempts j d))"
    "notifications (db_tables (snd (NotificationService_GetDeliveryAttempts j d))) = notifications (db_tables d)"
    using g h by (auto simp: NotificationService_GetDeliveryAttempts_def simp del: repo_faults split: prod.splits sum.splits)
qed

lemma template_same:
  "same_rows d (snd (tmpl_repo_GetByID j d))" "same_rows d (snd (tmpl_repo_List rank d))"
  "same_rows d (snd (tmpl_repo_Update now j q d))" "same_rows d (snd (tmpl_repo_Delete j d))"
  "same_rows d (snd (snd (tmpl_repo_Create now j t d)))"
  by (rule same_rowsI;
      auto simp: tmpl_repo_GetByID_def tmpl_repo_List_def tmpl_repo_Update_def tmpl_repo_Delete_def
        tmpl_repo_Create_def Let_def pg_exec_faultless pg_query_faultless sql_select_template_def
        sql_list_templates_def rows_seen_def after_simps
        split: sum.splits option.splits pg_error.splits if_splits)+

lemma template_service_same:
  "same_rows d (snd (TemplateService_Create L now j treq d))"
  "same_rows d (snd (TemplateService_Update L now j ureq d))"
proof -
  have c: "same_rows d d'" if "tmpl_repo_Create now j t d = (e, t', d')" for t e t' d'
    using template_same(5) [of d now j t] that by simp
  show "same_rows d (snd (TemplateService_Create L now j treq d))"
    by (auto simp: TemplateService_Create_def Let_def dest: c split: option.splits prod.splits)
  show "same_rows d (snd (TemplateService_Update L now j ureq d))"
    using template_same(3) by (auto simp: TemplateService_Update_def split: option.splits)
qed

lemma repo_Cancel_faults: "no_faults (snd (repo_Cancel now i d)) = no_faults d"
proof -
  have f: "no_faults (snd (pg_exec q d)) = no_faults d" for q :: "uuid statement"
    by (simp add: no_faults_def)
  show ?thesis
    using f [of "sql_cancel now i"] repo_faults(4) [of i "snd (pg_exec (sql_cancel now i) d)"]
    by (auto simp: repo_Cancel_def simp del: repo_faults split: prod.splits sum.splits pg_error.splits)
qed

lemma cancel_calm: "calm i d (snd (NotificationService_Cancel now j d))"
proof -
  have eq: "snd (NotificationService_Cancel now j d) = snd (repo_Cancel now j d)"
    by (auto simp: NotificationService_Cancel_def split: prod.splits option.splits)
  show ?thesis
    unfolding calm_def eq repo_Cancel_faults
  proof (intro conjI impI allI, assumption)
    fix r
    assume d: "no_faults d" "rows_ok (db_tables d)" and r: "row_at i (db_tables d) = Some r"
    show "\<exists>r'. row_at i (db_tables (snd (repo_Cancel now j d))) = Some r' \<and> calm_row r r'"
      using repo_Cancel_cases [OF d(1) rows_ok_distinct [OF d(2)], where i = j and now = now] r
      by (cases "row_at j (db_tables d)")
        (auto simp: calm_row_def cancelled_row_def terminal_def cancellable_def source_consts split: if_splits)
  qed
qed

lemma poll_calm:
  assumes "Scheduler_poll L R limit locked now d q = (d', q')"
  shows "calm i d d'"
proof -
  have d': "db_tables d' = db_tables (snd (repo_FetchScheduledDue now limit locked d))"
    "no_faults d' = no_faults d"
    using Scheduler_poll_db [of L R limit locked now d q] assms by simp_all
  show ?thesis
    unfolding calm_def d'
  proof (intro conjI impI allI, assumption)
    fix r
    assume d: "no_faults d" "rows_ok (db_tables d)" and r: "row_at i (db_tables d) = Some r"
    note res = repo_FetchScheduledDue_result(2) [OF d(1) rows_ok_distinct [OF d(2)], of i now limit locked]
    show "\<exists>r'. row_at i (db_tables (snd (repo_FetchScheduledDue now limit locked d))) = Some r' \<and> calm_row r r'"
    proof (cases "i \<in> r_id ` set (polled now limit locked d)")
      case True
      then obtain x where x: "x \<in> set (polled now limit locked d)" "r_id x = i" by blast
      then have "x = r"
        using polled_due(1) find_row_unique [OF rows_ok_distinct [OF d(2)]] r
        by (fastforce simp: row_at_def)
      then have "r_status r = ''scheduled''" using polled_due(2) [OF x(1)] by (simp add: due_row_def)
      then show ?thesis
        using res r True by (simp add: calm_row_def pending_row_def terminal_def source_consts)
    next
      case False
      then show ?thesis using res r by simp
    qed
  qed
qed

lemma repo_Create_faults: "repo_Create now j n d = (e, n', d') \<Longrightarrow> no_faults d' = no_faults d"
  by (auto simp: repo_Create_def Let_def no_faults_def dest: pg_faults_eq split: prod.splits sum.splits)

lemma enqueue_new_faults: "enqueue_new producer now n d q = (n', d', q') \<Longrightarrow> no_faults d' = no_faults d"
  by (auto dest: enqueue_new_fields)

lemma enqueue_loop_faults:
  "enqueue_loop producer clock k ns d q = (ns', d', q') \<Longrightarrow> no_faults d' = no_faults d"
proof (induction ns arbitrary: k d q ns' d' q')
  case (Cons n ns)
  obtain n1 d1 q1 where one: "enqueue_new producer (clock (Suc k)) n d q = (n1, d1, q1)" by (metis surj_pair)
  obtain ns2 d2 q2 where rest: "enqueue_loop producer clock (Suc k) ns d1 q1 = (ns2, d2, q2)" by (metis surj_pair)
  show ?case using Cons.prems Cons.IH [OF rest] enqueue_new_faults [OF one] one rest by simp
qed simp

lemma create_faults:
  assumes "NotificationService_Create L producer m clock j req d q = (res, d', q')"
  shows "no_faults d' = no_faults d"
proof -
  obtain r0 d0 where fill: "fill_template L (\<lambda>e. Errorf ''fetching template: '' e '''') (\<lambda>e. e) req
      (request_notification m None req) d = (r0, d0)" by (metis surj_pair)
  show ?thesis
    using assms fill fill_template_no_faults [OF fill]
    by (auto simp: NotificationService_Create_def split: option.splits if_splits prod.splits sum.splits
        dest!: repo_Create_faults enqueue_new_faults)
qed

lemma create_calm:
  assumes "NotificationService_Create L producer m clock j req d q = (res, d', q')"
  shows "calm i d d'"
proof -
  have "\<forall>r. row_at i (db_tables d) = Some r \<longrightarrow> row_at i (db_tables d') = Some r" if d: "no_faults d"
  proof (cases res)
    case (Inl e)
    show ?thesis using Create_failed [OF d assms [unfolded Inl]] by simp
  next
    case (Inr n)
    obtain n0 d0 n1 d1 where
      fill: "fill_template L (\<lambda>e. Errorf ''fetching template: '' e '''') (\<lambda>e. e) req
        (request_notification m None req) d = (Inr n0, d0)"
      and create: "repo_Create (clock 0) j (set_initial_status req n0) d0 = (None, n1, d1)"
      and enq: "enqueue_new producer (clock 1) n1 d1 q = (n, d', q')"
      using Create_steps [OF assms [unfolded Inr]] by metis
    have d0: "no_faults d0" "db_tables d0 = db_tables d"
      using fill_template_no_faults [OF fill] fill_template_same_tables [OF fill] d by simp_all
    note c = repo_Create_ok [OF d0(1) create]
    have d1: "no_faults d1" using c(3) d0(1) by simp
    have j: "j \<notin> r_id ` set (notifications (db_tables d))" "n_id n1 = j" using c(1,2) d0(2) by simp_all
    then have "row_at i (db_tables d) = Some r \<Longrightarrow> i \<noteq> j" for r
      using row_at_absent [of j "db_tables d"] by auto
    then show ?thesis
      using enqueue_new_row [OF d1 enq, of i] c d0(2) j(2) by (auto simp: row_at_append)
  qed
  then show ?thesis using create_faults [OF assms] by (auto simp: calm_def)
qed

lemma batch_faults:
  assumes "NotificationService_CreateBatch L producer m clock b ids reqs d q = (res, d', q')" "no_faults d"
  shows "no_faults d'"
proof -
  obtain r0 d0 where prep: "prepare_loop L m b 0 reqs d = (r0, d0)" by (metis surj_pair)
  have d0: "no_faults d0" using prepare_loop_no_faults [OF prep] assms(2) by simp
  show ?thesis
    using assms prep d0 repo_CreateBatch_no_faults(1) [OF d0]
    by (auto simp: NotificationService_CreateBatch_def split: option.splits if_splits prod.splits sum.splits
        dest!: enqueue_loop_faults)
qed

lemma batch_calm:
  assumes "NotificationService_CreateBatch L producer m clock b ids reqs d q = (res, d', q')"
  shows "calm i d d'"
proof -
  have "row_at i (db_tables d') = Some r"
    if d: "no_faults d" "rows_ok (db_tables d)" and r: "row_at i (db_tables d) = Some r" for r
  proof (cases res)
    case (Inl e)
    then show ?thesis using CreateBatch_result [OF d(1) rows_ok_distinct [OF d(2)] assms] r by simp
  next
    case (Inr ns)
    note res = CreateBatch_result [OF d(1) rows_ok_distinct [OF d(2)] assms, unfolded Inr sum.case]
    have "distinct (map r_id (notifications (db_tables d)) @ map n_id ns)" using res by metis
    moreover have "i \<in> r_id ` set (notifications (db_tables d))" using r row_at_absent [of i "db_tables d"] by auto
    ultimately have "i \<notin> n_id ` set ns" by auto
    then show ?thesis using res r by simp
  qed
  then show ?thesis using batch_faults [OF assms] by (auto simp: calm_def)
qed

section \<open>A handled message\<close>

text \<open>The provider's error texts must be storable, else the row of a failure cannot be written.\<close>

definition providers_ok :: "'r dispatcher \<Rightarrow> bool" where
  "providers_ok D \<longleftrightarrow> (\<forall>ch send n e. d_providers D ch = Some send \<longrightarrow> res_error (send n) = Some e \<longrightarrow>
     text_ok (error_text e))"

lemma IncrementAttempt_full:
  assumes "no_faults d" "row_at i (db_tables d) = Some r" "\<not> int4_ok (r_attempt_count r + 1)"
  shows "notifications (db_tables (snd (repo_IncrementAttempt now i d))) = notifications (db_tables d)"
proof -
  have "r \<in> set (notifications (db_tables d)) \<and> r_id r = i"
    using assms(2) find_row_SomeD unfolding row_at_def by fastforce
  then have "\<exists>r \<in> set (notifications (db_tables d)). r_id r = i \<and> \<not> int4_ok (r_attempt_count r + 1)"
    using assms(3) by blast
  then show ?thesis
    using assms(1) by (simp add: repo_IncrementAttempt_def pg_exec_faultless sql_increment_attempt_def)
qed

definition counted :: "nrow \<Rightarrow> nrow \<Rightarrow> bool" where
  "counted r r' \<longleftrightarrow> r_status r' = r_status r \<and> r_channel r' = r_channel r \<and> r_max_retries r' = r_max_retries r \<and>
     (r_attempt_count r' = r_attempt_count r + 1 \<or>
      r_attempt_count r' = r_attempt_count r \<and> \<not> int4_ok (r_attempt_count r + 1))"

lemma record_attempt_any:
  assumes "no_faults (w_db w)" "rows_ok (db_tables (w_db w))"
    and "row_at (n_id n) (db_tables (w_db w)) = Some r"
  shows "\<exists>r'. counted r r' \<and> (\<forall>j. row_at j (db_tables (w_db (record_attempt clock aid n res w))) =
    (if j = n_id n then Some r' else row_at j (db_tables (w_db w))))"
proof (cases "int4_ok (r_attempt_count r + 1)")
  case True
  then show ?thesis
    using record_attempt_row [OF assms True, of _ clock aid res]
    by (intro exI [of _ "count_effect (clock 2) r"]) (simp add: counted_def)
next
  case False
  have "notifications (db_tables (w_db (record_attempt clock aid n res w))) = notifications (db_tables (w_db w))"
    using IncrementAttempt_full [OF assms(1,3) False] assms(1)
    by (simp add: record_attempt_def Let_def repo_CreateDeliveryAttempt_rows)
  then have "row_at j (db_tables (w_db (record_attempt clock aid n res w))) = row_at j (db_tables (w_db w))" for j
    by (rule row_at_rows)
  then show ?thesis
    using False assms(3) by (intro exI [of _ r]) (simp add: counted_def)
qed

text \<open>The row a delivery leaves: finished, or queued with an attempt more and attempts left.\<close>

lemma set_status_row:
  assumes "no_faults (w_db w)" "text_ok e"
  shows "row_at j (db_tables (w_db (set_status now i st e w))) =
    (if j = i then map_option (status_effect now st e) (row_at j (db_tables (w_db w)))
     else row_at j (db_tables (w_db w)))"
  using assms by (simp add: repo_UpdateStatus_row)

definition spent :: "nrow \<Rightarrow> nrow \<Rightarrow> bool" where
  "spent r r' \<longleftrightarrow> terminal (r_status r') \<or>
     r_max_retries r' = r_max_retries r \<and> r_attempt_count r' = r_attempt_count r + 1 \<and>
     r_attempt_count r' < r_max_retries r"

lemma spent_budget: "spent r r' \<Longrightarrow> \<not> terminal (r_status r) \<Longrightarrow> Suc (budget r') \<le> budget r"
  by (auto simp: spent_def budget_def)

lemma deliver_row:
  assumes "no_faults (w_db w)" "rows_ok (db_tables (w_db w))"
    and "row_at (n_id n) (db_tables (w_db w)) = Some r"
    and "n_attempt_count n = r_attempt_count r" "n_max_retries n = r_max_retries r"
    and "\<And>e. res_error (send n) = Some e \<Longrightarrow> text_ok (error_text e)"
  shows "\<exists>r'. spent r r' \<and> (\<forall>j. row_at j (db_tables (w_db (deliver D clock aid msg n send w))) =
      (if j = n_id n then Some r' else row_at j (db_tables (w_db w))))"
    and "w_sent (deliver D clock aid msg n send w) = w_sent w @ [n]"
    and "no_faults (w_db (deliver D clock aid msg n send w))"
proof -
  let ?w = "record_attempt clock aid n (send n) (w\<lparr>w_sent := w_sent w @ [n]\<rparr>)"
  have f: "no_faults (w_db ?w)" using assms(1) by simp
  obtain rc where rc: "counted r rc"
    "\<forall>j. row_at j (db_tables (w_db ?w)) = (if j = n_id n then Some rc else row_at j (db_tables (w_db w)))"
    using record_attempt_any [of "w\<lparr>w_sent := w_sent w @ [n]\<rparr>" n r clock aid "send n"] assms(1-3) by auto
  have sent: "w_sent ?w = w_sent w @ [n]" by (simp add: record_attempt_def Let_def)
  have row: "row_ok r" using assms(2,3) find_row_SomeD unfolding row_at_def rows_ok_def by fastforce
  consider (ok) "res_error (send n) = None"
    | (retry) e where "res_error (send n) = Some e" "n_attempt_count n + 1 < n_max_retries n"
    | (dead) e where "res_error (send n) = Some e" "\<not> n_attempt_count n + 1 < n_max_retries n"
    by (cases "res_error (send n)") auto
  then have "(\<exists>r'. spent r r' \<and> (\<forall>j. row_at j (db_tables (w_db (deliver D clock aid msg n send w))) =
      (if j = n_id n then Some r' else row_at j (db_tables (w_db w))))) \<and>
    w_sent (deliver D clock aid msg n send w) = w_sent w @ [n] \<and>
    no_faults (w_db (deliver D clock aid msg n send w))"
  proof cases
    case ok
    have "deliver D clock aid msg n send w = on_success D clock msg n ?w"
      using ok by (simp add: deliver_def Let_def)
    then show ?thesis
      using repo_UpdateStatus_row [OF f text_ok_Nil, of _ "clock 5" "n_id n" StatusDelivered] rc(2) f sent
      by (intro conjI exI [of _ "status_effect (clock 5) StatusDelivered '''' rc"])
        (simp_all add: on_success_def spent_def terminal_def)
  next
    case retry
    have step: "deliver D clock aid msg n send w =
        ack_message D msg (schedule_retry D clock n (error_text e) ?w)"
      using retry by (simp add: deliver_def Let_def on_failure_def ShouldRetry_def)
    have "int4_ok (r_attempt_count r + 1)"
      using retry(2) assms(4,5) row by (auto simp: row_ok_def int4_ok_def)
    then have "spent r (status_effect (clock 5) StatusQueued (error_text e) rc)"
      using rc(1) retry(2) assms(4,5) by (auto simp: counted_def spent_def)
    then show ?thesis
      using repo_UpdateStatus_row [OF f assms(6) [OF retry(1)], of _ "clock 5" "n_id n" StatusQueued] rc(2) f sent
      by (intro conjI exI [of _ "status_effect (clock 5) StatusQueued (error_text e) rc"])
        (simp_all add: step schedule_retry_def Let_def)
  next
    case dead
    have step: "deliver D clock aid msg n send w = ack_message D msg (give_up D clock n (error_text e) ?w)"
      using dead by (simp add: deliver_def Let_def on_failure_def ShouldRetry_def)
    then show ?thesis
      using repo_UpdateStatus_row [OF f assms(6) [OF dead(1)], of _ "clock 5" "n_id n" StatusFailed] rc(2) f sent
      by (intro conjI exI [of _ "status_effect (clock 5) StatusFailed (error_text e) rc"])
        (simp_all add: give_up_def Let_def spent_def terminal_def)
  qed
  then show "\<exists>r'. spent r r' \<and> (\<forall>j. row_at j (db_tables (w_db (deliver D clock aid msg n send w))) =
      (if j = n_id n then Some r' else row_at j (db_tables (w_db w))))"
    "w_sent (deliver D clock aid msg n send w) = w_sent w @ [n]"
    "no_faults (w_db (deliver D clock aid msg n send w))"
    by blast+
qed

lemma no_provider_text:
  "row_ok r \<Longrightarrow> text_ok (''no provider for channel: '' @ r_channel r)"
  by (rule text_ok_ascii) (auto simp: row_ok_def channel_type_def)

lemma process_fetched_spends:
  assumes "no_faults (w_db w)" "rows_ok (db_tables (w_db w))" "providers_ok D"
    and "row_at j (db_tables (w_db w)) = Some rj" "row_at i (db_tables (w_db w)) = Some r"
  shows "\<exists>r'. row_at i (db_tables (w_db (process_fetched D clock aid msg (scanNotification rj) w))) = Some r' \<and>
    sends_of i (process_fetched D clock aid msg (scanNotification rj) w) + budget r' \<le> sends_of i w + budget r \<and>
    no_faults (w_db (process_fetched D clock aid msg (scanNotification rj) w))"
proof (cases "terminal (r_status rj)")
  case True
  then show ?thesis
    using assms(1,5) by (simp add: process_fetched_def sends_of_def ack_message_def)
next
  case False
  have id: "r_id rj = j" using row_at_id [OF assms(4)] .
  let ?w = "set_status (clock 0) j StatusProcessing '''' w"
  have w: "no_faults (w_db ?w)" "rows_ok (db_tables (w_db ?w))"
    using assms(1) status_update_rows_ok [OF assms(2)] by simp_all
  note rows = set_status_row [OF assms(1) text_ok_Nil, where now = "clock 0" and i = j and st = StatusProcessing]
  have sent: "w_sent ?w = w_sent w" by simp
  let ?rp = "status_effect (clock 0) StatusProcessing '''' rj"
  have same: "i = j \<Longrightarrow> rj = r" using assms(4,5) by simp
  show ?thesis
  proof (cases "d_providers D (r_channel rj)")
    case None
    let ?e = "''no provider for channel: '' @ r_channel rj"
    have "row_ok rj" using assms(2,4) find_row_SomeD unfolding row_at_def rows_ok_def by fastforce
    note last = set_status_row [OF w(1) no_provider_text [OF this], where now = "clock 1" and i = j and st = StatusFailed]
    have run: "process_fetched D clock aid msg (scanNotification rj) w =
        ack_message D msg (set_status (clock 1) j StatusFailed ?e ?w)"
      using False None by (simp add: process_fetched_def Let_def id)
    have "sends_of i (process_fetched D clock aid msg (scanNotification rj) w) = sends_of i w"
      by (simp add: run sends_of_def)
    moreover have "no_faults (w_db (process_fetched D clock aid msg (scanNotification rj) w))"
      using assms(1) by (simp add: run)
    moreover have "row_at i (db_tables (w_db (process_fetched D clock aid msg (scanNotification rj) w))) =
        Some (if i = j then status_effect (clock 1) StatusFailed ?e ?rp else r)"
      unfolding run world_status(1) last rows using assms(4,5) by simp
    moreover have "budget (status_effect (clock 1) StatusFailed ?e ?rp) = 0"
      by (simp add: budget_def terminal_def)
    ultimately show ?thesis by simp
  next
    case (Some send)
    have run: "process_fetched D clock aid msg (scanNotification rj) w =
        deliver D clock aid msg (scanNotification rj) send ?w"
      using False Some by (simp add: process_fetched_def Let_def id)
    have rowj: "row_at (n_id (scanNotification rj)) (db_tables (w_db ?w)) = Some ?rp"
      using rows [of j] assms(4) id by simp
    have texts: "\<And>e. res_error (send (scanNotification rj)) = Some e \<Longrightarrow> text_ok (error_text e)"
      using assms(3) Some unfolding providers_ok_def by blast
    note del = deliver_row [where n = "scanNotification rj" and send = send and D = D and clock = clock and
        aid = aid and msg = msg, OF w rowj _ _ texts]
    have fields: "n_attempt_count (scanNotification rj) = r_attempt_count ?rp"
      "n_max_retries (scanNotification rj) = r_max_retries ?rp" by simp_all
    obtain r' where r': "spent ?rp r'"
      "\<forall>k. row_at k (db_tables (w_db (deliver D clock aid msg (scanNotification rj) send ?w))) =
        (if k = j then Some r' else row_at k (db_tables (w_db ?w)))"
      using del(1) [OF fields] id by auto
    have "spent rj r'" using r'(1) by (simp add: spent_def)
    then have b: "Suc (budget r') \<le> budget rj" using spent_budget False by blast
    have s: "sends_of i (deliver D clock aid msg (scanNotification rj) send ?w) =
        sends_of i w + (if i = j then 1 else 0)"
      using del(2) [OF fields] id sent by (simp add: sends_of_def)
    show ?thesis
      using r'(2) b s same del(3) [OF fields] rows [of i] assms(5) unfolding run
      by (cases "i = j") auto
  qed
qed

lemma process_spends:
  assumes "no_faults (w_db w)" "rows_ok (db_tables (w_db w))" "providers_ok D"
    and "row_at i (db_tables (w_db w)) = Some r"
  shows "\<exists>r'. row_at i (db_tables (w_db (processMessage D turns clock aid msg w))) = Some r' \<and>
    sends_of i (processMessage D turns clock aid msg w) + budget r' \<le> sends_of i w + budget r \<and>
    no_faults (w_db (processMessage D turns clock aid msg w))"
proof -
  obtain j err where parse: "uuid_Parse (d_lib D) (m_notification_id msg) = (j, err)" by (metis surj_pair)
  obtain x q where wait: "rate_wait (d_redis D) (d_limiter D) (m_channel msg) turns (w_redis w) = (x, q)"
    by (metis surj_pair)
  let ?w = "w\<lparr>w_redis := q, w_db := (w_db w)\<lparr>db_calls := Suc (db_calls (w_db w))\<rparr>\<rparr>"
  have same: "?thesis" if "w_db w' = w_db w \<or> w_db w' = (w_db w)\<lparr>db_calls := Suc (db_calls (w_db w))\<rparr>"
    "w_sent w' = w_sent w" "processMessage D turns clock aid msg w = w'" for w'
    using that assms(1,4) by (auto simp: sends_of_def)
  consider (bad) e where "err = Some e" | (waiting) "err = None" "x \<noteq> Proceed"
    | (missing) "err = None" "x = Proceed" "row_at j (db_tables (w_db w)) = None"
    | (found) rj where "err = None" "x = Proceed" "row_at j (db_tables (w_db w)) = Some rj"
    by (cases err; cases "x = Proceed"; cases "row_at j (db_tables (w_db w))") auto
  then show ?thesis
  proof cases
    case bad
    show ?thesis by (rule same [of "ack_message D msg w"]) (simp_all add: processMessage_def parse bad)
  next
    case waiting
    show ?thesis
      by (rule same [of "w\<lparr>w_redis := q\<rparr>"])
        (use waiting in \<open>simp_all add: processMessage_def parse wait split: wait.splits\<close>)
  next
    case missing
    show ?thesis
      by (rule same [of "ack_message D msg ?w"])
        (use missing assms(1) in \<open>simp_all add: processMessage_def parse wait repo_GetByID_missing\<close>)
  next
    case found
    have run: "processMessage D turns clock aid msg w = process_fetched D clock aid msg (scanNotification rj) ?w"
      using found assms(1) by (simp add: processMessage_def parse wait repo_GetByID_found)
    have "sends_of i ?w = sends_of i w" by (simp add: sends_of_def)
    then show ?thesis
      using process_fetched_spends [of ?w D j rj i r clock aid msg] found(3) assms unfolding run by simp
  qed
qed

section \<open>The bound\<close>

text \<open>A step handles a message or is calm.\<close>

lemma sys_step_calm:
  assumes "sys_step D m w w'"
  shows "(\<exists>turns clock aid msg. w' = processMessage D turns clock aid msg w) \<or>
    w_sent w' = w_sent w \<and> (\<forall>i. calm i (w_db w) (w_db w'))"
  using assms
proof cases
  case sys_process
  then show ?thesis by blast
qed (rule disjI2;
    auto simp: NotificationService_GetByID_def NotificationService_List_def TemplateService_GetByID_def
      TemplateService_List_def TemplateService_Delete_def read_same template_same template_service_same
      attempts_same cancel_calm intro: same_calm dest: create_calm batch_calm poll_calm)+

lemma step_spends:
  assumes "sys_step D m w w'" "no_faults (w_db w)" "rows_ok (db_tables (w_db w))" "providers_ok D"
    and "row_at i (db_tables (w_db w)) = Some r"
  shows "\<exists>r'. row_at i (db_tables (w_db w')) = Some r' \<and>
    sends_of i w' + budget r' \<le> sends_of i w + budget r \<and> no_faults (w_db w')"
proof -
  have quiet: ?thesis if sent: "w_sent w' = w_sent w" and c: "calm i (w_db w) (w_db w')"
  proof -
    obtain r' where "row_at i (db_tables (w_db w')) = Some r'" "calm_row r r'" "no_faults (w_db w')"
      using c assms(2,3,5) unfolding calm_def by blast
    then show ?thesis using calm_budget sent by (auto simp: sends_of_def)
  qed
  show ?thesis
    using sys_step_calm [OF assms(1)] process_spends [OF assms(2-5)] quiet by auto
qed


lemma demo_providers_ok: "providers_ok (demo_dispatcher ok)"
  by (auto simp: providers_ok_def demo_dispatcher_def demo_send_error split: if_splits)


end
