(* ===== verification/Workers.thy ===== *)
theory Workers
  imports Dispatcher
begin

text \<open>
  Package \<open>internal/worker\<close>, the loops: \<open>Dispatcher.Work\<close> as a state machine with one state per
  point where the loop can be between two operations, the two ticker loops \<open>ProcessDelayed\<close> and
  \<open>Scheduler.Run\<close>, and the pool that starts the workers and waits for them. Whether the context is
  done is an argument of each step, as other goroutines change it.
\<close>

section \<open>Dispatcher.Work\<close>

text \<open>
  \<open>AtSelect\<close> is the top of the loop, \<open>AtRead\<close> the call of \<open>ReadMessages\<close>, \<open>Handling\<close> the loop over the
  messages still to be handled. A panic of one goroutine ends the process.
\<close>

datatype work_state = AtSelect | AtRead | Handling "message list" | WorkReturned | WorkPanicked

record draws =
  dr_turns :: "(time \<times> int \<times> bool) list"
  dr_clock :: "nat \<Rightarrow> time"
  dr_attempt :: uuid

text \<open>The wait of the rate limit loop is cut short only when the context is done.\<close>

definition cut_short :: "bool \<Rightarrow> (time \<times> int \<times> bool) list \<Rightarrow> (time \<times> int \<times> bool) list" where
  "cut_short ctx_done turns = map (\<lambda>(t, rnd, cancelled). (t, rnd, cancelled \<and> ctx_done)) turns"

definition handler_returns :: "'r dispatcher \<Rightarrow> (time \<times> int \<times> bool) list \<Rightarrow> message \<Rightarrow> 'r \<Rightarrow> bool" where
  "handler_returns D turns msg r \<longleftrightarrow>
     snd (uuid_Parse (d_lib D) (m_notification_id msg)) \<noteq> None \<or>
     fst (rate_wait (d_redis D) (d_limiter D) (m_channel msg) turns r) \<noteq> Waiting"

text \<open>
  A handler whose wait has not ended within the turns of the step stays at its message: it goes on
  with the next step, since what precedes the wait has no effect.
\<close>

fun work_step ::
  "'r dispatcher \<Rightarrow> string \<Rightarrow> draws \<Rightarrow> bool \<Rightarrow> work_state \<Rightarrow> 'r world \<Rightarrow> work_state \<times> 'r world" where
  "work_step D consumerName x ctx_done AtSelect w = (if ctx_done then WorkReturned else AtRead, w)"
| "work_step D consumerName x ctx_done AtRead w =
     (case ReadMessages (d_redis D) consumerName 1 2000000000 (w_redis w) of
        (None, r) \<Rightarrow> (WorkPanicked, w\<lparr>w_redis := r\<rparr>)
      | (Some (Inl err), r) \<Rightarrow> (if ctx_done then WorkReturned else AtSelect, w\<lparr>w_redis := r\<rparr>)
      | (Some (Inr messages), r) \<Rightarrow> (Handling messages, w\<lparr>w_redis := r\<rparr>))"
| "work_step D consumerName x ctx_done (Handling []) w = (AtSelect, w)"
| "work_step D consumerName x ctx_done (Handling (msg # messages)) w =
     (let turns = cut_short ctx_done (dr_turns x) in
      (if handler_returns D turns msg (w_redis w) then Handling messages else Handling (msg # messages),
       processMessage D turns (dr_clock x) (dr_attempt x) msg w))"
| "work_step D consumerName x ctx_done s w = (s, w)"

section \<open>Ticker loops\<close>

text \<open>
  \<open>select\<close> over the context and the ticker: when both are ready either may be taken. A ticker with an
  interval that is not positive panics.
\<close>

datatype loop_state = Ticking | LoopReturned | LoopPanicked

definition tick_loop :: "bool \<Rightarrow> bool \<Rightarrow> ('s \<Rightarrow> 's) \<Rightarrow> loop_state \<Rightarrow> 's \<Rightarrow> loop_state \<times> 's" where
  "tick_loop ctx_done take_done body s w =
     (if s = Ticking then (if ctx_done \<and> take_done then (LoopReturned, w) else (Ticking, body w))
      else (s, w))"

definition NewTicker :: "int \<Rightarrow> loop_state" where
  "NewTicker interval = (if interval \<le> 0 then LoopPanicked else Ticking)"

definition ProcessDelayed ::
  "'r dispatcher \<Rightarrow> time \<Rightarrow> bool \<Rightarrow> bool \<Rightarrow> loop_state \<Rightarrow> 'r world \<Rightarrow> loop_state \<times> 'r world" where
  "ProcessDelayed D clock ctx_done take_done s w =
     tick_loop ctx_done take_done (\<lambda>w. w\<lparr>w_redis := processDelayedBatch D clock (w_redis w)\<rparr>) s w"

definition ProcessDelayed_start :: loop_state where
  "ProcessDelayed_start = NewTicker 1000000000"

record scheduler =
  sc_interval :: int
  sc_batch_size :: int

definition NewScheduler :: "int \<Rightarrow> int \<Rightarrow> scheduler" where
  "NewScheduler interval batchSize = \<lparr>sc_interval = interval, sc_batch_size = batchSize\<rparr>"

definition Scheduler_start :: "scheduler \<Rightarrow> loop_state" where
  "Scheduler_start S = NewTicker (sc_interval S)"

definition Scheduler_Run ::
  "lib \<Rightarrow> 'r redis \<Rightarrow> scheduler \<Rightarrow> uuid list \<Rightarrow> time \<Rightarrow> bool \<Rightarrow> bool \<Rightarrow> loop_state \<Rightarrow> 'r world \<Rightarrow>
     loop_state \<times> 'r world" where
  "Scheduler_Run L R S locked dbnow ctx_done take_done s w =
     tick_loop ctx_done take_done
       (\<lambda>w. case Scheduler_poll L R (sc_batch_size S) locked dbnow (w_db w) (w_redis w) of
          (d, r) \<Rightarrow> w\<lparr>w_db := d, w_redis := r\<rparr>) s w"

section \<open>The pool\<close>

definition Pool_Start :: "int \<Rightarrow> work_state list" where
  "Pool_Start n = replicate (nat n) AtSelect"

text \<open>\<open>Wait\<close> returns once every started worker has called \<open>Done\<close>.\<close>

definition Pool_Wait :: "work_state list \<Rightarrow> bool" where
  "Pool_Wait ws \<longleftrightarrow> (\<forall>s \<in> set ws. s = WorkReturned)"

section \<open>Stopping\<close>

text \<open>
  With the context done, a worker takes at most \<open>work_left\<close> more steps that end a handler or an
  operation: it finishes the messages it has read and returns at the next select.
\<close>

fun work_left :: "work_state \<Rightarrow> nat" where
  "work_left AtSelect = 1"
| "work_left AtRead = 6"
| "work_left (Handling messages) = 2 + length messages"
| "work_left _ = 0"

end
