(* ===== verification/Http.thy ===== *)
theory Http
  imports Services Hub
begin

text \<open>
  Package \<open>internal/api/handler\<close> and the websocket endpoint: what each handler calls and what it
  writes. A handler's output is the sequence of its calls on the \<open>http.ResponseWriter\<close>; \<open>reply_of\<close>
  is the response that \<open>net/http\<close> makes of such a sequence. JSON decoding and the time parser are
  parameters (\<open>codec\<close>); a response body is the value that is encoded.
\<close>

section \<open>Requests, writes and replies\<close>

record request =
  rq_method :: string
  rq_path :: "string list"
  rq_headers :: "string \<Rightarrow> string"
  rq_path_values :: "string \<Rightarrow> string"
  rq_query :: "string \<Rightarrow> string"
  rq_body :: string
  rq_request_id :: "string option"

text \<open>
  The path is the list of its decoded segments; absent headers, query and path values read as
  the empty string, as in Go; \<open>rq_request_id\<close> is the value the middleware puts in the context.
\<close>

datatype body =
    ErrorBody string
  | NotificationBody notification
  | BatchBody "notification list" int
  | ListBody notification_list
  | StatusBody string
  | AttemptsBody "delivery_attempt list"
  | TemplateBody template
  | TemplatesBody "template list"
  | ReadyBody string fields
  | TextBody string

datatype w_event = SetHeader string string | WriteHeader int | WriteBody body

record reply =
  rp_status :: "int option"
  rp_headers :: "string \<Rightarrow> string option"
  rp_body :: "body list"

text \<open>
  The first \<open>WriteHeader\<close> counts, a write without one sends 200, and headers set afterwards are not
  sent; a handler that writes nothing answers 200.
\<close>

fun reply_step :: "w_event \<Rightarrow> reply \<Rightarrow> reply" where
  "reply_step (SetHeader k v) p =
     (case rp_status p of None \<Rightarrow> p\<lparr>rp_headers := (rp_headers p)(k \<mapsto> v)\<rparr> | Some _ \<Rightarrow> p)"
| "reply_step (WriteHeader code) p =
     (case rp_status p of None \<Rightarrow> p\<lparr>rp_status := Some code\<rparr> | Some _ \<Rightarrow> p)"
| "reply_step (WriteBody b) p =
     p\<lparr>rp_status := Some (case rp_status p of None \<Rightarrow> 200 | Some c \<Rightarrow> c), rp_body := rp_body p @ [b]\<rparr>"

definition reply_of :: "w_event list \<Rightarrow> reply" where
  "reply_of es = fold reply_step es \<lparr>rp_status = None, rp_headers = Map.empty, rp_body = []\<rparr>"

definition reply_status :: "w_event list \<Rightarrow> int" where
  "reply_status es = (case rp_status (reply_of es) of None \<Rightarrow> 200 | Some c \<Rightarrow> c)"

section \<open>Responses\<close>

definition writeJSON :: "int \<Rightarrow> body \<Rightarrow> w_event list" where
  "writeJSON status v = [SetHeader ''Content-Type'' ''application/json'', WriteHeader status, WriteBody v]"

definition writeError :: "int \<Rightarrow> string \<Rightarrow> w_event list" where
  "writeError status msg = writeJSON status (ErrorBody msg)"

definition http_Error :: "string \<Rightarrow> int \<Rightarrow> w_event list" where
  "http_Error msg code = [SetHeader ''Content-Type'' ''text/plain; charset=utf-8'',
     SetHeader ''X-Content-Type-Options'' ''nosniff'', WriteHeader code, WriteBody (TextBody msg)]"

definition handleDomainError :: "go_error \<Rightarrow> w_event list" where
  "handleDomainError err =
     (if errors_Is err ErrNotFound then writeError 404 ''resource not found''
      else if errors_Is err ErrDuplicate then writeError 409 ''duplicate entry''
      else if errors_Is err ErrIdempotencyConflict then writeError 409 ''idempotency key already exists''
      else if errors_Is err ErrCannotCancel then
        writeError 422 ''notification cannot be cancelled in current status''
      else if errors_Is err ErrBatchTooLarge then writeError 400 ''batch size exceeds maximum of 1000''
      else if errors_Is err ErrInvalidChannel then writeError 400 ''invalid channel''
      else if errors_Is err ErrInvalidPriority then writeError 400 ''invalid priority''
      else if errors_Is err ErrTemplateRender then writeError 400 (error_text err)
      else if errors_Is err ErrValidation then writeError 400 (error_text err)
      else writeError 500 ''internal server error'')"

lemma reply_writeJSON [simp]:
  "reply_status (writeJSON st v) = st" "rp_body (reply_of (writeJSON st v)) = [v]"
  by (simp_all add: reply_status_def reply_of_def writeJSON_def)

section \<open>What the handlers are built on\<close>

record codec =
  dec_create :: "string \<Rightarrow> create_request option"
  dec_batch :: "string \<Rightarrow> create_request list option"
  dec_create_template :: "string \<Rightarrow> create_template_request option"
  dec_update_template :: "string \<Rightarrow> update_template_request option"
  parse_RFC3339Nano :: "string \<Rightarrow> time option"

record 'q api =
  api_lib :: lib
  api_codec :: codec
  api_producer :: "'q producer option"
  api_retries :: int

record 'q api_state =
  as_db :: db
  as_queue :: 'q
  as_hub :: hub

text \<open>The readings of the clock, the generated identifiers and the collation of one request.\<close>

record inputs =
  in_clock :: "nat \<Rightarrow> time"
  in_id :: uuid
  in_ids :: "nat \<Rightarrow> uuid"
  in_rank :: "string \<Rightarrow> nat"

text \<open>\<open>strconv.Atoi\<close>: an optional sign and decimal digits, in the range of a 64-bit \<open>int\<close>.\<close>

definition Atoi :: "string \<Rightarrow> int option" where
  "Atoi s =
     (let (neg, ds) =
        (case s of
           [] \<Rightarrow> (False, [])
         | c # cs \<Rightarrow> if c = CHR ''-'' then (True, cs) else if c = CHR ''+'' then (False, cs) else (False, s))
      in if ds \<noteq> [] \<and> list_all is_digit ds then
           (let v = (if neg then - int (digits_value ds) else int (digits_value ds)) in
            if - (2 ^ 63) \<le> v \<and> v < 2 ^ 63 then Some v else None)
         else None)"

text \<open>An identifier in the path: \<open>uuid.Parse\<close> with an error answers 400.\<close>

definition parsed_id :: "lib \<Rightarrow> string \<Rightarrow> uuid option" where
  "parsed_id L s = (case uuid_Parse L s of (i, None) \<Rightarrow> Some i | (i, Some _) \<Rightarrow> None)"

type_synonym 'q endpoint = "request \<Rightarrow> inputs \<Rightarrow> 'q api_state \<Rightarrow> w_event list \<times> 'q api_state"

section \<open>Notification handlers\<close>

definition NotificationHandler_Create :: "'q api \<Rightarrow> 'q endpoint" where
  "NotificationHandler_Create A rq x st =
     (case dec_create (api_codec A) (rq_body rq) of
        None \<Rightarrow> (writeError 400 ''invalid request body'', st)
      | Some req \<Rightarrow>
         (case NotificationService_Create (api_lib A) (api_producer A) (api_retries A) (in_clock x)
             (in_id x) req (as_db st) (as_queue st) of
            (Inl err, d, q) \<Rightarrow> (handleDomainError err, st\<lparr>as_db := d, as_queue := q\<rparr>)
          | (Inr n, d, q) \<Rightarrow> (writeJSON 201 (NotificationBody n), st\<lparr>as_db := d, as_queue := q\<rparr>)))"

definition NotificationHandler_CreateBatch :: "'q api \<Rightarrow> 'q endpoint" where
  "NotificationHandler_CreateBatch A rq x st =
     (case dec_batch (api_codec A) (rq_body rq) of
        None \<Rightarrow> (writeError 400 ''invalid request body'', st)
      | Some reqs \<Rightarrow>
         (case NotificationService_CreateBatch (api_lib A) (api_producer A) (api_retries A) (in_clock x)
             (in_id x) (in_ids x) reqs (as_db st) (as_queue st) of
            (Inl err, d, q) \<Rightarrow> (handleDomainError err, st\<lparr>as_db := d, as_queue := q\<rparr>)
          | (Inr ns, d, q) \<Rightarrow>
              (writeJSON 201 (BatchBody ns (int (length ns))), st\<lparr>as_db := d, as_queue := q\<rparr>)))"

definition NotificationHandler_Get :: "'q api \<Rightarrow> 'q endpoint" where
  "NotificationHandler_Get A rq x st =
     (case parsed_id (api_lib A) (rq_path_values rq ''id'') of
        None \<Rightarrow> (writeError 400 ''invalid notification ID'', st)
      | Some i \<Rightarrow>
         (case NotificationService_GetByID i (as_db st) of
            (Inl err, d) \<Rightarrow> (handleDomainError err, st\<lparr>as_db := d\<rparr>)
          | (Inr n, d) \<Rightarrow> (writeJSON 200 (NotificationBody n), st\<lparr>as_db := d\<rparr>)))"

text \<open>
  The query parameters of \<open>List\<close>, checked in the order of the code; a cursor is used when both of
  its parts are given.
\<close>

definition list_limit :: "string \<Rightarrow> (string + int)" where
  "list_limit l =
     (if l = '''' then Inr 0
      else case Atoi l of None \<Rightarrow> Inl ''invalid limit''
           | Some n \<Rightarrow> if n < 1 then Inl ''invalid limit'' else Inr n)"

definition list_cursor :: "lib \<Rightarrow> codec \<Rightarrow> string \<Rightarrow> string \<Rightarrow> (string + cursor option)" where
  "list_cursor L C ct cid =
     (if ct \<noteq> '''' \<and> cid \<noteq> '''' then
        (case parse_RFC3339Nano C ct of
           None \<Rightarrow> Inl ''invalid cursor_time''
         | Some t \<Rightarrow>
            (case parsed_id L cid of
               None \<Rightarrow> Inl ''invalid cursor_id''
             | Some i \<Rightarrow> Inr (Some (Cursor t i))))
      else Inr None)"

definition list_filter :: "lib \<Rightarrow> codec \<Rightarrow> (string \<Rightarrow> string) \<Rightarrow> (string + notification_filter)" where
  "list_filter L C query =
     (let f = \<lparr>f_status = None, f_channel = None, f_batch_id = None, f_cursor = None, f_limit = 0\<rparr>;
          f = (if query ''status'' \<noteq> '''' then f\<lparr>f_status := Some (query ''status'')\<rparr> else f);
          f = (if query ''channel'' \<noteq> '''' then f\<lparr>f_channel := Some (query ''channel'')\<rparr> else f)
      in case (if query ''batch_id'' = '''' then Inr None
               else case parsed_id L (query ''batch_id'') of
                 None \<Rightarrow> Inl ''invalid batch_id'' | Some b \<Rightarrow> Inr (Some b)) of
           Inl e \<Rightarrow> Inl e
         | Inr b \<Rightarrow>
            (case list_limit (query ''limit'') of
               Inl e \<Rightarrow> Inl e
             | Inr l \<Rightarrow>
                (case list_cursor L C (query ''cursor_time'') (query ''cursor_id'') of
                   Inl e \<Rightarrow> Inl e
                 | Inr c \<Rightarrow> Inr (f\<lparr>f_batch_id := b, f_limit := l, f_cursor := c\<rparr>))))"

definition NotificationHandler_List :: "'q api \<Rightarrow> 'q endpoint" where
  "NotificationHandler_List A rq x st =
     (case list_filter (api_lib A) (api_codec A) (rq_query rq) of
        Inl e \<Rightarrow> (writeError 400 e, st)
      | Inr f \<Rightarrow>
         (case NotificationService_List f (as_db st) of
            (Inl err, d) \<Rightarrow> (handleDomainError err, st\<lparr>as_db := d\<rparr>)
          | (Inr page, d) \<Rightarrow> (writeJSON 200 (ListBody page), st\<lparr>as_db := d\<rparr>)))"

definition NotificationHandler_ListByBatch :: "'q api \<Rightarrow> 'q endpoint" where
  "NotificationHandler_ListByBatch A rq x st =
     (case parsed_id (api_lib A) (rq_path_values rq ''batchId'') of
        None \<Rightarrow> (writeError 400 ''invalid batch ID'', st)
      | Some b \<Rightarrow>
         (let f = \<lparr>f_status = None, f_channel = None, f_batch_id = Some b, f_cursor = None, f_limit = 100\<rparr> in
          case NotificationService_List f (as_db st) of
            (Inl err, d) \<Rightarrow> (handleDomainError err, st\<lparr>as_db := d\<rparr>)
          | (Inr page, d) \<Rightarrow> (writeJSON 200 (ListBody page), st\<lparr>as_db := d\<rparr>)))"

definition NotificationHandler_Cancel :: "'q api \<Rightarrow> 'q endpoint" where
  "NotificationHandler_Cancel A rq x st =
     (case parsed_id (api_lib A) (rq_path_values rq ''id'') of
        None \<Rightarrow> (writeError 400 ''invalid notification ID'', st)
      | Some i \<Rightarrow>
         (case NotificationService_Cancel (in_clock x 0) i (as_db st) of
            (Some err, d) \<Rightarrow> (handleDomainError err, st\<lparr>as_db := d\<rparr>)
          | (None, d) \<Rightarrow> (writeJSON 200 (StatusBody ''cancelled''), st\<lparr>as_db := d\<rparr>)))"

definition NotificationHandler_GetAttempts :: "'q api \<Rightarrow> 'q endpoint" where
  "NotificationHandler_GetAttempts A rq x st =
     (case parsed_id (api_lib A) (rq_path_values rq ''id'') of
        None \<Rightarrow> (writeError 400 ''invalid notification ID'', st)
      | Some i \<Rightarrow>
         (case NotificationService_GetDeliveryAttempts i (as_db st) of
            (Inl err, d) \<Rightarrow> (handleDomainError err, st\<lparr>as_db := d\<rparr>)
          | (Inr ats, d) \<Rightarrow> (writeJSON 200 (AttemptsBody ats), st\<lparr>as_db := d\<rparr>)))"

section \<open>Template handlers\<close>

definition TemplateHandler_Create :: "'q api \<Rightarrow> 'q endpoint" where
  "TemplateHandler_Create A rq x st =
     (case dec_create_template (api_codec A) (rq_body rq) of
        None \<Rightarrow> (writeError 400 ''invalid request body'', st)
      | Some req \<Rightarrow>
         (case TemplateService_Create (api_lib A) (in_clock x 0) (in_id x) req (as_db st) of
            (Inl err, d) \<Rightarrow> (handleDomainError err, st\<lparr>as_db := d\<rparr>)
          | (Inr t, d) \<Rightarrow> (writeJSON 201 (TemplateBody t), st\<lparr>as_db := d\<rparr>)))"

definition TemplateHandler_Get :: "'q api \<Rightarrow> 'q endpoint" where
  "TemplateHandler_Get A rq x st =
     (case parsed_id (api_lib A) (rq_path_values rq ''id'') of
        None \<Rightarrow> (writeError 400 ''invalid template ID'', st)
      | Some i \<Rightarrow>
         (case TemplateService_GetByID i (as_db st) of
            (Inl err, d) \<Rightarrow> (handleDomainError err, st\<lparr>as_db := d\<rparr>)
          | (Inr t, d) \<Rightarrow> (writeJSON 200 (TemplateBody t), st\<lparr>as_db := d\<rparr>)))"

definition TemplateHandler_List :: "'q api \<Rightarrow> 'q endpoint" where
  "TemplateHandler_List A rq x st =
     (case TemplateService_List (in_rank x) (as_db st) of
        (Inl err, d) \<Rightarrow> (handleDomainError err, st\<lparr>as_db := d\<rparr>)
      | (Inr ts, d) \<Rightarrow> (writeJSON 200 (TemplatesBody ts), st\<lparr>as_db := d\<rparr>))"

definition TemplateHandler_Update :: "'q api \<Rightarrow> 'q endpoint" where
  "TemplateHandler_Update A rq x st =
     (case parsed_id (api_lib A) (rq_path_values rq ''id'') of
        None \<Rightarrow> (writeError 400 ''invalid template ID'', st)
      | Some i \<Rightarrow>
         (case dec_update_template (api_codec A) (rq_body rq) of
            None \<Rightarrow> (writeError 400 ''invalid request body'', st)
          | Some req \<Rightarrow>
             (case TemplateService_Update (api_lib A) (in_clock x 0) i req (as_db st) of
                (Inl err, d) \<Rightarrow> (handleDomainError err, st\<lparr>as_db := d\<rparr>)
              | (Inr t, d) \<Rightarrow> (writeJSON 200 (TemplateBody t), st\<lparr>as_db := d\<rparr>))))"

definition TemplateHandler_Delete :: "'q api \<Rightarrow> 'q endpoint" where
  "TemplateHandler_Delete A rq x st =
     (case parsed_id (api_lib A) (rq_path_values rq ''id'') of
        None \<Rightarrow> (writeError 400 ''invalid template ID'', st)
      | Some i \<Rightarrow>
         (case TemplateService_Delete i (as_db st) of
            (Some err, d) \<Rightarrow> (handleDomainError err, st\<lparr>as_db := d\<rparr>)
          | (None, d) \<Rightarrow> ([WriteHeader 204], st\<lparr>as_db := d\<rparr>)))"

section \<open>Health\<close>

text \<open>The pings of the two servers are parameters: the error text, if any.\<close>

definition Health :: "w_event list" where
  "Health = writeJSON 200 (StatusBody ''ok'')"

definition statusText :: "int \<Rightarrow> string" where
  "statusText code = (if code = 200 then ''ok'' else ''unhealthy'')"

definition ping_check :: "string option \<Rightarrow> string" where
  "ping_check e = (case e of Some t \<Rightarrow> ''unhealthy: '' @ t | None \<Rightarrow> ''ok'')"

definition Ready :: "string option \<Rightarrow> string option \<Rightarrow> w_event list" where
  "Ready db_ping redis_ping =
     (let checks = [(''postgres'', ping_check db_ping), (''redis'', ping_check redis_ping)];
          status = (if \<exists>c \<in> set checks. snd c \<noteq> ''ok'' then 503 else 200)
      in writeJSON status (ReadyBody (statusText status) checks))"

section \<open>The websocket endpoint\<close>

text \<open>
  \<open>websocket.Accept\<close> is a parameter: given whether the writer it is handed can be hijacked, it
  answers with an error and what it has written, or accepts. An open connection is subscribed
  while other goroutines change the hub (\<open>during\<close>), until a read fails; the second result says what
  was subscribed.
\<close>

type_synonym ws_accept = "bool \<Rightarrow> request \<Rightarrow> (string \<times> w_event list) option"

definition HandleWebSocket ::
  "lib \<Rightarrow> ws_accept \<Rightarrow> nat \<Rightarrow> hub_event list \<Rightarrow> bool \<Rightarrow> request \<Rightarrow> hub \<Rightarrow>
     w_event list \<times> (uuid \<times> nat) option \<times> hub" where
  "HandleWebSocket L accept conn during hijacker rq h =
     (case parsed_id L (rq_path_values rq ''id'') of
        None \<Rightarrow> (http_Error ''invalid notification ID'' 400, None, h)
      | Some i \<Rightarrow>
         (case accept hijacker rq of
            Some (e, es) \<Rightarrow> (es, None, h)
          | None \<Rightarrow> ([], Some (i, conn),
              hub_unsubscribe i conn (hub_run during (hub_subscribe i conn h)))))"

end
