(* ===== verification/Router.thy ===== *)
theory Router
  imports Http
begin

text \<open>
  Packages \<open>internal/api\<close> and \<open>internal/api/middleware\<close>: the route table, the request-id, recovery and
  logging middleware in the order \<open>NewRouter\<close> applies them, and the handler that results. A
  handler is a function of what its writer can do, the request and the state; it may panic.
\<close>

section \<open>Routes\<close>

datatype segment = Lit string | Wild string

datatype target =
    ToHealth | ToReady | ToMetrics
  | ToCreate | ToCreateBatch | ToGet | ToList | ToListByBatch | ToCancel | ToGetAttempts
  | ToTemplateCreate | ToTemplateList | ToTemplateGet | ToTemplateUpdate | ToTemplateDelete
  | ToWebSocket

type_synonym route = "string \<times> segment list \<times> target"

definition routes :: "route list" where
  "routes = [
     (''GET'', [Lit ''health''], ToHealth),
     (''GET'', [Lit ''ready''], ToReady),
     (''GET'', [Lit ''metrics''], ToMetrics),
     (''POST'', [Lit ''api'', Lit ''v1'', Lit ''notifications''], ToCreate),
     (''POST'', [Lit ''api'', Lit ''v1'', Lit ''notifications'', Lit ''batch''], ToCreateBatch),
     (''GET'', [Lit ''api'', Lit ''v1'', Lit ''notifications'', Wild ''id''], ToGet),
     (''GET'', [Lit ''api'', Lit ''v1'', Lit ''notifications''], ToList),
     (''GET'', [Lit ''api'', Lit ''v1'', Lit ''batches'', Wild ''batchId'', Lit ''notifications''], ToListByBatch),
     (''POST'', [Lit ''api'', Lit ''v1'', Lit ''notifications'', Wild ''id'', Lit ''cancel''], ToCancel),
     (''GET'', [Lit ''api'', Lit ''v1'', Lit ''notifications'', Wild ''id'', Lit ''attempts''], ToGetAttempts),
     (''POST'', [Lit ''api'', Lit ''v1'', Lit ''templates''], ToTemplateCreate),
     (''GET'', [Lit ''api'', Lit ''v1'', Lit ''templates''], ToTemplateList),
     (''GET'', [Lit ''api'', Lit ''v1'', Lit ''templates'', Wild ''id''], ToTemplateGet),
     (''PUT'', [Lit ''api'', Lit ''v1'', Lit ''templates'', Wild ''id''], ToTemplateUpdate),
     (''DELETE'', [Lit ''api'', Lit ''v1'', Lit ''templates'', Wild ''id''], ToTemplateDelete),
     (''GET'', [Lit ''ws'', Lit ''notifications'', Wild ''id''], ToWebSocket)]"

text \<open>
  \<open>http.ServeMux\<close>: a literal matches its segment, a wildcard any segment that is not empty, and a
  pattern for GET also serves HEAD. Unless exactly one pattern matches the most specific one
  would win; that never happens here. No match is 405 when another method matches, else 404. Paths
  are clean ones: \<open>ServeMux\<close> redirects a path with empty or dot segments before it routes.
\<close>

fun match_path :: "segment list \<Rightarrow> string list \<Rightarrow> (string \<Rightarrow> string) option" where
  "match_path [] [] = Some (\<lambda>_. '''')"
| "match_path (Lit l # ps) (s # ss) = (if s = l then match_path ps ss else None)"
| "match_path (Wild x # ps) (s # ss) =
     (if s = '''' then None
      else case match_path ps ss of None \<Rightarrow> None | Some vs \<Rightarrow> Some (vs(x := s)))"
| "match_path _ _ = None"

definition method_matches :: "string \<Rightarrow> string \<Rightarrow> bool" where
  "method_matches pattern m \<longleftrightarrow> pattern = m \<or> pattern = ''GET'' \<and> m = ''HEAD''"

definition route_matches :: "string \<Rightarrow> string list \<Rightarrow> route \<Rightarrow> bool" where
  "route_matches m path r =
     (case r of (pm, pattern, t) \<Rightarrow> method_matches pm m \<and> match_path pattern path \<noteq> None)"

datatype routed = Found target "string \<Rightarrow> string" | MethodNotAllowed | PathNotFound

definition find_route :: "string \<Rightarrow> string list \<Rightarrow> routed" where
  "find_route m path =
     (case find (route_matches m path) routes of
        Some (pm, pattern, t) \<Rightarrow> Found t (the (match_path pattern path))
      | None \<Rightarrow>
         if \<exists>(pm, pattern, t) \<in> set routes. match_path pattern path \<noteq> None
         then MethodNotAllowed else PathNotFound)"

section \<open>The mux\<close>

record log_entry =
  lg_method :: string
  lg_path :: "string list"
  lg_status :: int
  lg_request_id :: string

record outcome =
  oc_events :: "w_event list"
  oc_panic :: "string option"
  oc_logs :: "log_entry list"
  oc_socket :: "(uuid \<times> nat) option"

type_synonym 's handler = "bool \<Rightarrow> request \<Rightarrow> 's \<Rightarrow> outcome \<times> 's"

text \<open>The surroundings of one request that the code does not contain.\<close>

record surroundings =
  su_inputs :: inputs
  su_metrics :: "w_event list"
  su_pings :: "string option \<times> string option"
  su_accept :: ws_accept
  su_conn :: nat
  su_during :: "hub_event list"

definition wrote :: "w_event list \<times> 's \<Rightarrow> outcome \<times> 's" where
  "wrote p = (\<lparr>oc_events = fst p, oc_panic = None, oc_logs = [], oc_socket = None\<rparr>, snd p)"

definition dispatch_target ::
  "'q api \<Rightarrow> surroundings \<Rightarrow> target \<Rightarrow> 'q api_state handler" where
  "dispatch_target A su t hijacker rq st =
     (let x = su_inputs su in
      case t of
        ToHealth \<Rightarrow> wrote (Health, st)
      | ToReady \<Rightarrow> wrote (Ready (fst (su_pings su)) (snd (su_pings su)), st)
      | ToMetrics \<Rightarrow> wrote (su_metrics su, st)
      | ToCreate \<Rightarrow> wrote (NotificationHandler_Create A rq x st)
      | ToCreateBatch \<Rightarrow> wrote (NotificationHandler_CreateBatch A rq x st)
      | ToGet \<Rightarrow> wrote (NotificationHandler_Get A rq x st)
      | ToList \<Rightarrow> wrote (NotificationHandler_List A rq x st)
      | ToListByBatch \<Rightarrow> wrote (NotificationHandler_ListByBatch A rq x st)
      | ToCancel \<Rightarrow> wrote (NotificationHandler_Cancel A rq x st)
      | ToGetAttempts \<Rightarrow> wrote (NotificationHandler_GetAttempts A rq x st)
      | ToTemplateCreate \<Rightarrow> wrote (TemplateHandler_Create A rq x st)
      | ToTemplateList \<Rightarrow> wrote (TemplateHandler_List A rq x st)
      | ToTemplateGet \<Rightarrow> wrote (TemplateHandler_Get A rq x st)
      | ToTemplateUpdate \<Rightarrow> wrote (TemplateHandler_Update A rq x st)
      | ToTemplateDelete \<Rightarrow> wrote (TemplateHandler_Delete A rq x st)
      | ToWebSocket \<Rightarrow>
         (case HandleWebSocket (api_lib A) (su_accept su) (su_conn su) (su_during su) hijacker rq (as_hub st) of
            (es, sock, h) \<Rightarrow>
              (\<lparr>oc_events = es, oc_panic = None, oc_logs = [], oc_socket = sock\<rparr>, st\<lparr>as_hub := h\<rparr>)))"

definition mux :: "'q api \<Rightarrow> surroundings \<Rightarrow> 'q api_state handler" where
  "mux A su hijacker rq st =
     (case find_route (rq_method rq) (rq_path rq) of
        Found t vs \<Rightarrow> dispatch_target A su t hijacker (rq\<lparr>rq_path_values := vs\<rparr>) st
      | MethodNotAllowed \<Rightarrow> wrote (http_Error ''Method Not Allowed'' 405, st)
      | PathNotFound \<Rightarrow> wrote (http_Error ''404 page not found'' 404, st))"

section \<open>Middleware\<close>

definition GetRequestID :: "request \<Rightarrow> string" where
  "GetRequestID rq = (case rq_request_id rq of Some i \<Rightarrow> i | None \<Rightarrow> '''')"

text \<open>
  The writer that \<open>Logging\<close> hands on remembers the last status written, 200 before any, and embeds
  the \<open>http.ResponseWriter\<close> interface only: it has no \<open>Hijack\<close> method, whatever it wraps.
\<close>

definition last_status :: "w_event list \<Rightarrow> int" where
  "last_status es = foldl (\<lambda>s e. case e of WriteHeader c \<Rightarrow> c | _ \<Rightarrow> s) 200 es"

definition responseWriter_hijacker :: "bool \<Rightarrow> bool" where
  "responseWriter_hijacker inner = False"

definition Logging :: "'s handler \<Rightarrow> 's handler" where
  "Logging nxt hijacker rq st =
     (case nxt (responseWriter_hijacker hijacker) rq st of
        (out, st) \<Rightarrow>
          (case oc_panic out of
             Some e \<Rightarrow> (out, st)
           | None \<Rightarrow>
              (out\<lparr>oc_logs := oc_logs out @ [\<lparr>lg_method = rq_method rq, lg_path = rq_path rq,
                 lg_status = last_status (oc_events out), lg_request_id = GetRequestID rq\<rparr>]\<rparr>, st)))"

definition Recovery :: "'s handler \<Rightarrow> 's handler" where
  "Recovery nxt hijacker rq st =
     (case nxt hijacker rq st of
        (out, st) \<Rightarrow>
          (case oc_panic out of
             None \<Rightarrow> (out, st)
           | Some e \<Rightarrow>
              (out\<lparr>oc_panic := None, oc_events := oc_events out @
                 http_Error ''{\"error\":\"internal server error\"}'' 500\<rparr>, st)))"

text \<open>\<open>fresh\<close> is the version 7 uuid drawn for the request, or the failure that \<open>uuid.Must\<close> panics on.\<close>

definition RequestID :: "lib \<Rightarrow> string + uuid \<Rightarrow> 's handler \<Rightarrow> 's handler" where
  "RequestID L fresh nxt hijacker rq st =
     (let given = rq_headers rq ''X-Request-ID'' in
      case (if given = '''' then map_sum id (uuid_String L) fresh else Inr given) of
        Inl e \<Rightarrow> (\<lparr>oc_events = [], oc_panic = Some e, oc_logs = [], oc_socket = None\<rparr>, st)
      | Inr i \<Rightarrow>
         (case nxt hijacker (rq\<lparr>rq_request_id := Some i\<rparr>) st of
            (out, st) \<Rightarrow> (out\<lparr>oc_events := SetHeader ''X-Request-ID'' i # oc_events out\<rparr>, st)))"

definition NewRouter :: "'q api \<Rightarrow> surroundings \<Rightarrow> string + uuid \<Rightarrow> 'q api_state handler" where
  "NewRouter A su fresh = RequestID (api_lib A) fresh (Recovery (Logging (mux A su)))"

end
