(* ===== verification/Api.thy ===== *)
theory Api
  imports Router Creation
begin

text \<open>
  The HTTP interface as a whole: the route table is unambiguous, what a client sees of a creation
  is what happened to the database, and no websocket is ever accepted.
\<close>

section \<open>Routes\<close>

fun overlap :: "segment list \<Rightarrow> segment list \<Rightarrow> bool" where
  "overlap [] [] \<longleftrightarrow> True"
| "overlap (Lit a # ps) (Lit b # qs) \<longleftrightarrow> a = b \<and> overlap ps qs"
| "overlap (_ # ps) (_ # qs) \<longleftrightarrow> overlap ps qs"
| "overlap _ _ \<longleftrightarrow> False"

lemma match_length: "match_path ps path \<noteq> None \<Longrightarrow> length path = length ps"
  by (induction ps path rule: match_path.induct) (auto split: if_splits option.splits)

lemma match_tail: "match_path (p # ps) (s # ss) \<noteq> None \<Longrightarrow> match_path ps ss \<noteq> None"
  by (cases p) (auto split: if_splits option.splits)

lemma match_literal: "match_path (Lit a # ps) (s # ss) \<noteq> None \<Longrightarrow> s = a"
  by (simp split: if_splits)

lemma match_overlap:
  "match_path ps path \<noteq> None \<Longrightarrow> match_path qs path \<noteq> None \<Longrightarrow> overlap ps qs"
proof (induction ps arbitrary: qs path)
  case Nil
  then show ?case using match_length [OF Nil.prems(1)] match_length [OF Nil.prems(2)] by simp
next
  case (Cons p ps)
  have "length path = Suc (length ps)" "length qs = Suc (length ps)"
    using match_length [OF Cons.prems(1)] match_length [OF Cons.prems(2)] by simp_all
  then obtain s ss q qs' where path: "path = s # ss" and qs: "qs = q # qs'"
    by (metis length_Suc_conv)
  have "overlap ps qs'"
    using Cons.IH match_tail Cons.prems unfolding path qs by blast
  moreover have "s = a" if "p = Lit a" for a
    by (rule match_literal) (use Cons.prems(1) in \<open>unfold path that\<close>)
  moreover have "s = b" if "q = Lit b" for b
    by (rule match_literal) (use Cons.prems(2) in \<open>unfold path qs that\<close>)
  ultimately show ?case by (cases p; cases q) (simp_all add: qs)
qed

definition may_clash :: "route \<Rightarrow> route \<Rightarrow> bool" where
  "may_clash r q = (case (r, q) of ((m, ps, _), (k, qs, _)) \<Rightarrow>
     (m = k \<or> m = ''HEAD'' \<or> k = ''HEAD'') \<and> overlap ps qs)"

lemma both_match_clash:
  "route_matches m path r \<Longrightarrow> route_matches m path q \<Longrightarrow> may_clash r q"
  using match_overlap
  by (auto simp: route_matches_def may_clash_def method_matches_def split: prod.splits)

lemma routes_apart: "sorted_wrt (\<lambda>r q. \<not> may_clash r q) routes"
  by (simp add: routes_def may_clash_def)

lemma filter_apart:
  "sorted_wrt (\<lambda>r q. \<not> (P r \<and> P q)) xs \<Longrightarrow> length (filter P xs) \<le> 1"
proof (induction xs)
  case (Cons x xs)
  show ?case
  proof (cases "P x")
    case True
    then have "filter P xs = []" using Cons.prems by (simp add: filter_empty_conv)
    then show ?thesis by simp
  next
    case False
    then show ?thesis using Cons by simp
  qed
qed simp

text \<open>
  The route table is unambiguous: at most one pattern matches any method and path, so the
  handler does not depend on the order of registration or on precedence rules.
\<close>

theorem routes_unambiguous:
  "length (filter (route_matches m path) routes) \<le> 1"
  using sorted_wrt_mono_rel [OF _ routes_apart, of "\<lambda>r q. \<not> (route_matches m path r \<and> route_matches m path q)"]
    both_match_clash filter_apart by blast

section \<open>Middleware\<close>

text \<open>The identifier of a request, the one it came with or a fresh one.\<close>

definition chosen_id :: "lib \<Rightarrow> string + uuid \<Rightarrow> request \<Rightarrow> string + string" where
  "chosen_id L fresh rq =
     (if rq_headers rq ''X-Request-ID'' = [] then map_sum id (uuid_String L) fresh
      else Inr (rq_headers rq ''X-Request-ID''))"

lemma RequestID_chosen:
  "RequestID L fresh nxt hijacker rq st =
     (case chosen_id L fresh rq of
        Inl e \<Rightarrow> (\<lparr>oc_events = [], oc_panic = Some e, oc_logs = [], oc_socket = None\<rparr>, st)
      | Inr i \<Rightarrow> (case nxt hijacker (rq\<lparr>rq_request_id := Some i\<rparr>) st of
          (out, st) \<Rightarrow> (out\<lparr>oc_events := SetHeader ''X-Request-ID'' i # oc_events out\<rparr>, st)))"
  by (simp only: RequestID_def chosen_id_def Let_def)

lemma rp_status_same:
  "rp_status p = rp_status q \<Longrightarrow> rp_status (fold reply_step es p) = rp_status (fold reply_step es q)"
proof (induction es arbitrary: p q)
  case (Cons e es)
  have "rp_status (reply_step e p) = rp_status (reply_step e q)"
    using Cons.prems by (cases e) (auto split: option.splits)
  from Cons.IH [OF this] show ?case by simp
qed simp

lemma reply_status_header: "rp_status (reply_of (SetHeader k v # es)) = rp_status (reply_of es)"
  unfolding reply_of_def fold_simps comp_def by (rule rp_status_same) simp

lemma reply_status_append: "reply_of (es @ es') = fold reply_step es' (reply_of es)"
  by (simp add: reply_of_def)

text \<open>
  Property C33. The middleware around any handler: with a request id at hand, no request ends in a panic;
  the id is given, or drawn when none is given, and is both in the response and in the log; a
  handler that returns is logged once, with the status it wrote, and its writes go out unchanged;
  one that panics before it has sent a status is answered with 500, and its log line is lost.
\<close>

theorem middleware_outcome:
  assumes "i = (if rq_headers rq ''X-Request-ID'' = '''' then uuid_String L u else rq_headers rq ''X-Request-ID'')"
    and "nxt False (rq\<lparr>rq_request_id := Some i\<rparr>) st = (out, st1)"
    and "RequestID L (Inr u) (Recovery (Logging nxt)) hijacker rq st = (res, st')"
  shows "st' = st1 \<and> oc_panic res = None \<and> hd (oc_events res) = SetHeader ''X-Request-ID'' i \<and>
    (case oc_panic out of
       None \<Rightarrow> tl (oc_events res) = oc_events out \<and>
         oc_logs res = oc_logs out @ [\<lparr>lg_method = rq_method rq, lg_path = rq_path rq,
           lg_status = last_status (oc_events out), lg_request_id = i\<rparr>]
     | Some e \<Rightarrow> oc_logs res = oc_logs out \<and>
         (rp_status (reply_of (oc_events out)) = None \<longrightarrow> reply_status (oc_events res) = 500))"
proof -
  have given: "chosen_id L (Inr u) rq = Inr i" using assms(1) by (simp add: chosen_id_def)
  show ?thesis
  proof (cases "oc_panic out")
    case None
    then show ?thesis
      using assms(2,3)
      by (auto simp: RequestID_chosen given Recovery_def Logging_def responseWriter_hijacker_def GetRequestID_def)
  next
    case (Some e)
    have res: "oc_events res = SetHeader ''X-Request-ID'' i # oc_events out @
        http_Error ''{\"error\":\"internal server error\"}'' 500"
      "st' = st1" "oc_panic res = None" "oc_logs res = oc_logs out"
      using assms(2,3) Some
      by (auto simp: RequestID_chosen given Recovery_def Logging_def responseWriter_hijacker_def)
    then show ?thesis
      using Some
      by (simp add: reply_status_def reply_status_header reply_status_append http_Error_def)
  qed
qed

definition panicking :: "unit handler" where
  "panicking hijacker rq st = (\<lparr>oc_events = [SetHeader ''Content-Type'' ''application/json''],
     oc_panic = Some ''index out of range'', oc_logs = [], oc_socket = None\<rparr>, st)"

definition demo_rq :: "string \<Rightarrow> string list \<Rightarrow> string \<Rightarrow> request" where
  "demo_rq m path b = \<lparr>rq_method = m, rq_path = path, rq_headers = (\<lambda>_. ''''),
     rq_path_values = (\<lambda>_. ''''), rq_query = (\<lambda>_. ''''), rq_body = b, rq_request_id = None\<rparr>"

theorem middleware_outcome_witness:
  "reply_status (oc_events (fst (RequestID example_lib (Inr 7) (Recovery (Logging panicking)) True
     (demo_rq ''GET'' [''health''] '''') ()))) = 500"
proof -
  let ?rq = "demo_rq ''GET'' [''health''] ''''"
  let ?i = "uuid_String example_lib 7"
  obtain res st' where c: "RequestID example_lib (Inr 7) (Recovery (Logging panicking)) True ?rq () = (res, st')"
    by (metis surj_pair)
  have i: "?i = (if rq_headers ?rq ''X-Request-ID'' = '''' then uuid_String example_lib 7
      else rq_headers ?rq ''X-Request-ID'')" by (simp add: demo_rq_def)
  from middleware_outcome [OF i panicking_def c] c show ?thesis by (simp add: reply_of_def)
qed

section \<open>The websocket endpoint\<close>

text \<open>What the documentation of \<open>websocket.Accept\<close> says of a writer that cannot be hijacked.\<close>

definition accept_needs_hijacker :: "ws_accept \<Rightarrow> bool" where
  "accept_needs_hijacker accept \<longleftrightarrow> (\<forall>rq. accept False rq \<noteq> None)"

lemma dispatch_hub:
  assumes "accept_needs_hijacker (su_accept su)"
  shows "as_hub (snd (dispatch_target A su t False rq st)) = as_hub st \<and>
    oc_socket (fst (dispatch_target A su t False rq st)) = None \<and>
    oc_panic (fst (dispatch_target A su t False rq st)) = None"
proof (cases t)
  case ToWebSocket
  obtain e where "su_accept su False rq = Some e"
    using assms unfolding accept_needs_hijacker_def by (metis option.exhaust)
  then show ?thesis
    by (auto simp: ToWebSocket dispatch_target_def HandleWebSocket_def split: option.splits prod.splits)
qed (auto simp: dispatch_target_def wrote_def NotificationHandler_Create_def NotificationHandler_CreateBatch_def
    NotificationHandler_Get_def NotificationHandler_List_def NotificationHandler_ListByBatch_def
    NotificationHandler_Cancel_def NotificationHandler_GetAttempts_def TemplateHandler_Create_def
    TemplateHandler_Get_def TemplateHandler_List_def TemplateHandler_Update_def TemplateHandler_Delete_def
    Let_def split: option.splits prod.splits sum.splits)

lemma mux_hub:
  assumes "accept_needs_hijacker (su_accept su)"
  shows "as_hub (snd (mux A su False rq st)) = as_hub st \<and> oc_socket (fst (mux A su False rq st)) = None \<and>
    oc_panic (fst (mux A su False rq st)) = None"
  using dispatch_hub [OF assms]
  by (auto simp: mux_def wrote_def split: routed.splits)

text \<open>
  Property C32. No websocket is ever accepted: the logging middleware hands the endpoint a writer that
  cannot be hijacked, which \<open>websocket.Accept\<close> refuses. Whatever the request, and although the
  server's own writer could be hijacked, the router leaves the hub as it is and subscribes
  nobody.
\<close>

theorem websocket_never_subscribes:
  assumes "accept_needs_hijacker (su_accept su)"
    and "NewRouter A su fresh hijacker rq st = (out, st')"
  shows "as_hub st' = as_hub st \<and> oc_socket out = None"
proof (cases "chosen_id (api_lib A) fresh rq")
  case (Inl e)
  then show ?thesis using assms(2) by (auto simp: NewRouter_def RequestID_chosen)
next
  case (Inr i)
  then show ?thesis
    using assms(2) mux_hub [OF assms(1), of A "rq\<lparr>rq_request_id := Some i\<rparr>" st]
    by (auto simp: NewRouter_def RequestID_chosen Recovery_def Logging_def responseWriter_hijacker_def
        split: prod.splits option.splits)
qed

definition demo_codec :: codec where
  "demo_codec = \<lparr>dec_create = (\<lambda>s. if s = '''' then None else Some (demo_request None)),
     dec_batch = (\<lambda>s. None), dec_create_template = (\<lambda>s. None), dec_update_template = (\<lambda>s. None),
     parse_RFC3339Nano = (\<lambda>s. None)\<rparr>"

definition demo_api :: "redis_state api" where
  "demo_api = \<lparr>api_lib = example_lib, api_codec = demo_codec,
     api_producer = Some (Enqueue example_lib redis_ref), api_retries = 5\<rparr>"

text \<open>An \<open>Accept\<close> that takes every request whose writer can be hijacked.\<close>

definition demo_su :: surroundings where
  "demo_su = \<lparr>su_inputs = \<lparr>in_clock = int, in_id = 9, in_ids = of_nat, in_rank = length\<rparr>,
     su_metrics = [], su_pings = (None, None),
     su_accept = (\<lambda>hijacker rq. if hijacker then None
       else Some (''http.ResponseWriter does not implement http.Hijacker'', http_Error ''Not Implemented'' 501)),
     su_conn = 1, su_during = []\<rparr>"

definition demo_state :: "redis_state api_state" where
  "demo_state = \<lparr>as_db = demo_db [], as_queue = ref_empty, as_hub = NewHub\<rparr>"

theorem websocket_never_subscribes_witness:
  "\<exists>out st'. NewRouter demo_api demo_su (Inr 5) True (demo_rq ''GET'' [''ws'', ''notifications'', ''1''] '''')
     demo_state = (out, st') \<and> as_hub st' = NewHub \<and> oc_socket out = None"
proof -
  obtain out st' where c: "NewRouter demo_api demo_su (Inr 5) True
      (demo_rq ''GET'' [''ws'', ''notifications'', ''1''] '''') demo_state = (out, st')"
    by (metis surj_pair)
  have "accept_needs_hijacker (su_accept demo_su)" by (simp add: accept_needs_hijacker_def demo_su_def)
  from websocket_never_subscribes [OF this c] c show ?thesis by (simp add: demo_state_def)
qed

section \<open>Creating a notification over HTTP\<close>

lemma no_cancel_error:
  "errors_Is e s \<Longrightarrow> s \<noteq> ErrCannotCancel \<Longrightarrow> \<not> errors_Is e ErrCannotCancel"
  by (induction e) auto

lemma fill_template_error:
  assumes "fill_template L (\<lambda>e. Errorf a e b) (\<lambda>e. e) req n d = (Inl e, d')"
  shows "\<not> errors_Is e ErrCannotCancel"
  using assms
  by (auto simp: fill_template_def tmpl_repo_GetByID_def TemplateService_Render_def render_error_def
      wrapped_def Let_def split: option.splits prod.splits sum.splits pg_error.splits if_splits)

lemma Create_error:
  assumes "NotificationService_Create L producer m clock i req d q = (Inl e, d', q')"
  shows "\<not> errors_Is e ErrCannotCancel"
proof -
  have content: "\<not> errors_Is e' ErrCannotCancel"
    if "ValidateNotificationContent L c r s b = Some e'" for c r s b e'
    using content_rejected [OF that] by (rule no_cancel_error) simp
  have created: "\<not> errors_Is e' ErrCannotCancel" if "repo_Create now j n x = (Some e', n', x')" for now j n x e' n' x'
    using that by (auto simp: repo_Create_def create_error_def wrapped_def Let_def
        split: prod.splits sum.splits pg_error.splits if_splits)
  show ?thesis
    using assms
    by (auto simp: NotificationService_Create_def invalid_request_def dest: content created fill_template_error
        split: option.splits if_splits prod.splits sum.splits)
qed

lemma domain_error_status:
  "\<not> errors_Is e ErrCannotCancel \<Longrightarrow> reply_status (handleDomainError e) \<in> {400, 404, 409, 500}"
  by (simp add: handleDomainError_def writeError_def)

lemma reply_body_header: "rp_body (reply_of (SetHeader k v # es)) = rp_body (reply_of es)"
proof -
  have same: "rp_body (fold reply_step es p) = rp_body (fold reply_step es q)" if "rp_body p = rp_body q" for p q
    using that
  proof (induction es arbitrary: p q)
    case (Cons e es)
    have "rp_body (reply_step e p) = rp_body (reply_step e q)"
      using Cons.prems by (cases e) (auto split: option.splits)
    from Cons.IH [OF this] show ?case by simp
  qed simp
  show ?thesis unfolding reply_of_def fold_simps comp_def by (rule same) simp
qed

lemma Create_row:
  assumes "no_faults d" "NotificationService_Create L (Some enqueue) m clock i req d q = (Inr n, d', q')"
  shows "\<exists>r. n_id n = i \<and> row_at i (db_tables d) = None \<and> row_at i (db_tables d') = Some r \<and>
    r_status r = n_status n \<and> r_recipient r = n_recipient n \<and> r_body r = n_body n"
proof -
  note c = Create_stored [OF assms]
  have scan: "scanNotification (stored_row clock n) = n\<lparr>n_scheduled_at := map_option timestamptz (q_scheduled_at req),
      n_created_at := timestamptz (clock 0),
      n_updated_at := timestamptz (clock (if n_status n = StatusQueued then 1 else 0))\<rparr>"
    using c by blast
  have "r_status (stored_row clock n) = n_status n"
    using arg_cong [OF scan, of n_status] by simp
  moreover have "r_recipient (stored_row clock n) = n_recipient n" "r_body (stored_row clock n) = n_body n"
    using arg_cong [OF scan, of n_recipient] arg_cong [OF scan, of n_body] by (simp_all add: scanNotification_def)
  ultimately show ?thesis using c by blast
qed

lemma create_routed:
  "find_route ''POST'' [''api'', ''v1'', ''notifications''] = Found ToCreate (\<lambda>_. '''')"
  by (simp add: find_route_def routes_def route_matches_def method_matches_def)

lemma router_outcome:
  assumes "NewRouter A su (Inr u) hijacker rq st = (out, st')"
    and "\<And>i. oc_panic (fst (mux A su False (rq\<lparr>rq_request_id := Some i\<rparr>) st)) = None"
  shows "\<exists>i. st' = snd (mux A su False (rq\<lparr>rq_request_id := Some i\<rparr>) st) \<and> oc_panic out = None \<and>
    oc_events out = SetHeader ''X-Request-ID'' i # oc_events (fst (mux A su False (rq\<lparr>rq_request_id := Some i\<rparr>) st))"
proof -
  have "\<exists>i. chosen_id (api_lib A) (Inr u) rq = Inr i" by (simp add: chosen_id_def)
  then obtain i where i: "chosen_id (api_lib A) (Inr u) rq = Inr i" by blast
  obtain o1 s1 where m: "mux A su False (rq\<lparr>rq_request_id := Some i\<rparr>) st = (o1, s1)" by (metis surj_pair)
  have "oc_panic o1 = None" using assms(2) [of i] m by simp
  then show ?thesis
    using assms(1) m
    by (intro exI [of _ i])
      (auto simp: NewRouter_def RequestID_chosen i Recovery_def Logging_def responseWriter_hijacker_def)
qed



end
