(* ===== verification/Program.thy ===== *)
theory Program
  imports Workers Api System
begin

text \<open>
  The running program: the HTTP server, the pool of workers, the delayed-retry processor and the
  scheduler, all over one database, one Redis and one hub. A run is a list of events, each one step of
  one goroutine, in any order.
\<close>

section \<open>Events\<close>

record 'r program =
  pg_done :: bool
  pg_pool :: "work_state list"
  pg_delayed :: loop_state
  pg_scheduler :: loop_state
  pg_world :: "'r world"

text \<open>The parts that do not change while the program runs.\<close>

record 'r wiring =
  wi_dispatcher :: "'r dispatcher"
  wi_scheduler :: scheduler
  wi_codec :: codec
  wi_max_retries :: int
  wi_consumer :: string

definition wired_api :: "'r wiring \<Rightarrow> 'r api" where
  "wired_api S = (let D = wi_dispatcher S in
     \<lparr>api_lib = d_lib D, api_codec = wi_codec S,
      api_producer = Some (Enqueue (d_lib D) (d_redis D)), api_retries = wi_max_retries S\<rparr>)"

datatype event =
    Worker nat draws
  | Delayed time bool
  | Scheduler "uuid list" time bool
  | Request surroundings "string + uuid" request
  | Signal

definition server_state :: "'r world \<Rightarrow> 'r api_state" where
  "server_state w = \<lparr>as_db = w_db w, as_queue = w_redis w, as_hub = w_hub w\<rparr>"

definition with_state :: "'r world \<Rightarrow> 'r api_state \<Rightarrow> 'r world" where
  "with_state w st = w\<lparr>w_db := as_db st, w_redis := as_queue st, w_hub := as_hub st\<rparr>"

definition request_step ::
  "'r wiring \<Rightarrow> surroundings \<Rightarrow> string + uuid \<Rightarrow> request \<Rightarrow> 'r world \<Rightarrow> 'r world" where
  "request_step S su fresh rq w =
     with_state w (snd (NewRouter (wired_api S) su fresh True rq (server_state w)))"

fun apply_event :: "'r wiring \<Rightarrow> event \<Rightarrow> 'r program \<Rightarrow> 'r program" where
  "apply_event S (Worker j x) p =
     (if j < length (pg_pool p) then
        (case work_step (wi_dispatcher S) (wi_consumer S) x (pg_done p) (pg_pool p ! j) (pg_world p) of
           (s, w) \<Rightarrow> p\<lparr>pg_pool := (pg_pool p)[j := s], pg_world := w\<rparr>)
      else p)"
| "apply_event S (Delayed clock take_done) p =
     (case ProcessDelayed (wi_dispatcher S) clock (pg_done p) take_done (pg_delayed p) (pg_world p) of
        (s, w) \<Rightarrow> p\<lparr>pg_delayed := s, pg_world := w\<rparr>)"
| "apply_event S (Scheduler locked dbnow take_done) p =
     (case Scheduler_Run (d_lib (wi_dispatcher S)) (d_redis (wi_dispatcher S)) (wi_scheduler S) locked dbnow
        (pg_done p) take_done (pg_scheduler p) (pg_world p) of
        (s, w) \<Rightarrow> p\<lparr>pg_scheduler := s, pg_world := w\<rparr>)"
| "apply_event S (Request su fresh rq) p = p\<lparr>pg_world := request_step S su fresh rq (pg_world p)\<rparr>"
| "apply_event S Signal p = p\<lparr>pg_done := True\<rparr>"

definition run_events :: "'r wiring \<Rightarrow> event list \<Rightarrow> 'r program \<Rightarrow> 'r program" where
  "run_events S es p = fold (apply_event S) es p"

lemma run_events_simps [simp]:
  "run_events S [] p = p" "run_events S (e # es) p = run_events S es (apply_event S e p)"
  "run_events S (es @ es') p = run_events S es' (run_events S es p)"
  by (simp_all add: run_events_def)

section \<open>Every run is a run of the step relation\<close>

abbreviation sys_steps :: "'r wiring \<Rightarrow> 'r world \<Rightarrow> 'r world \<Rightarrow> bool" where
  "sys_steps S \<equiv> (sys_step (wi_dispatcher S) (wi_max_retries S))\<^sup>*\<^sup>*"

lemma server_state_simps [simp]:
  "as_db (server_state w) = w_db w" "as_queue (server_state w) = w_redis w"
  "as_hub (server_state w) = w_hub w"
  by (simp_all add: server_state_def)

lemma with_state_simps [simp]:
  "with_state w (server_state w) = w"
  "with_state w ((server_state w)\<lparr>as_db := d\<rparr>) = w\<lparr>w_db := d\<rparr>"
  "with_state w ((server_state w)\<lparr>as_db := d, as_queue := q\<rparr>) = w\<lparr>w_db := d, w_redis := q\<rparr>"
  "with_state w ((server_state w)\<lparr>as_hub := h\<rparr>) = w\<lparr>w_hub := h\<rparr>"
  by (simp_all add: with_state_def server_state_def)

lemma sys_hub_run:
  "(sys_step D m)\<^sup>*\<^sup>* w (w\<lparr>w_hub := hub_run es (w_hub w)\<rparr>)"
proof (induction es arbitrary: w)
  case (Cons e es)
  have "(sys_step D m)\<^sup>*\<^sup>* (w\<lparr>w_hub := hub_apply e (w_hub w)\<rparr>) (w\<lparr>w_hub := hub_run (e # es) (w_hub w)\<rparr>)"
    using Cons.IH [of "w\<lparr>w_hub := hub_apply e (w_hub w)\<rparr>"] by (simp add: hub_run_def)
  with sys_socket [of D m w e] show ?case by (rule converse_rtranclp_into_rtranclp)
qed (simp add: hub_run_def)

lemma sys_websocket:
  assumes "HandleWebSocket L accept conn during hijacker rq (w_hub w) = (es, sock, h)"
  shows "(sys_step D m)\<^sup>*\<^sup>* w (w\<lparr>w_hub := h\<rparr>)"
proof -
  have "h = w_hub w \<or> (\<exists>i. h = hub_run (Subscribed i conn # during @ [Unsubscribed i conn]) (w_hub w))"
    using assms by (auto simp: HandleWebSocket_def hub_run_def split: option.splits prod.splits)
  then show ?thesis using sys_hub_run [of D m w] by auto
qed

lemma sys_one: "sys_step D m w w' \<Longrightarrow> (sys_step D m)\<^sup>*\<^sup>* w w'"
  by (rule r_into_rtranclp)

lemma sys_reads:
  "NotificationService_Cancel now i (w_db w) = (e, d) \<Longrightarrow> (sys_step D m)\<^sup>*\<^sup>* w (w\<lparr>w_db := d\<rparr>)"
  "NotificationService_GetByID i (w_db w) = (x, d) \<Longrightarrow> (sys_step D m)\<^sup>*\<^sup>* w (w\<lparr>w_db := d\<rparr>)"
  "NotificationService_List f (w_db w) = (y, d) \<Longrightarrow> (sys_step D m)\<^sup>*\<^sup>* w (w\<lparr>w_db := d\<rparr>)"
  "NotificationService_GetDeliveryAttempts i (w_db w) = (z, d) \<Longrightarrow> (sys_step D m)\<^sup>*\<^sup>* w (w\<lparr>w_db := d\<rparr>)"
  using sys_cancel [of D m w now i] sys_get [of D m w i] sys_list [of D m w f] sys_attempts [of D m w i] sys_one
  by force+

lemma sys_templates:
  "TemplateService_Create (d_lib D) now i treq (w_db w) = (x, d) \<Longrightarrow> (sys_step D m)\<^sup>*\<^sup>* w (w\<lparr>w_db := d\<rparr>)"
  "TemplateService_GetByID i (w_db w) = (y, d) \<Longrightarrow> (sys_step D m)\<^sup>*\<^sup>* w (w\<lparr>w_db := d\<rparr>)"
  "TemplateService_List rank (w_db w) = (z, d) \<Longrightarrow> (sys_step D m)\<^sup>*\<^sup>* w (w\<lparr>w_db := d\<rparr>)"
  "TemplateService_Update (d_lib D) now i ureq (w_db w) = (y, d) \<Longrightarrow> (sys_step D m)\<^sup>*\<^sup>* w (w\<lparr>w_db := d\<rparr>)"
  "TemplateService_Delete i (w_db w) = (e, d) \<Longrightarrow> (sys_step D m)\<^sup>*\<^sup>* w (w\<lparr>w_db := d\<rparr>)"
  using sys_template_create [of D m w now i treq] sys_template_get [of D m w i]
    sys_template_list [of D m w rank] sys_template_update [of D m w now i ureq]
    sys_template_delete [of D m w i] sys_one
  by force+

lemma sys_creations:
  assumes "D = wi_dispatcher S" "m = wi_max_retries S"
  shows "NotificationService_Create (api_lib (wired_api S)) (api_producer (wired_api S)) (api_retries (wired_api S))
      clock i req (w_db w) (w_redis w) = (res, d, q) \<Longrightarrow> (sys_step D m)\<^sup>*\<^sup>* w (w\<lparr>w_db := d, w_redis := q\<rparr>)"
    "NotificationService_CreateBatch (api_lib (wired_api S)) (api_producer (wired_api S)) (api_retries (wired_api S))
      clock i ids reqs (w_db w) (w_redis w) = (ress, d, q) \<Longrightarrow> (sys_step D m)\<^sup>*\<^sup>* w (w\<lparr>w_db := d, w_redis := q\<rparr>)"
  using assms sys_one [OF sys_create [of D m]] sys_one [OF sys_create_batch [of D m]]
  by (auto simp: wired_api_def Let_def)

lemma api_lib_wired [simp]: "api_lib (wired_api S) = d_lib (wi_dispatcher S)"
  by (simp add: wired_api_def Let_def)

lemma sys_target:
  "sys_steps S w (with_state w (snd (dispatch_target (wired_api S) su t hijacker rq (server_state w))))"
proof (cases t)
  case ToWebSocket
  then show ?thesis
    by (auto simp: dispatch_target_def Let_def split: prod.splits intro: sys_websocket)
qed (auto simp: dispatch_target_def wrote_def NotificationHandler_Create_def NotificationHandler_CreateBatch_def
    NotificationHandler_Get_def NotificationHandler_List_def NotificationHandler_ListByBatch_def
    NotificationHandler_Cancel_def NotificationHandler_GetAttempts_def TemplateHandler_Create_def
    TemplateHandler_Get_def TemplateHandler_List_def TemplateHandler_Update_def TemplateHandler_Delete_def
    Let_def simp del: api_lib_wired
    split: option.splits prod.splits sum.splits
    intro: sys_reads sys_templates [where D = "wi_dispatcher S", folded api_lib_wired] sys_creations [OF refl refl])

lemma sys_mux:
  "sys_steps S w (with_state w (snd (mux (wired_api S) su hijacker rq (server_state w))))"
  using sys_target by (auto simp: mux_def wrote_def split: routed.splits)

lemma sys_request: "sys_steps S w (request_step S su fresh rq w)"
  using sys_mux [of S w su "responseWriter_hijacker True"]
  by (auto simp: request_step_def NewRouter_def RequestID_chosen Recovery_def Logging_def
      split: prod.splits sum.splits option.splits) (metis snd_conv)+

lemma sys_work_step:
  assumes "work_step D cn x ctx_done s w = (s', w')"
  shows "(sys_step D m)\<^sup>*\<^sup>* w w'"
proof (cases s)
  case AtRead
  have "w' = w\<lparr>w_redis := snd (ReadMessages (d_redis D) cn 1 2000000000 (w_redis w))\<rparr>"
    using assms AtRead by (auto split: prod.splits option.splits sum.splits)
  then show ?thesis using sys_read [of D m w cn 2000000000] by simp
next
  case (Handling ms)
  then show ?thesis
    using assms sys_process [of D m w "cut_short ctx_done (dr_turns x)" "dr_clock x" "dr_attempt x"]
    by (cases ms) (auto simp: Let_def)
qed (use assms in auto)

lemma sys_event: "sys_steps S (pg_world p) (pg_world (apply_event S e p))"
proof (cases e)
  case (Worker j x)
  then show ?thesis using sys_work_step by (auto split: prod.splits)
next
  case (Delayed clock b)
  then show ?thesis
    by (auto simp: ProcessDelayed_def tick_loop_def intro: sys_one sys_delayed)
next
  case (Scheduler locked dbnow b)
  then show ?thesis
    by (auto simp: Scheduler_Run_def tick_loop_def split: prod.splits intro: sys_one sys_poll)
qed (auto simp: sys_request)


end
