(* ===== verification/Consumption.thy ===== *)
theory Consumption
  imports Program
begin

text \<open>
  What happens to a queued message: it is read by one worker, which holds it until it acknowledges
  it; while workers run every message is handled in the end; and a message whose worker is gone is
  never handled again.
\<close>

section \<open>Entries over time\<close>

abbreviation ids :: "entry list \<Rightarrow> string set" where
  "ids es \<equiv> fst ` set es"

text \<open>
  Ids are used once per stream, and an entry that is unread or pending is in the log.
\<close>

definition entries_ok :: "entry list \<Rightarrow> entry list \<Rightarrow> entry list \<Rightarrow> bool" where
  "entries_ok pend unread entries \<longleftrightarrow> distinct (map fst pend) \<and> distinct (map fst unread) \<and>
     ids pend \<inter> ids unread = {} \<and> ids pend \<subseteq> ids entries \<and> ids unread \<subseteq> ids entries"

definition ids_ok :: "view \<Rightarrow> bool" where
  "ids_ok v \<longleftrightarrow> (\<forall>k. entries_ok (v_pending v k) (v_unread v k) (v_log v k))"

lemma ids_append: "ids (xs @ ys) = ids xs \<union> ids ys"
  by auto

lemma entries_ok_add:
  "entries_ok p u l \<Longrightarrow> fst e \<notin> ids l \<Longrightarrow> entries_ok p (u @ [e]) (l @ [e])"
  unfolding entries_ok_def ids_append by auto

lemma entries_ok_filter: "entries_ok p u l \<Longrightarrow> entries_ok (filter P p) u l"
  unfolding entries_ok_def by (auto simp: distinct_map_filter)

lemma disjoint_grow: "A \<inter> L = {} \<Longrightarrow> B \<inter> M = {} \<Longrightarrow> L \<subseteq> M \<Longrightarrow> (A \<union> B) \<inter> L = {}"
  by blast

lemma move_part:
  "P \<inter> U = {} \<Longrightarrow> P \<subseteq> L \<Longrightarrow> U \<subseteq> L \<Longrightarrow> U = A \<union> B \<Longrightarrow> A \<inter> B = {} \<Longrightarrow>
     P \<inter> A = {} \<and> (P \<union> A) \<inter> B = {} \<and> P \<union> A \<subseteq> L \<and> B \<subseteq> L"
  by blast

lemma entries_ok_read:
  assumes "entries_ok p u l"
  shows "entries_ok (p @ take n u) (drop n u) l"
proof -
  have "map fst u = map fst (take n u) @ map fst (drop n u)"
    by (metis append_take_drop_id map_append)
  then have u: "distinct (map fst u) \<longleftrightarrow> distinct (map fst (take n u)) \<and> distinct (map fst (drop n u)) \<and>
      ids (take n u) \<inter> ids (drop n u) = {}"
    by (metis distinct_append set_map)
  have "ids u = ids (take n u) \<union> ids (drop n u)"
    by (metis append_take_drop_id ids_append)
  then show ?thesis
    using assms u move_part [of "ids p" "ids u" "ids l" "ids (take n u)" "ids (drop n u)"]
    by (simp only: entries_ok_def ids_append map_append distinct_append set_map simp_thms)
qed

definition view_later :: "(string \<times> string) set \<Rightarrow> view \<Rightarrow> view \<Rightarrow> bool" where
  "view_later acks v w \<longleftrightarrow> (\<forall>k. ids (v_log v k) \<subseteq> ids (v_log w k) \<and>
     (\<exists>es. v_unread w k = v_unread v k @ es \<and> ids es \<inter> ids (v_log v k) = {}) \<and>
     ids (v_pending w k) \<subseteq> ids (v_pending v k) \<and>
     (\<forall>i \<in> ids (v_pending v k). (k, i) \<notin> acks \<longrightarrow> i \<in> ids (v_pending w k)))"

lemma view_later_refl: "view_later acks v v"
  by (auto simp: view_later_def)

lemma view_later_trans:
  assumes "view_later acks u v" "view_later acks v w"
  shows "view_later acks u w"
  unfolding view_later_def
proof (intro allI)
  fix k
  note later = assms [unfolded view_later_def, THEN spec, of k]
  obtain es where es: "v_unread v k = v_unread u k @ es" "ids es \<inter> ids (v_log u k) = {}"
    using later(1) by (elim conjE exE)
  obtain es' where es': "v_unread w k = v_unread v k @ es'" "ids es' \<inter> ids (v_log v k) = {}"
    using later(2) by (elim conjE exE)
  have logs: "ids (v_log u k) \<subseteq> ids (v_log v k)" "ids (v_log v k) \<subseteq> ids (v_log w k)"
    by (rule later(1) [THEN conjunct1], rule later(2) [THEN conjunct1])
  note pend_u = later(1) [THEN conjunct2, THEN conjunct2] and pend_v = later(2) [THEN conjunct2, THEN conjunct2]
  have "v_unread w k = v_unread u k @ es @ es'" by (simp add: es(1) es'(1))
  moreover have "ids (es @ es') \<inter> ids (v_log u k) = {}"
    unfolding ids_append by (rule disjoint_grow [OF es(2) es'(2) logs(1)])
  moreover have "ids (v_pending w k) \<subseteq> ids (v_pending u k)"
    using pend_v [THEN conjunct1] pend_u [THEN conjunct1] by (rule subset_trans)
  moreover have "\<forall>i \<in> ids (v_pending u k). (k, i) \<notin> acks \<longrightarrow> i \<in> ids (v_pending w k)"
    by (intro ballI impI)
      (rule pend_v [THEN conjunct2, THEN bspec, THEN mp],
       rule pend_u [THEN conjunct2, THEN bspec, THEN mp], assumption+)
  ultimately show "ids (v_log u k) \<subseteq> ids (v_log w k) \<and>
      (\<exists>es. v_unread w k = v_unread u k @ es \<and> ids es \<inter> ids (v_log u k) = {}) \<and>
      ids (v_pending w k) \<subseteq> ids (v_pending u k) \<and>
      (\<forall>i \<in> ids (v_pending u k). (k, i) \<notin> acks \<longrightarrow> i \<in> ids (v_pending w k))"
    by (intro conjI subset_trans [OF logs] exI [of _ "es @ es'"])
qed

lemma view_step_later: "view_step acks v w \<Longrightarrow> view_later acks v w"
  by (erule view_step.cases) (auto simp: view_later_def view_defs)

lemma view_steps_later: "view_steps acks v w \<Longrightarrow> view_later acks v w"
  by (induction rule: rtranclp_induct) (blast intro: view_later_refl view_later_trans view_step_later)+

lemma view_step_ids: "view_step acks v w \<Longrightarrow> ids_ok v \<Longrightarrow> ids_ok w"
  by (induction rule: view_step.induct)
    (simp_all add: ids_ok_def view_defs entries_ok_add entries_ok_filter)

lemma view_steps_ids: "view_steps acks v w \<Longrightarrow> ids_ok v \<Longrightarrow> ids_ok w"
  by (induction rule: rtranclp_induct) (blast intro: view_step_ids)+

section \<open>Reading one entry of every stream\<close>

definition head_keys :: "view \<Rightarrow> string list \<Rightarrow> (string \<times> string) list" where
  "head_keys v ks = concat (map (\<lambda>k. map (\<lambda>e. (k, fst e)) (take 1 (v_unread v k))) ks)"

definition msg_key :: "message \<Rightarrow> string \<times> string" where
  "msg_key m = (m_stream_id m, m_message_id m)"

lemma to_message_key: "to_message k e = Some m \<Longrightarrow> msg_key m = (k, fst e)"
  by (auto simp: to_message_def msg_key_def split: option.splits)

lemma oldest_keys:
  assumes "streams_ok v"
  shows "map msg_key (concat (map (oldest_messages 1 v) ks)) = head_keys v ks"
proof -
  have "msg_key (the (to_message k e)) = (k, fst e)" if "e \<in> set (v_unread v k)" for k e
    using to_message_ok [of k e] that assms to_message_key [of k e] by (auto simp: streams_ok_def)
  then have "map msg_key (oldest_messages 1 v k) = map (\<lambda>e. (k, fst e)) (take 1 (v_unread v k))" for k
    by (auto simp: oldest_messages_def dest: in_set_takeD)
  then show ?thesis by (simp add: head_keys_def map_concat comp_def)
qed

lemma ids_ok_xread: "ids_ok v \<Longrightarrow> ids_ok (view_xread ks c v)"
  by (simp add: ids_ok_def view_xread_def entries_ok_read)

lemma head_keys_new:
  assumes "ids_ok v" "distinct ks"
  shows "distinct (head_keys v ks)"
    and "(k, i) \<in> set (head_keys v ks) \<Longrightarrow> i \<notin> ids (v_pending v k) \<and> i \<in> ids (v_pending (view_xread ks 1 v) k)"
proof -
  show "distinct (head_keys v ks)"
    using assms(2)
  proof (induction ks)
    case (Cons k ks)
    have "length (take 1 (v_unread v k)) \<le> 1" by simp
    then have "distinct (map (\<lambda>e. (k, fst e)) (take 1 (v_unread v k)))"
      by (cases "v_unread v k") auto
    then show ?case using Cons by (auto simp: head_keys_def)
  qed (simp add: head_keys_def)
  assume "(k, i) \<in> set (head_keys v ks)"
  then obtain e where e: "k \<in> set ks" "e \<in> set (take 1 (v_unread v k))" "i = fst e"
    by (auto simp: head_keys_def)
  then have "i \<in> ids (v_unread v k)" by (auto dest: in_set_takeD)
  then have "i \<notin> ids (v_pending v k)"
    using assms(1) [unfolded ids_ok_def, THEN spec, of k] unfolding entries_ok_def by blast
  then show "i \<notin> ids (v_pending v k) \<and> i \<in> ids (v_pending (view_xread ks 1 v) k)"
    using e by (auto simp: view_xread_def)
qed

section \<open>The effect of an event on Redis\<close>

lemma msg_key_pair: "{(m_stream_id m, m_message_id m)} = {msg_key m}"
  by (simp add: msg_key_def)

context redis_service
begin

lemma request_steps:
  assumes "d_redis (wi_dispatcher S) = R" "redis_up R"
  shows "view_steps acks (view_of (w_redis w)) (view_of (w_redis (request_step S su fresh rq w)))"
proof -
  have target: "view_steps acks (view_of (w_redis w))
      (view_of (as_queue (snd (dispatch_target (wired_api S) su t hijacker rq (server_state w)))))" for t hijacker rq
    by (cases t)
      (auto simp: dispatch_target_def wrote_def NotificationHandler_Create_def NotificationHandler_CreateBatch_def
        NotificationHandler_Get_def NotificationHandler_List_def NotificationHandler_ListByBatch_def
        NotificationHandler_Cancel_def NotificationHandler_GetAttempts_def TemplateHandler_Create_def
        TemplateHandler_Get_def TemplateHandler_List_def TemplateHandler_Update_def TemplateHandler_Delete_def
        wired_api_def assms Let_def split: option.splits prod.splits sum.splits
        dest: steps_Create [OF assms(2)] steps_CreateBatch [OF assms(2)])
  have "view_steps acks (view_of (w_redis w))
      (view_of (as_queue (snd (mux (wired_api S) su hijacker rq (server_state w)))))" for hijacker rq
    using target by (auto simp: mux_def wrote_def split: routed.splits)
  then show ?thesis
    by (auto simp: request_step_def with_state_def NewRouter_def RequestID_chosen Recovery_def Logging_def
        split: prod.splits sum.splits option.splits) (metis snd_conv)+
qed

lemma other_event:
  assumes "d_redis (wi_dispatcher S) = R" "redis_up R" "\<And>j x. e \<noteq> Worker j x"
  shows "pg_pool (apply_event S e p) = pg_pool p \<and>
    view_steps acks (view_of (w_redis (pg_world p))) (view_of (w_redis (pg_world (apply_event S e p))))"
proof (cases e)
  case (Delayed clock b)
  then show ?thesis
    using steps_processDelayedBatch [OF assms(1,2)] by (auto simp: ProcessDelayed_def tick_loop_def)
next
  case (Scheduler locked dbnow b)
  then show ?thesis
    by (auto simp: Scheduler_Run_def tick_loop_def assms(1) split: prod.splits intro: steps_poll [OF assms(2)])
qed (use request_steps [OF assms(1,2)] assms(3) in auto)

lemma read_effect:
  assumes "d_redis D = R" "redis_up R" "streams_ok (view_of (w_redis w))"
    and "work_step D cn x ctx_done AtRead w = (s', w')"
  shows "\<exists>ms. s' = Handling ms \<and> map msg_key ms = head_keys (view_of (w_redis w)) priority_streams \<and>
    ms = concat (map (oldest_messages 1 (view_of (w_redis w))) priority_streams) \<and>
    view_of (w_redis w') = view_xread priority_streams 1 (view_of (w_redis w))"
proof -
  obtain y r where read: "ReadMessages R cn 1 2000000000 (w_redis w) = (y, r)" by (metis surj_pair)
  have "y \<noteq> None" using ReadMessages_total [OF assms(2,3) _ read] by simp
  moreover have "y \<noteq> Some (Inl e)" for e
    using assms(2) read unfolding redis_up_def ReadMessages_def Let_def
    by (auto split: prod.splits sum.splits redis_error.splits)
  ultimately obtain ms where y: "y = Some (Inr ms)" by (metis obj_sumE option.exhaust)
  from ReadMessages_reads [OF assms(3) _ read [unfolded y]] oldest_keys [OF assms(3)]
  show ?thesis using assms(1,4) read y by auto
qed

lemma handling_effect:
  assumes "d_redis D = R" "redis_up R"
    and "work_step D cn x ctx_done (Handling (m # ms)) w = (s', w')"
  shows "if handler_returns D (cut_short ctx_done (dr_turns x)) m (w_redis w)
    then s' = Handling ms \<and> view_steps {msg_key m} (view_of (w_redis w)) (view_of (w_redis w')) \<and>
      (ctx_done \<or> m_message_id m \<notin> ids (v_pending (view_of (w_redis w')) (m_stream_id m)))
    else s' = Handling (m # ms) \<and> view_steps {} (view_of (w_redis w)) (view_of (w_redis w'))"
proof -
  let ?turns = "cut_short ctx_done (dr_turns x)"
  have w': "w' = processMessage D ?turns (dr_clock x) (dr_attempt x) m w"
    using assms(3) by (simp add: Let_def)
  obtain y r where wait: "rate_wait (d_redis D) (d_limiter D) (m_channel m) ?turns (w_redis w) = (y, r)"
    by (metis surj_pair)
  show ?thesis
  proof (cases "handler_returns D ?turns m (w_redis w)")
    case True
    have not_cut: "y \<noteq> CtxDone" if "\<not> ctx_done"
    proof -
      have "rate_wait R' l ch (cut_short False turns) q = (z, q') \<Longrightarrow> z \<noteq> CtxDone" for R' :: "'a redis" and l ch turns q z q'
        by (induction turns arbitrary: q) (auto simp: cut_short_def split: prod.splits sum.splits bool.splits)
      from this [OF wait [simplified that]] show ?thesis .
    qed
    have "m_message_id m \<notin> ids (v_pending (view_of (w_redis w')) (m_stream_id m))" if "\<not> ctx_done"
    proof -
      have "snd (uuid_Parse (d_lib D) (m_notification_id m)) \<noteq> None \<or>
          fst (rate_wait (d_redis D) (d_limiter D) (m_channel m) ?turns (w_redis w)) = Proceed"
        using True not_cut [OF that] wait unfolding handler_returns_def by (cases y) auto
      from processMessage_acks [OF this] obtain q where "w_redis w' = snd (Ack R (m_stream_id m) (m_message_id m) q)"
        unfolding w' assms(1) by blast
      then show ?thesis using Ack_not_pending [OF assms(2)] by simp
    qed
    moreover have "s' = Handling ms" using True assms(3) by (simp add: Let_def)
    moreover have "view_steps {msg_key m} (view_of (w_redis w)) (view_of (w_redis w'))"
      using steps_processMessage [OF assms(1,2), of m w] unfolding msg_key_pair w' .
    ultimately show ?thesis using True by metis
  next
    case False
    then have "snd (uuid_Parse (d_lib D) (m_notification_id m)) = None" "y = Waiting"
      using wait by (auto simp: handler_returns_def)
    then have "w' = w\<lparr>w_redis := r\<rparr>"
      unfolding w' by (intro processMessage_interrupted [OF _ wait]) simp_all
    then show ?thesis
      using False assms(3) steps_rate_wait [OF assms(2) wait [unfolded assms(1)]] by (simp add: Let_def)
  qed
qed

end

section \<open>Messages and their owners\<close>

fun held :: "work_state \<Rightarrow> (string \<times> string) list" where
  "held (Handling ms) = map msg_key ms"
| "held _ = []"

definition all_held :: "work_state list \<Rightarrow> (string \<times> string) list" where
  "all_held ws = concat (map held ws)"

definition pending_keys :: "view \<Rightarrow> (string \<times> string) set" where
  "pending_keys v = {key. snd key \<in> ids (v_pending v (fst key))}"

text \<open>
  No message is held twice, and a message that is held is pending; a pending message may be
  stranded, held by no worker.
\<close>

definition owned :: "view \<Rightarrow> work_state list \<Rightarrow> bool" where
  "owned v ws \<longleftrightarrow> distinct (all_held ws) \<and> set (all_held ws) \<subseteq> pending_keys v"

definition stranded :: "view \<Rightarrow> work_state list \<Rightarrow> (string \<times> string) set" where
  "stranded v ws = pending_keys v - set (all_held ws)"

lemma all_held_simps [simp]:
  "all_held [] = []" "all_held (s # ws) = held s @ all_held ws" "all_held (xs @ ys) = all_held xs @ all_held ys"
  by (simp_all add: all_held_def)

lemma pending_kept:
  assumes "view_steps acks v w"
  shows "pending_keys v - acks \<subseteq> pending_keys w"
proof -
  have "\<forall>i \<in> ids (v_pending v k). (k, i) \<notin> acks \<longrightarrow> i \<in> ids (v_pending w k)" for k
    using view_steps_later [OF assms] unfolding view_later_def by (elim allE conjE)
  then show ?thesis unfolding pending_keys_def by (metis (mono_tags, lifting) DiffE mem_Collect_eq prod.collapse subsetI)
qed

lemma owned_steps:
  assumes "view_steps {} v w"
  shows "owned v ws \<Longrightarrow> owned w ws" "stranded v ws \<subseteq> stranded w ws"
  using pending_kept [OF assms] unfolding owned_def stranded_def by blast+

lemma owned_ack:
  assumes "view_steps {msg_key m} v w" "owned v (xs @ Handling (m # ms) # ys)"
  shows "owned w (xs @ Handling ms # ys)"
    and "stranded v (xs @ Handling (m # ms) # ys) \<subseteq> stranded w (xs @ Handling ms # ys)"
proof -
  let ?rest = "all_held xs @ map msg_key ms @ all_held ys"
  have all: "set (all_held (xs @ Handling (m # ms) # ys)) = insert (msg_key m) (set ?rest)" by auto
  have "distinct ?rest" "msg_key m \<notin> set ?rest" "set ?rest \<subseteq> pending_keys v"
    using assms(2) unfolding owned_def all by auto
  then show "owned w (xs @ Handling ms # ys)"
    using pending_kept [OF assms(1)] unfolding owned_def all_held_simps held.simps by blast
  show "stranded v (xs @ Handling (m # ms) # ys) \<subseteq> stranded w (xs @ Handling ms # ys)"
    using pending_kept [OF assms(1)] unfolding stranded_def all unfolding all_held_simps held.simps by blast
qed

lemma pending_xread:
  assumes "ids_ok v" "distinct ks"
  shows "pending_keys v \<union> set (head_keys v ks) \<subseteq> pending_keys (view_xread ks 1 v)"
    and "set (head_keys v ks) \<inter> pending_keys v = {}"
proof -
  have "pending_keys v \<subseteq> pending_keys (view_xread ks 1 v)"
    by (rule subsetI) (simp add: pending_keys_def view_xread_def image_Un)
  moreover have "key \<in> pending_keys (view_xread ks 1 v) \<and> key \<notin> pending_keys v"
    if "key \<in> set (head_keys v ks)" for key
    using head_keys_new(2) [OF assms, of "fst key" "snd key"] that by (simp add: pending_keys_def)
  ultimately show "pending_keys v \<union> set (head_keys v ks) \<subseteq> pending_keys (view_xread ks 1 v)"
    "set (head_keys v ks) \<inter> pending_keys v = {}" by blast+
qed

lemma owned_read:
  assumes "ids_ok v" "distinct ks" "map msg_key ms = head_keys v ks" "owned v (xs @ AtRead # ys)"
  shows "owned (view_xread ks 1 v) (xs @ Handling ms # ys)"
    and "stranded v (xs @ AtRead # ys) \<subseteq> stranded (view_xread ks 1 v) (xs @ Handling ms # ys)"
proof -
  have p: "set (all_held xs) \<union> set (all_held ys) \<subseteq> pending_keys v"
    and d: "distinct (all_held xs @ all_held ys)"
    using assms(4) by (auto simp: owned_def)
  note new = pending_xread [OF assms(1,2)]
  have "distinct (all_held xs @ head_keys v ks @ all_held ys)"
    using d p new(2) head_keys_new(1) [OF assms(1,2)] unfolding distinct_append set_append by blast
  then show "owned (view_xread ks 1 v) (xs @ Handling ms # ys)"
    using p new(1) unfolding owned_def all_held_simps held.simps assms(3) set_append by blast
  show "stranded v (xs @ AtRead # ys) \<subseteq> stranded (view_xread ks 1 v) (xs @ Handling ms # ys)"
    using new unfolding stranded_def all_held_simps held.simps assms(3) set_append by auto
qed

definition pg_view :: "('r \<Rightarrow> view) \<Rightarrow> 'r program \<Rightarrow> view" where
  "pg_view V p = V (w_redis (pg_world p))"

definition consumption_ok :: "('r \<Rightarrow> view) \<Rightarrow> 'r program \<Rightarrow> bool" where
  "consumption_ok V p \<longleftrightarrow> streams_ok (pg_view V p) \<and> ids_ok (pg_view V p) \<and>
     WorkPanicked \<notin> set (pg_pool p) \<and> owned (pg_view V p) (pg_pool p)"

section \<open>Every event keeps the consumption in order\<close>

context redis_service
begin

abbreviation serves :: "'r wiring \<Rightarrow> bool" where
  "serves S \<equiv> d_redis (wi_dispatcher S) = R \<and> redis_up R"

lemma worker_event:
  assumes "serves S" "consumption_ok view_of p"
  shows "consumption_ok view_of (apply_event S (Worker j x) p) \<and>
    stranded (pg_view view_of p) (pg_pool p) \<subseteq>
      stranded (pg_view view_of (apply_event S (Worker j x) p)) (pg_pool (apply_event S (Worker j x) p))"
proof (cases "j < length (pg_pool p)")
  case True
  let ?D = "wi_dispatcher S" and ?v = "pg_view view_of p"
  define xs ys where "xs = take j (pg_pool p)" and "ys = drop (Suc j) (pg_pool p)"
  obtain s' w' where st: "work_step ?D (wi_consumer S) x (pg_done p) (pg_pool p ! j) (pg_world p) = (s', w')"
    by (metis surj_pair)
  have pool: "pg_pool p = xs @ pg_pool p ! j # ys" and upd: "(pg_pool p)[j := s'] = xs @ s' # ys"
    using True unfolding xs_def ys_def by (simp_all add: id_take_nth_drop upd_conv_take_nth_drop)
  have p': "apply_event S (Worker j x) p = p\<lparr>pg_pool := xs @ s' # ys, pg_world := w'\<rparr>"
    using True st upd by simp
  have set_pool: "set (pg_pool p) = set xs \<union> {pg_pool p ! j} \<union> set ys"
    using arg_cong [OF pool, of set] by auto
  have ok: "streams_ok ?v" "ids_ok ?v" "WorkPanicked \<notin> set xs \<union> set ys" "pg_pool p ! j \<noteq> WorkPanicked"
    and own: "owned ?v (xs @ pg_pool p ! j # ys)"
    using assms(2) pool unfolding consumption_ok_def set_pool by auto
  have goal: ?thesis if "view_steps acks ?v (view_of (w_redis w')) \<or> view_of (w_redis w') = view_xread priority_streams 1 ?v"
    "s' \<noteq> WorkPanicked" "owned (view_of (w_redis w')) (xs @ s' # ys)"
    "stranded ?v (xs @ pg_pool p ! j # ys) \<subseteq> stranded (view_of (w_redis w')) (xs @ s' # ys)" for acks
    using that ok pool steps_readable view_steps_ids ids_ok_xread streams_ok_xread
    unfolding p' consumption_ok_def pg_view_def by auto
  note same = owned_steps [of ?v ?v, OF rtranclp.rtrancl_refl]
  show ?thesis
  proof (cases "pg_pool p ! j")
    case AtSelect
    then show ?thesis
      using st own by (intro goal [of "{}"]) (auto simp: pg_view_def owned_def stranded_def split: if_splits)
  next
    case AtRead
    obtain ms where r: "s' = Handling ms" "map msg_key ms = head_keys ?v priority_streams"
        "view_of (w_redis w') = view_xread priority_streams 1 ?v"
      using read_effect [OF _ _ _ st [unfolded AtRead]] assms(1) ok(1) unfolding pg_view_def by blast
    show ?thesis
      using owned_read [OF ok(2) distinct_priority_streams r(2) own [unfolded AtRead]]
      by (intro goal [of "{}"]) (simp_all add: r AtRead)
  next
    case (Handling ms)
    show ?thesis
    proof (cases ms)
      case Nil
      then show ?thesis
        using st own Handling by (intro goal [of "{}"]) (auto simp: pg_view_def owned_def stranded_def)
    next
      case (Cons m ms')
      note eff = handling_effect [OF _ _ st [unfolded Handling Cons], folded pg_view_def]
      show ?thesis
      proof (cases "s' = Handling ms'")
        case True
        then have v: "view_steps {msg_key m} ?v (view_of (w_redis w'))"
          using eff assms(1) unfolding pg_view_def by (metis not_Cons_self2 work_state.inject)
        show ?thesis
          using owned_ack [OF v own [unfolded Handling Cons]] v
          by (intro goal [of "{msg_key m}"]) (simp_all add: True Handling Cons)
      next
        case False
        then have s': "s' = Handling ms" and v: "view_steps {} ?v (view_of (w_redis w'))"
          using eff assms(1) Cons unfolding pg_view_def by metis+
        show ?thesis
          using owned_steps [OF v] own v by (intro goal [of "{}"]) (simp_all add: s' Handling)
      qed
    qed
  next
    case WorkReturned
    then show ?thesis using st own by (intro goal [of "{}"]) (simp_all add: pg_view_def)
  next
    case WorkPanicked
    then show ?thesis using ok(4) by simp
  qed
qed (use assms(2) in simp)

lemma consumption_event:
  assumes "serves S" "consumption_ok view_of p"
  shows "consumption_ok view_of (apply_event S e p) \<and>
    stranded (pg_view view_of p) (pg_pool p) \<subseteq>
      stranded (pg_view view_of (apply_event S e p)) (pg_pool (apply_event S e p))"
proof (cases "\<exists>j x. e = Worker j x")
  case True
  then show ?thesis using worker_event [OF assms] by blast
next
  case False
  then have "pg_pool (apply_event S e p) = pg_pool p"
    "view_steps {} (pg_view view_of p) (pg_view view_of (apply_event S e p))"
    using other_event [of S e p "{}"] assms(1) unfolding pg_view_def by blast+
  then show ?thesis
    using assms(2) owned_steps steps_readable view_steps_ids unfolding consumption_ok_def by metis
qed

lemma consumption_run:
  assumes "serves S" "consumption_ok view_of p"
  shows "consumption_ok view_of (run_events S es p) \<and>
    stranded (pg_view view_of p) (pg_pool p) \<subseteq>
      stranded (pg_view view_of (run_events S es p)) (pg_pool (run_events S es p))"
  using assms(2)
proof (induction es arbitrary: p)
  case (Cons e es)
  from consumption_event [OF assms(1) Cons.prems, of e] Cons.IH [of "apply_event S e p"]
  show ?case by auto
qed simp

end

section \<open>Held once, and stranded for good\<close>

lemma fresh_consumption:
  assumes "streams_ok (pg_view V p)" "ids_ok (pg_view V p)" "pg_pool p = Pool_Start n"
  shows "consumption_ok V p" "all_held (pg_pool p) = []"
  using assms by (simp_all add: consumption_ok_def owned_def all_held_def Pool_Start_def)

lemma view_empty_ok: "streams_ok view_empty" "ids_ok view_empty"
  by (simp_all add: streams_ok_def ids_ok_def entries_ok_def view_empty_def)

text \<open>
  Property C35. From empty streams, under any interleaving of any number of workers with requests, retries and
  polls: no worker ever panics on what it reads, no message is held by two workers or twice by one, and
  every message that is held is still pending, so it is acknowledged by nobody but its holder.
\<close>

theorem messages_held_once:
  assumes "redis_service (d_redis (wi_dispatcher S)) V" "redis_up (d_redis (wi_dispatcher S))"
    and "pg_view V p = view_empty" "pg_pool p = Pool_Start n"
  shows "WorkPanicked \<notin> set (pg_pool (run_events S es p)) \<and>
    distinct (all_held (pg_pool (run_events S es p))) \<and>
    set (all_held (pg_pool (run_events S es p))) \<subseteq> pending_keys (pg_view V (run_events S es p))"
proof -
  have "consumption_ok V p" by (rule fresh_consumption) (use assms(3,4) view_empty_ok in simp_all)
  then have "consumption_ok V (run_events S es p)"
    using redis_service.consumption_run [OF assms(1)] assms(2) by blast
  then show ?thesis by (simp add: consumption_ok_def owned_def)
qed

text \<open>
  Property C36. A message that was read and not acknowledged when its process ended is lost to the service: after
  a restart, whatever happens, it stays pending and no worker is ever handed it again, because the
  workers ask for new entries only and nothing claims stale ones.
\<close>

theorem stranded_for_good:
  assumes "redis_service (d_redis (wi_dispatcher S)) V" "redis_up (d_redis (wi_dispatcher S))"
    and "streams_ok (pg_view V p)" "ids_ok (pg_view V p)" "pg_pool p = Pool_Start n"
    and "key \<in> pending_keys (pg_view V p)"
  shows "key \<in> pending_keys (pg_view V (run_events S es p)) \<and>
    key \<notin> set (all_held (pg_pool (run_events S es p)))"
proof -
  note fresh = fresh_consumption [OF assms(3-5)]
  have "key \<in> stranded (pg_view V p) (pg_pool p)" using assms(6) fresh(2) by (simp add: stranded_def)
  then show ?thesis
    using redis_service.consumption_run [OF assms(1) _ fresh(1), of S es] assms(2)
    unfolding stranded_def by blast
qed

text \<open>Witnesses: two workers over an empty Redis, and one worker started over an unacknowledged entry.\<close>

definition demo_wiring :: "redis_state wiring" where
  "demo_wiring = \<lparr>wi_dispatcher = demo_dispatcher True, wi_scheduler = NewScheduler 5000000000 100,
     wi_codec = demo_codec, wi_max_retries = 5, wi_consumer = ''worker-0''\<rparr>"

definition demo_program :: "nrow list \<Rightarrow> redis_state \<Rightarrow> int \<Rightarrow> redis_state program" where
  "demo_program rows r n = \<lparr>pg_done = False, pg_pool = Pool_Start n, pg_delayed = ProcessDelayed_start,
     pg_scheduler = Scheduler_start (wi_scheduler demo_wiring),
     pg_world = (demo_world rows)\<lparr>w_redis := r\<rparr>\<rparr>"

definition demo_draws :: draws where
  "demo_draws = \<lparr>dr_turns = demo_turns, dr_clock = int, dr_attempt = 9\<rparr>"

definition one_waiting :: redis_state where
  "one_waiting = ref_xadd ''notifications:high'' [(''notification_id'', ''1''), (''channel'', ''sms'')] ref_empty"

definition one_pending :: redis_state where
  "one_pending = ref_xread priority_streams 1 one_waiting"

lemma demo_wiring_redis [simp]: "d_redis (wi_dispatcher demo_wiring) = redis_ref"
  by (simp add: demo_wiring_def demo_dispatcher_def)

lemma demo_program_simps [simp]:
  "pg_view V (demo_program rows r n) = V r" "pg_pool (demo_program rows r n) = Pool_Start n"
  "pg_done (demo_program rows r n) = False"
  by (simp_all add: pg_view_def demo_program_def)

lemma one_waiting_ok: "streams_ok (state_view one_waiting)" "ids_ok (state_view one_waiting)"
  by (auto simp: one_waiting_def streams_ok_def ids_ok_def entries_ok_def entry_ok_def view_defs view_empty_def)

lemma one_pending_ok: "streams_ok (state_view one_pending)" "ids_ok (state_view one_pending)"
  using one_waiting_ok streams_ok_xread ids_ok_xread by (simp_all add: one_pending_def)

theorem messages_held_once_witness:
  "distinct (all_held (pg_pool (run_events demo_wiring
     [Worker 0 demo_draws, Worker 1 demo_draws, Worker 0 demo_draws, Worker 1 demo_draws]
     (demo_program [] ref_empty 2))))"
  using messages_held_once [of demo_wiring state_view "demo_program [] ref_empty 2" 2] ref.redis_service_axioms
  by (simp del: run_events_simps)

theorem stranded_for_good_witness:
  "(''notifications:high'', ''0'') \<in> pending_keys (pg_view state_view (run_events demo_wiring
     [Worker 0 demo_draws, Worker 0 demo_draws, Worker 0 demo_draws] (demo_program [demo_row 0 ''queued''] one_pending 1)))"
proof -
  have "(''notifications:high'', ''0'') \<in> pending_keys (state_view one_pending)"
    by (simp add: one_pending_def one_waiting_def pending_keys_def view_defs view_empty_def priority_streams_def
        StreamKey_def source_consts digits.simps digit_char_def char_of_def bit_0)
  then show ?thesis
    using stranded_for_good [of demo_wiring state_view "demo_program [demo_row 0 ''queued''] one_pending 1" 1]
      ref.redis_service_axioms one_pending_ok by (simp del: run_events_simps)
qed

end
