(* ===== verification/Retrying.thy ===== *)
theory Retrying
  imports Cancellation
begin

text \<open>
  The queue under retries: what the worker reads from the priority streams, how a delayed member
  is taken apart again, and what moves when the delayed set is polled, alone or by two workers at
  once, and when the re-enqueue fails.
\<close>

section \<open>Reading the priority streams\<close>

text \<open>
  Property C21. One read returns, for every priority stream in the order high, normal, low, its oldest
  unread messages up to the count, and moves exactly those to the pending entries. The count is
  per stream: the worker, which asks for one message, is handed up to three, so a low message is
  taken although high ones are waiting.
\<close>

theorem ReadMessages_oldest_per_priority:
  assumes "redis_service R V" "streams_ok (V r)" "0 < c"
    and "ReadMessages R cn c b r = (Some (Inr ms), r')"
  shows "ms = concat (map (oldest_messages c (V r)) priority_streams) \<and>
    V r' = view_xread priority_streams c (V r)"
  using redis_service.ReadMessages_reads [OF assms] .

definition three_waiting :: redis_state where
  "three_waiting = ref_xadd ''notifications:low'' [(''notification_id'', ''3''), (''channel'', ''sms'')]
     (ref_xadd ''notifications:normal'' [(''notification_id'', ''2''), (''channel'', ''sms'')]
     (ref_xadd ''notifications:high'' [(''notification_id'', ''1''), (''channel'', ''sms'')] ref_empty))"

lemma three_waiting_ok: "streams_ok (state_view three_waiting)"
  by (auto simp: three_waiting_def streams_ok_def view_defs view_empty_def entry_ok_def)

theorem ReadMessages_oldest_per_priority_witness:
  "\<exists>ms r'. ReadMessages redis_ref ''worker-0'' 1 2000 three_waiting = (Some (Inr ms), r') \<and>
     map m_notification_id ms = [''1'', ''2'', ''3'']"
proof -
  obtain ms r' where c: "ReadMessages redis_ref ''worker-0'' 1 2000 three_waiting = (Some (Inr ms), r')"
    by (simp add: ReadMessages_def Let_def redis_ref_def three_waiting_def view_defs view_empty_def
        priority_streams_def StreamKey_def source_consts view_read_def to_messages_def to_message_def first_half_def)
  from ReadMessages_oldest_per_priority [OF ref.redis_service_axioms three_waiting_ok _ c]
  have "map m_notification_id ms = [''1'', ''2'', ''3'']"
    by (simp add: oldest_messages_def three_waiting_def view_defs view_empty_def
        priority_streams_def StreamKey_def source_consts to_message_def)
  then show ?thesis using c by (intro exI [of _ ms] exI [of _ r'] conjI)
qed

section \<open>Taking a delayed member apart\<close>

lemma parse_loop_skip:
  "CHR '':'' \<notin> set a \<Longrightarrow> parse_loop s i (a @ rest) parts start count =
     parse_loop s (i + length a) rest parts start count"
  by (induction a arbitrary: i) auto

lemma parse_loop_none:
  "CHR '':'' \<notin> set a \<Longrightarrow> parse_loop s i a parts start count = (parts, start)"
  using parse_loop_skip [of a s i "[]" parts start count] by simp

lemma parseMember_two:
  assumes "CHR '':'' \<notin> set a" "CHR '':'' \<notin> set b"
  shows "parseMember (a @ '':'' @ b @ '':'' @ c) = (if c = '''' then None else Some [a, b, c])"
  using assms by (simp add: parseMember_def parse_loop_skip Let_def)

lemma parseMember_one:
  assumes "CHR '':'' \<notin> set a" "CHR '':'' \<notin> set b"
  shows "parseMember (a @ '':'' @ b) = None"
  using assms by (simp add: parseMember_def parse_loop_skip parse_loop_none Let_def)

lemma parseMember_none: "CHR '':'' \<notin> set a \<Longrightarrow> parseMember a = None"
  by (simp add: parseMember_def parse_loop_none Let_def)

text \<open>
  Property C26. \<open>parseMember\<close> succeeds on exactly the texts with two colons and something after the second,
  and returns the text before the first colon, the text between the two and all that follows.
\<close>

theorem parseMember_splits:
  "parseMember s = Some parts \<longleftrightarrow>
     (\<exists>a b c. s = a @ '':'' @ b @ '':'' @ c \<and> CHR '':'' \<notin> set a \<and> CHR '':'' \<notin> set b \<and> c \<noteq> '''' \<and>
        parts = [a, b, c])" (is "?l \<longleftrightarrow> ?r")
proof
  assume l: ?l
  then obtain a rest where s: "s = a @ CHR '':'' # rest" "CHR '':'' \<notin> set a"
    using parseMember_none split_list_first [of "CHR '':''" s] by fastforce
  then obtain b c where "rest = b @ CHR '':'' # c" "CHR '':'' \<notin> set b"
    using l parseMember_one [of a rest] split_list_first [of "CHR '':''" rest] by fastforce
  then show ?r
    using l s parseMember_two [of a b c]
    by (intro exI [of _ a] exI [of _ b] exI [of _ c]) (auto split: if_splits)
next
  assume ?r
  then show ?l using parseMember_two by auto
qed

section \<open>Re-enqueueing due members\<close>

text \<open>A retry as the dispatcher schedules it, and the messages waiting in a stream.\<close>

type_synonym retry = "uuid \<times> channel \<times> priority"

definition retry_member :: "lib \<Rightarrow> retry \<Rightarrow> string" where
  "retry_member L t = (case t of (i, ch, p) \<Rightarrow> delayed_member L i ch p)"

definition retry_ok :: "retry \<Rightarrow> bool" where
  "retry_ok t = (case t of (i, ch, p) \<Rightarrow> channel_valid ch \<and> priority_valid p)"

definition waiting :: "string \<Rightarrow> view \<Rightarrow> (string option \<times> string option) list" where
  "waiting k v = map (\<lambda>e. (map_of (snd e) ''notification_id'', map_of (snd e) ''channel'')) (v_unread v k)"

definition retry_messages :: "lib \<Rightarrow> priority \<Rightarrow> retry list \<Rightarrow> (string option \<times> string option) list" where
  "retry_messages L p ts = map (\<lambda>(i, ch, q). (Some (uuid_String L i), Some ch)) (filter (\<lambda>(i, ch, q). q = p) ts)"

text \<open>The delayed set as the dispatcher fills it.\<close>

definition delayed_ok :: "lib \<Rightarrow> view \<Rightarrow> bool" where
  "delayed_ok L v \<longleftrightarrow> (\<forall>e \<in> set (v_zset v delayed_key). \<exists>t. retry_ok t \<and> fst e = retry_member L t)"

lemma retry_member_parses:
  assumes "uuid_laws L" "retry_ok (i, ch, p)"
  shows "parseMember (retry_member L (i, ch, p)) = Some [uuid_String L i, ch, p]"
proof -
  have "CHR '':'' \<notin> set ch" "p \<noteq> ''''"
    using assms(2) by (auto simp: retry_ok_def channel_valid_def priority_valid_def source_consts)
  then show ?thesis
    using parseMember_two [of "uuid_String L i" ch p] uuid_lawsD(2) [OF assms(1)]
    by (simp add: retry_member_def delayed_member_def)
qed

context redis_service
begin

lemma waiting_reenqueue:
  assumes "redis_up R" "uuid_laws (d_lib D)" "d_redis D = R" "retry_ok t"
  shows "waiting (StreamKey p) (view_of (reenqueue D (retry_member (d_lib D) t) r)) =
      waiting (StreamKey p) (view_of r) @ retry_messages (d_lib D) p [t]"
    and "v_zset (view_of (reenqueue D (retry_member (d_lib D) t) r)) = v_zset (view_of r)"
proof -
  obtain i ch q where t: "t = (i, ch, q)" by (metis surj_pair)
  have step: "reenqueue D (retry_member (d_lib D) t) r = snd (Enqueue (d_lib D) R i ch q r)"
    using retry_member_parses [OF assms(2)] assms(2-4) by (simp add: t reenqueue_def)
  note e = Enqueue_ok [OF up_pair [OF Enqueue_up [OF assms(1)]], of "d_lib D" i ch q r]
  show "waiting (StreamKey p) (view_of (reenqueue D (retry_member (d_lib D) t) r)) =
      waiting (StreamKey p) (view_of r) @ retry_messages (d_lib D) p [t]"
    using e unfolding step by (auto simp: t waiting_def view_defs retry_messages_def)
  show "v_zset (view_of (reenqueue D (retry_member (d_lib D) t) r)) = v_zset (view_of r)"
    using e unfolding step by (auto simp: view_defs)
qed

lemma waiting_fold_reenqueue:
  assumes "redis_up R" "uuid_laws (d_lib D)" "d_redis D = R" "\<forall>t \<in> set ts. retry_ok t"
  shows "waiting (StreamKey p) (view_of (fold (reenqueue D) (map (retry_member (d_lib D)) ts) r)) =
      waiting (StreamKey p) (view_of r) @ retry_messages (d_lib D) p ts \<and>
    v_zset (view_of (fold (reenqueue D) (map (retry_member (d_lib D)) ts) r)) = v_zset (view_of r)"
  using assms(4)
proof (induction ts arbitrary: r)
  case Nil
  then show ?case by (simp add: retry_messages_def)
next
  case (Cons t ts)
  then show ?case
    using waiting_reenqueue(1) [OF assms(1-3), of t p r] waiting_reenqueue(2) [OF assms(1-3), of t r] by (simp add: retry_messages_def)
qed

lemma pop_remove_view:
  assumes "redis_up R"
  shows "view_of (pop_remove R ms r) = view_zrem delayed_key ms (view_of r)"
proof -
  obtain r' where z: "zrem R delayed_key ms r = (None, r')"
    using zrem_up [OF assms] by blast
  show ?thesis using zrem_law [OF z] z by (simp add: pop_remove_def view_zrem_def)
qed

lemma pop_fetch_up:
  assumes "redis_up R"
  shows "\<exists>r'. pop_fetch R now c r = (Inr (zset_due now c (v_zset (view_of r) delayed_key)), r') \<and>
    view_of r' = view_of r"
proof -
  obtain ms r' where z: "zrangebyscore R delayed_key now c r = (Inr ms, r')"
    using zrange_up [OF assms] by blast
  then show ?thesis using zrange_law [OF z] by (simp add: pop_fetch_def)
qed

end

lemma waiting_zset [simp]:
  "waiting k (view_zrem j ms v) = waiting k v" "waiting k (view_zadd j m s v) = waiting k v"
  by (simp_all add: waiting_def view_defs)

text \<open>The due members of a well-formed delayed set, as the retries they stand for.\<close>

lemma due_retries:
  assumes "delayed_ok L v"
  shows "\<exists>ts. zset_due now c (v_zset v delayed_key) = map (retry_member L) ts \<and>
    (\<forall>t \<in> set ts. retry_ok t)"
proof -
  have "\<forall>m \<in> set (zset_due now c (v_zset v delayed_key)). \<exists>t. retry_ok t \<and> m = retry_member L t"
    using assms by (fastforce simp: delayed_ok_def zset_due_def dest!: in_set_takeD)
  moreover have "\<exists>ts. ms = map (retry_member L) ts \<and> (\<forall>t \<in> set ts. retry_ok t)"
    if "\<forall>m \<in> set ms. \<exists>t. retry_ok t \<and> m = retry_member L t" for ms
    using that
  proof (induction ms)
    case (Cons m ms)
    then obtain t ts where "retry_ok t" "m = retry_member L t" "ms = map (retry_member L) ts"
      "\<forall>t \<in> set ts. retry_ok t" by auto
    then show ?case by (intro exI [of _ "t # ts"]) simp
  qed simp
  ultimately show ?thesis by blast
qed

lemma delayed_batch_effect:
  assumes "redis_service R V" "redis_up R" "uuid_laws (d_lib D)" "d_redis D = R"
    and "delayed_ok (d_lib D) (V r)"
  shows "\<exists>ts. length ts \<le> 50 \<and> (\<forall>t \<in> set ts. retry_ok t) \<and>
    map (retry_member (d_lib D)) ts = zset_due (UnixMilli clock) 50 (v_zset (V r) delayed_key) \<and>
    (\<forall>p. waiting (StreamKey p) (V (processDelayedBatch D clock r)) =
      waiting (StreamKey p) (V r) @ retry_messages (d_lib D) p ts) \<and>
    v_zset (V (processDelayedBatch D clock r)) delayed_key =
      filter (\<lambda>e. fst e \<notin> retry_member (d_lib D) ` set ts) (v_zset (V r) delayed_key) \<and>
    (\<forall>e \<in> set (v_zset (V r) delayed_key). snd e \<le> UnixMilli clock \<longrightarrow> length ts < 50 \<longrightarrow>
      fst e \<in> retry_member (d_lib D) ` set ts)"
proof -
  let ?z = "v_zset (V r) delayed_key"
  obtain ts where ts: "zset_due (UnixMilli clock) 50 ?z = map (retry_member (d_lib D)) ts"
    "\<forall>t \<in> set ts. retry_ok t"
    using due_retries [OF assms(5)] by blast
  obtain r1 where f: "pop_fetch R (UnixMilli clock) 50 r = (Inr (map (retry_member (d_lib D)) ts), r1)"
    "V r1 = V r"
    using redis_service.pop_fetch_up [OF assms(1,2), of "UnixMilli clock" 50 r] ts(1) by auto
  let ?r2 = "pop_remove R (map (retry_member (d_lib D)) ts) r1"
  have run: "processDelayedBatch D clock r = fold (reenqueue D) (map (retry_member (d_lib D)) ts) ?r2"
    using f(1) assms(4) by (simp add: processDelayedBatch_def PopDelayedDue_def)
  have r2: "V ?r2 = view_zrem delayed_key (map (retry_member (d_lib D)) ts) (V r)"
    using redis_service.pop_remove_view [OF assms(1,2)] f(2) by simp
  have kept: "waiting k (V ?r2) = waiting k (V r)" for k by (simp add: r2)
  have left: "v_zset (V ?r2) delayed_key = filter (\<lambda>e. fst e \<notin> retry_member (d_lib D) ` set ts) ?z"
    by (simp add: r2 view_zrem_def)
  note q = redis_service.waiting_fold_reenqueue [OF assms(1-4) ts(2), of _ ?r2]
  have "length ts = length (zset_due (UnixMilli clock) 50 ?z)" using ts(1) by simp
  then have len: "length ts \<le> 50" by (simp add: zset_due_def)
  moreover have "fst e \<in> retry_member (d_lib D) ` set ts"
    if "e \<in> set ?z" "snd e \<le> UnixMilli clock" "length ts < 50" for e
  proof -
    let ?due = "map fst (filter (\<lambda>e. snd e \<le> UnixMilli clock) ?z)"
    have "length (take 50 ?due) < 50"
      using that(3) arg_cong [OF ts(1), of length] by (simp add: zset_due_def)
    then have "take 50 ?due = ?due" by simp
    then have "set ?due = retry_member (d_lib D) ` set ts"
      using arg_cong [OF ts(1), of set] by (simp add: zset_due_def)
    then show ?thesis using that(1,2) by auto
  qed
  ultimately show ?thesis
    using ts q by (intro exI [of _ ts]) (auto simp: run kept left)
qed

text \<open>
  Property C20. Polling the delayed set: at most fifty members whose time has come leave the set, and each
  becomes one message, with the identifier and channel it was stored with, at the end of the
  stream of its priority; members that are not due stay. Over a Redis that is up nothing is lost
  and nothing is duplicated, and fewer than fifty means that none that is due is left.
\<close>

theorem processDelayedBatch_requeues:
  assumes "redis_service R V" "redis_up R" "uuid_laws (d_lib D)" "d_redis D = R"
    and "delayed_ok (d_lib D) (V r)"
  shows "\<exists>ts. length ts \<le> 50 \<and> (\<forall>t \<in> set ts. retry_ok t) \<and>
    map (retry_member (d_lib D)) ts = zset_due (UnixMilli clock) 50 (v_zset (V r) delayed_key) \<and>
    (\<forall>p. waiting (StreamKey p) (V (processDelayedBatch D clock r)) =
      waiting (StreamKey p) (V r) @ retry_messages (d_lib D) p ts) \<and>
    v_zset (V (processDelayedBatch D clock r)) delayed_key =
      filter (\<lambda>e. fst e \<notin> retry_member (d_lib D) ` set ts) (v_zset (V r) delayed_key) \<and>
    (\<forall>e \<in> set (v_zset (V r) delayed_key). snd e \<le> UnixMilli clock \<longrightarrow> length ts < 50 \<longrightarrow>
      fst e \<in> retry_member (d_lib D) ` set ts)"
  using delayed_batch_effect [OF assms] .

lemma demo_uuid_text: "uuid_String example_lib 1 = ''1''"
  by (simp add: example_lib_def digits.simps digit_char_def char_of_def bit_0)

definition one_delayed :: redis_state where
  "one_delayed = ref_zadd delayed_key (delayed_member example_lib 1 ''sms'' ''high'') 2000 ref_empty"

lemma one_delayed_set:
  "v_zset (state_view one_delayed) delayed_key = [(delayed_member example_lib 1 ''sms'' ''high'', 2000)]"
  by (simp add: one_delayed_def view_defs zset_add_def view_empty_def)

lemma one_delayed_ok: "delayed_ok example_lib (state_view one_delayed)"
  unfolding delayed_ok_def one_delayed_set
  by (auto simp: retry_member_def retry_ok_def channel_valid_def priority_valid_def source_consts)

lemma one_delayed_waiting [simp]: "waiting k (state_view one_delayed) = []"
  by (simp add: one_delayed_def waiting_def view_defs view_empty_def)

lemma one_retry:
  assumes "map (retry_member example_lib) ts = [delayed_member example_lib 1 ''sms'' ''high'']"
    and "\<forall>t \<in> set ts. retry_ok t"
  shows "retry_messages example_lib ''high'' ts = [(Some (uuid_String example_lib 1), Some ''sms'')]"
proof -
  obtain t where t: "ts = [t]" "retry_member example_lib t = delayed_member example_lib 1 ''sms'' ''high''"
    using assms(1) by auto
  obtain i ch p where tt: "t = (i, ch, p)" by (metis surj_pair)
  have "Some [uuid_String example_lib i, ch, p] = Some [uuid_String example_lib 1, ''sms'', ''high'']"
    using retry_member_parses [OF example_lib_uuid, of i ch p] assms(2) t tt
      retry_member_parses [OF example_lib_uuid, of 1 "''sms''" "''high''"]
    by (simp add: retry_member_def retry_ok_def channel_valid_def priority_valid_def source_consts)
  then show ?thesis by (simp add: t(1) tt retry_messages_def)
qed

theorem processDelayedBatch_requeues_witness:
  "waiting ''notifications:high'' (state_view (processDelayedBatch
     ((demo_dispatcher True)\<lparr>d_redis := redis_ref\<rparr>) 2000000000 one_delayed)) = [(Some ''1'', Some ''sms'')]"
proof -
  let ?D = "(demo_dispatcher True)\<lparr>d_redis := redis_ref\<rparr>"
  have lib: "d_lib ?D = example_lib" by (simp add: demo_dispatcher_def)
  have due: "zset_due (UnixMilli 2000000000) 50 (v_zset (state_view one_delayed) delayed_key) =
      [delayed_member example_lib 1 ''sms'' ''high'']"
    by (simp add: one_delayed_set zset_due_def UnixMilli_def)
  have "uuid_laws (d_lib ?D)" "d_redis ?D = redis_ref" "delayed_ok (d_lib ?D) (state_view one_delayed)"
    unfolding lib by (simp_all add: one_delayed_ok)
  from processDelayedBatch_requeues [OF ref.redis_service_axioms redis_ref_up this, of 2000000000]
  show ?thesis
  proof (elim exE conjE, goal_cases)
    case (1 ts)
    have "map (retry_member example_lib) ts = [delayed_member example_lib 1 ''sms'' ''high'']"
      using 1(3) unfolding lib due .
    from one_retry [OF this 1(2)] show ?case
      using spec [OF 1(4), of "''high''"] by (simp add: lib StreamKey_def demo_uuid_text)
  qed
qed

section \<open>Two workers, and a queue that refuses\<close>

text \<open>
  The pop is two commands and not one: when a second worker asks for the due members before
  the first has removed its own, both receive the same members, and every one of them is enqueued
  twice, whichever worker goes first.
\<close>

theorem PopDelayedDue_not_atomic:
  assumes "redis_service R V" "redis_up R" "uuid_laws (d_lib D)" "d_redis D = R"
    and "delayed_ok (d_lib D) (V r)"
    and "pop_fetch R now c r = (Inr ms, r1)" "pop_fetch R now c r1 = (Inr ms', r2)"
  shows "ms' = ms \<and> (\<exists>ts. (\<forall>t \<in> set ts. retry_ok t) \<and> map (retry_member (d_lib D)) ts = ms \<and>
    (\<forall>p. waiting (StreamKey p)
        (V (fold (reenqueue D) ms' (pop_remove R ms' (fold (reenqueue D) ms (pop_remove R ms r2))))) =
      waiting (StreamKey p) (V r) @ retry_messages (d_lib D) p ts @ retry_messages (d_lib D) p ts))"
proof -
  note f1 = redis_service.pop_fetch_ok [OF assms(1,6)]
  note f2 = redis_service.pop_fetch_ok [OF assms(1,7)]
  have same: "ms' = ms" "V r2 = V r" using f1 f2 by simp_all
  obtain ts where ts: "ms = map (retry_member (d_lib D)) ts" "\<forall>t \<in> set ts. retry_ok t"
    using due_retries [OF assms(5)] f1 by blast
  note rem = redis_service.pop_remove_view [OF assms(1,2)]
  note q = redis_service.waiting_fold_reenqueue [OF assms(1-4) ts(2)]
  have "waiting (StreamKey p)
      (V (fold (reenqueue D) ms (pop_remove R ms (fold (reenqueue D) ms (pop_remove R ms r2))))) =
    waiting (StreamKey p) (V r) @ retry_messages (d_lib D) p ts @ retry_messages (d_lib D) p ts" for p
    using q by (simp add: ts(1) rem same(2))
  then show ?thesis using same(1) ts by auto
qed

theorem PopDelayedDue_not_atomic_witness:
  "\<exists>ms r1 r2. pop_fetch redis_ref 2000 50 one_delayed = (Inr ms, r1) \<and>
     pop_fetch redis_ref 2000 50 r1 = (Inr ms, r2) \<and> ms \<noteq> [] \<and>
     length (waiting ''notifications:high'' (state_view (fold (reenqueue (demo_dispatcher True)) ms
       (pop_remove redis_ref ms (fold (reenqueue (demo_dispatcher True)) ms (pop_remove redis_ref ms r2)))))) = 2"
proof -
  let ?D = "demo_dispatcher True"
  have lib: "d_lib ?D = example_lib" "d_redis ?D = redis_ref" by (simp_all add: demo_dispatcher_def)
  have due: "zset_due 2000 50 (v_zset (state_view one_delayed) delayed_key) =
      [delayed_member example_lib 1 ''sms'' ''high'']"
    by (simp add: one_delayed_set zset_due_def)
  obtain r1 where f1: "pop_fetch redis_ref 2000 50 one_delayed = (Inr [delayed_member example_lib 1 ''sms'' ''high''], r1)"
    "state_view r1 = state_view one_delayed"
    using ref.pop_fetch_up [OF redis_ref_up, of 2000 50 one_delayed] due by auto
  obtain r2 where f2: "pop_fetch redis_ref 2000 50 r1 = (Inr [delayed_member example_lib 1 ''sms'' ''high''], r2)"
    using ref.pop_fetch_up [OF redis_ref_up, of 2000 50 r1] due f1(2) by auto
  have ok: "uuid_laws (d_lib ?D)" "delayed_ok (d_lib ?D) (state_view one_delayed)"
    unfolding lib by (simp_all add: one_delayed_ok)
  from PopDelayedDue_not_atomic [OF ref.redis_service_axioms redis_ref_up ok(1) lib(2) ok(2) f1(1) f2]
  show ?thesis
  proof (elim exE conjE, goal_cases)
    case (1 ts)
    have "map (retry_member example_lib) ts = [delayed_member example_lib 1 ''sms'' ''high'']"
      using 1(3) unfolding lib .
    from one_retry [OF this 1(2)]
    have "length (waiting ''notifications:high'' (state_view (fold (reenqueue ?D) [delayed_member example_lib 1 ''sms'' ''high'']
        (pop_remove redis_ref [delayed_member example_lib 1 ''sms'' ''high'']
          (fold (reenqueue ?D) [delayed_member example_lib 1 ''sms'' ''high'']
            (pop_remove redis_ref [delayed_member example_lib 1 ''sms'' ''high''] r2)))))) = 2"
      using spec [OF 1(4), of "''high''"] by (simp add: lib StreamKey_def)
    then show ?case using f1(1) f2 by blast
  qed
qed

lemma fold_reenqueue_refused:
  assumes "\<forall>k f s. \<exists>e s'. xadd (d_redis D) k f s = (Inl e, s') \<and> V s' = V s"
  shows "V (fold (reenqueue D) ms r) = V r"
proof (induction ms arbitrary: r)
  case (Cons m ms)
  have "V (snd (Enqueue L (d_redis D) i ch p s)) = V s" for L i ch p s
    using assms by (auto simp: Enqueue_def Let_def split: prod.splits sum.splits) (metis prod.inject)+
  then have "V (reenqueue D m r) = V r" by (simp add: reenqueue_def Let_def split: option.splits)
  then show ?case using Cons.IH by simp
qed simp

text \<open>
  Property C30. The members are removed before they are enqueued, and an error of the enqueue is only
  logged: when Redis refuses to append to the streams, every member that was due is gone from the
  delayed set and no stream has received it. The retry is lost.
\<close>

theorem processDelayedBatch_loses_retry:
  assumes "redis_service R V" "d_redis D = R"
    and "\<forall>k f s. \<exists>e s'. xadd R k f s = (Inl e, s') \<and> V s' = V s"
    and "pop_fetch R (UnixMilli clock) 50 r = (Inr ms, r1)"
    and "fst (zrem R delayed_key ms r1) = None"
  shows "v_unread (V (processDelayedBatch D clock r)) = v_unread (V r) \<and>
    v_zset (V (processDelayedBatch D clock r)) delayed_key =
      filter (\<lambda>e. fst e \<notin> set (zset_due (UnixMilli clock) 50 (v_zset (V r) delayed_key)))
        (v_zset (V r) delayed_key)"
proof -
  note f = redis_service.pop_fetch_ok [OF assms(1,4)]
  have run: "processDelayedBatch D clock r = fold (reenqueue D) ms (pop_remove R ms r1)"
    using assms(2,4) by (simp add: processDelayedBatch_def PopDelayedDue_def)
  obtain r2 where z: "zrem R delayed_key ms r1 = (None, r2)" using assms(5) by (metis prod.collapse)
  have "V (pop_remove R ms r1) = view_zrem delayed_key ms (V r)"
    using redis_service.zrem_law [OF assms(1) z] z f by (simp add: pop_remove_def view_zrem_def)
  then show ?thesis
    using fold_reenqueue_refused [of D V ms "pop_remove R ms r1"] assms(2,3) f
    by (simp add: run view_zrem_def)
qed

definition redis_full :: "redis_state redis" where
  "redis_full = redis_ref\<lparr>xadd := (\<lambda>k f r. (Inl ''OOM command not allowed when used memory > maxmemory'', r))\<rparr>"

lemma redis_full_service: "redis_service redis_full state_view"
  using ref.redis_service_axioms unfolding redis_service_def redis_full_def by simp

theorem processDelayedBatch_loses_retry_witness:
  "v_unread (state_view (processDelayedBatch ((demo_dispatcher True)\<lparr>d_redis := redis_full\<rparr>) 2000000000 one_delayed))
     = (\<lambda>_. []) \<and>
   v_zset (state_view (processDelayedBatch ((demo_dispatcher True)\<lparr>d_redis := redis_full\<rparr>) 2000000000 one_delayed))
     delayed_key = []"
proof -
  let ?D = "(demo_dispatcher True)\<lparr>d_redis := redis_full\<rparr>"
  have x: "\<forall>k f s. \<exists>e s'. xadd redis_full k f s = (Inl e, s') \<and> state_view s' = state_view s"
    by (simp add: redis_full_def)
  have f: "pop_fetch redis_full (UnixMilli 2000000000) 50 one_delayed =
      (Inr [delayed_member example_lib 1 ''sms'' ''high''], one_delayed)"
    by (simp add: pop_fetch_def redis_full_def redis_ref_def one_delayed_set zset_due_def UnixMilli_def)
  have z: "fst (zrem redis_full delayed_key [delayed_member example_lib 1 ''sms'' ''high''] one_delayed) = None"
    by (simp add: redis_full_def redis_ref_def)
  have "v_unread (state_view one_delayed) = (\<lambda>_. [])"
    by (simp add: one_delayed_def view_defs view_empty_def)
  moreover have "d_redis ?D = redis_full" by simp
  ultimately show ?thesis
    using processDelayedBatch_loses_retry [OF redis_full_service _ x f z, of ?D]
    by (simp add: one_delayed_set zset_due_def UnixMilli_def)
qed

end
