(* ===== verification/Tracking.thy ===== *)
theory Tracking
  imports Consumption Retrying Delivery_Bound
begin

text \<open>
  Where every notification is: scheduled, finished, or named by a message or by a delayed member. This
  theory states it and shows that requests, polls and batches of retries keep it; what the workers do
  to it is in theory Accounting.
\<close>

section \<open>Where an unfinished notification is\<close>

text \<open>
  An entry names the notification that the worker parses out of its identifier field. The predicates
  leave out the pending entries with a key in a set \<open>X\<close>, which is empty unless a handler is looked at
  while it runs.
\<close>

definition names :: "lib \<Rightarrow> uuid \<Rightarrow> entry \<Rightarrow> bool" where
  "names L i e \<longleftrightarrow> (\<exists>t. map_of (snd e) ''notification_id'' = Some t \<and> uuid_Parse L t = (i, None))"

lemma names_text: "uuid_laws L \<Longrightarrow> map_of (snd e) ''notification_id'' = Some (uuid_String L i) \<Longrightarrow> names L i e"
  by (simp add: names_def)

lemma names_same: "names L i e \<Longrightarrow> names L j e \<Longrightarrow> i = j"
  by (auto simp: names_def)

definition entries_but :: "(string \<times> string) set \<Rightarrow> view \<Rightarrow> string \<Rightarrow> entry set" where
  "entries_but X v k = set (v_unread v k) \<union> {e \<in> set (v_pending v k). (k, fst e) \<notin> X}"

abbreviation in_stream :: "view \<Rightarrow> string \<Rightarrow> entry set" where
  "in_stream \<equiv> entries_but {}"

lemma in_stream_def: "in_stream v k = set (v_unread v k) \<union> set (v_pending v k)"
  by (simp add: entries_but_def)

definition message_but :: "(string \<times> string) set \<Rightarrow> lib \<Rightarrow> view \<Rightarrow> uuid \<Rightarrow> bool" where
  "message_but X L v i \<longleftrightarrow> (\<exists>k \<in> set priority_streams. \<exists>e \<in> entries_but X v k. names L i e)"

abbreviation message_queued :: "lib \<Rightarrow> view \<Rightarrow> uuid \<Rightarrow> bool" where
  "message_queued \<equiv> message_but {}"

definition retry_waiting :: "lib \<Rightarrow> view \<Rightarrow> uuid \<Rightarrow> bool" where
  "retry_waiting L v i \<longleftrightarrow> (\<exists>ch p. retry_ok (i, ch, p) \<and>
     retry_member L (i, ch, p) \<in> fst ` set (v_zset v delayed_key))"

definition underway_but :: "(string \<times> string) set \<Rightarrow> lib \<Rightarrow> view \<Rightarrow> uuid \<Rightarrow> bool" where
  "underway_but X L v i \<longleftrightarrow> message_but X L v i \<or> retry_waiting L v i"

abbreviation underway :: "lib \<Rightarrow> view \<Rightarrow> uuid \<Rightarrow> bool" where
  "underway \<equiv> underway_but {}"

text \<open>
  Every stored notification is scheduled, finished, or underway_but X: named by an unread or unacknowledged
  message of a priority stream, or by a member of the delayed set.
\<close>

definition accounted_but :: "(string \<times> string) set \<Rightarrow> lib \<Rightarrow> view \<Rightarrow> tables \<Rightarrow> bool" where
  "accounted_but X L v t \<longleftrightarrow> (\<forall>i r. row_at i t = Some r \<longrightarrow>
     r_status r = StatusScheduled \<or> terminal (r_status r) \<or> underway_but X L v i)"

abbreviation accounted :: "lib \<Rightarrow> view \<Rightarrow> tables \<Rightarrow> bool" where
  "accounted \<equiv> accounted_but {}"

lemmas message_queued_def = message_but_def [of "{}"]
lemmas underway_def = underway_but_def [of "{}"]
lemmas accounted_def = accounted_but_def [of "{}"]

section \<open>What keeps track of the notifications\<close>

definition keeps_but :: "(string \<times> string) set \<Rightarrow> lib \<Rightarrow> view \<Rightarrow> view \<Rightarrow> bool" where
  "keeps_but X L v w \<longleftrightarrow> (\<forall>i. underway_but X L v i \<longrightarrow> underway_but X L w i) \<and> (delayed_ok L v \<longrightarrow> delayed_ok L w)"

lemma keeps_track_refl [simp]: "keeps_but X L v v"
  by (simp add: keeps_but_def)

lemma keeps_track_trans: "keeps_but X L u v \<Longrightarrow> keeps_but X L v w \<Longrightarrow> keeps_but X L u w"
  by (simp add: keeps_but_def)

lemma entry_step:
  assumes "view_step acks v w"
  shows "e \<in> entries_but X v k \<Longrightarrow> (k, fst e) \<notin> acks \<Longrightarrow> e \<in> entries_but X w k"
    and "set (v_pending w k) \<subseteq> set (v_pending v k)"
    and "set (v_unread v k) \<subseteq> set (v_unread w k)"
  using assms by (cases; auto simp: entries_but_def view_defs)+

lemma entry_steps:
  assumes "view_steps acks v w"
  shows "e \<in> entries_but X v k \<Longrightarrow> (k, fst e) \<notin> acks \<Longrightarrow> e \<in> entries_but X w k"
    and "set (v_pending w k) \<subseteq> set (v_pending v k)"
    and "set (v_unread v k) \<subseteq> set (v_unread w k)"
  using assms by (induction rule: rtranclp_induct) (auto dest: entry_step)

lemma entry_xread:
  "\<forall>e \<in> set (v_unread v k). (k, fst e) \<notin> X \<Longrightarrow> entries_but X (view_xread ks c v) k = entries_but X v k"
proof -
  assume "\<forall>e \<in> set (v_unread v k). (k, fst e) \<notin> X"
  moreover have "set (take n xs) \<union> set (drop n xs) = set xs" for n :: nat and xs :: "entry list"
    by (metis append_take_drop_id set_append)
  ultimately show ?thesis by (auto simp: entries_but_def view_xread_def dest: in_set_takeD in_set_dropD)
qed

lemma message_steps: "view_steps {} v w \<Longrightarrow> message_but X L v i \<Longrightarrow> message_but X L w i"
  unfolding message_but_def using entry_steps(1) by blast

lemma zset_track:
  assumes "v_zset w delayed_key = v_zset v delayed_key"
  shows "retry_waiting L w i \<longleftrightarrow> retry_waiting L v i" "delayed_ok L w \<longleftrightarrow> delayed_ok L v"
  using assms by (simp_all add: retry_waiting_def delayed_ok_def)

lemma same_delayed_track:
  assumes "view_steps {} v w" "v_zset w delayed_key = v_zset v delayed_key"
  shows "keeps_but X L v w"
  using message_steps [OF assms(1)] zset_track [OF assms(2)] unfolding keeps_but_def underway_but_def by blast

lemma xread_track:
  assumes "\<forall>k. \<forall>e \<in> set (v_unread v k). (k, fst e) \<notin> X"
  shows "keeps_but X L v (view_xread ks c v)"
proof -
  have "v_zset (view_xread ks c v) delayed_key = v_zset v delayed_key" by (simp add: view_xread_def)
  from zset_track [OF this, of L] show ?thesis
    
    using assms by (simp add: keeps_but_def underway_but_def message_but_def entry_xread)
qed

text \<open>The calls that append or acknowledge leave the delayed set alone.\<close>

context redis_service
begin

lemma zset_calls:
  assumes "redis_up R"
  shows "v_zset (view_of (snd (Enqueue L R u ch p r))) = v_zset (view_of r)"
    "v_zset (view_of (snd (DLQ_Push L R u ch e r))) = v_zset (view_of r)"
    "v_zset (view_of (snd (Ack R k i r))) = v_zset (view_of r)"
    "v_zset (view_of (snd (EnqueueDelayed L R u ch p s r))) delayed_key =
       zset_add (retry_member L (u, ch, p)) s (v_zset (view_of r) delayed_key)"
  using Enqueue_ok [OF up_pair [OF Enqueue_up [OF assms]], of L u ch p r]
    DLQ_Push_ok [OF up_pair [OF DLQ_Push_up [OF assms]], of L u ch e r]
    Ack_ok [OF up_pair [OF Ack_up [OF assms]], of k i r]
    EnqueueDelayed_ok [OF up_pair [OF EnqueueDelayed_up [OF assms]], of L u ch p s r]
  by (auto simp: view_defs retry_member_def)

lemma rate_wait_delayed:
  "redis_up R \<Longrightarrow> rate_wait R l ch turns r = (x, r') \<Longrightarrow>
     v_zset (view_of r') delayed_key = v_zset (view_of r) delayed_key"
proof (induction turns arbitrary: r)
  case (Cons turn turns)
  obtain clock rnd c where turn: "turn = (clock, rnd, c)" by (cases turn)
  obtain ok r1 where a: "Allow R l ch clock rnd r = (Inr ok, r1)"
    using Allow_up [OF Cons.prems(1)] by blast
  have "delayed_key \<noteq> limiter_key ch" by (simp add: delayed_key_def limiter_key_def)
  then have "v_zset (view_of r1) delayed_key = v_zset (view_of r) delayed_key"
    by (rule Allow_frame(4) [OF a])
  then show ?case
    using Cons.IH [OF Cons.prems(1)] Cons.prems(2) a by (auto simp: turn split: bool.splits if_splits)
qed simp

lemma delayed_keeps:
  "redis_up R \<Longrightarrow> keeps (\<lambda>r. v_zset (view_of r) delayed_key = z) (Enqueue L R)"
  by (simp add: keeps_def zset_calls)

lemma Enqueue_message:
  assumes "redis_up R" "uuid_laws L" "priority_valid p"
  shows "message_but X L (view_of (snd (Enqueue L R u ch p r))) u"
proof -
  have "StreamKey p \<in> set priority_streams"
    using assms(3) by (auto simp: priority_valid_def priority_streams_def)
  then show ?thesis
    using assms(2) Enqueue_ok [OF up_pair [OF Enqueue_up [OF assms(1)]], of L u ch p r]
    by (fastforce simp: message_but_def entries_but_def names_def view_defs)
qed

text \<open>A batch of retries that are due: each leaves the delayed set and becomes a message.\<close>

lemma retry_requeued:
  assumes "uuid_laws L" "\<forall>t \<in> set ts. retry_ok t"
    and "\<forall>p. waiting (StreamKey p) w = waiting (StreamKey p) v @ retry_messages L p ts"
    and "t \<in> set ts" "retry_member L t = retry_member L (i, ch, p)" "retry_ok (i, ch, p)"
  shows "message_but X L w i"
proof -
  obtain j c q where tt: "t = (j, c, q)" by (metis surj_pair)
  have ok: "retry_ok (j, c, q)" using assms(2,4) tt by blast
  have "uuid_String L j = uuid_String L i" "c = ch" "q = p"
    using retry_member_parses [OF assms(1) ok] retry_member_parses [OF assms(1,6)] assms(5)
    unfolding tt by simp_all
  then have "(Some (uuid_String L i), Some ch) \<in> set (waiting (StreamKey p) w)"
    using assms(3,4) tt by (auto simp: retry_messages_def intro!: rev_image_eqI)
  then obtain e where "e \<in> set (v_unread w (StreamKey p))" "map_of (snd e) ''notification_id'' = Some (uuid_String L i)"
    by (auto simp: waiting_def)
  then have "e \<in> set (v_unread w (StreamKey p))" "names L i e" using names_text [OF assms(1)] by simp_all
  moreover have "StreamKey p \<in> set priority_streams"
    using assms(6) by (auto simp: retry_ok_def priority_valid_def priority_streams_def)
  ultimately show ?thesis unfolding message_but_def entries_but_def by blast
qed

text \<open>A retry that a batch takes becomes a message.\<close>

lemma delayed_batch_moves:
  assumes "redis_up R" "uuid_laws (d_lib D)" "d_redis D = R" "delayed_ok (d_lib D) (view_of r)"
    and "retry_ok (i, ch, p)"
    and "retry_member (d_lib D) (i, ch, p) \<in> set (zset_due (UnixMilli clock) 50 (v_zset (view_of r) delayed_key))"
  shows "message_but X (d_lib D) (view_of (processDelayedBatch D clock r)) i"
proof -
  obtain ts where ts: "\<forall>t \<in> set ts. retry_ok t"
    "map (retry_member (d_lib D)) ts = zset_due (UnixMilli clock) 50 (v_zset (view_of r) delayed_key)"
    "\<forall>p. waiting (StreamKey p) (view_of (processDelayedBatch D clock r)) =
      waiting (StreamKey p) (view_of r) @ retry_messages (d_lib D) p ts"
    using delayed_batch_effect [OF redis_service_axioms assms(1-4), of clock] by blast
  obtain t where "t \<in> set ts" "retry_member (d_lib D) t = retry_member (d_lib D) (i, ch, p)"
    using assms(6) unfolding ts(2) [symmetric] by auto
  then show ?thesis using retry_requeued [OF assms(2) ts(1,3)] assms(5) by blast
qed

lemma delayed_batch_track:
  assumes "redis_up R" "uuid_laws (d_lib D)" "d_redis D = R" "delayed_ok (d_lib D) (view_of r)"
  shows "keeps_but X (d_lib D) (view_of r) (view_of (processDelayedBatch D clock r))"
proof -
  let ?L = "d_lib D" and ?r' = "processDelayedBatch D clock r"
  obtain ts where ts: "\<forall>t \<in> set ts. retry_ok t"
    "\<forall>p. waiting (StreamKey p) (view_of ?r') = waiting (StreamKey p) (view_of r) @ retry_messages ?L p ts"
    "v_zset (view_of ?r') delayed_key =
      filter (\<lambda>e. fst e \<notin> retry_member ?L ` set ts) (v_zset (view_of r) delayed_key)"
    using delayed_batch_effect [OF redis_service_axioms assms, of clock] by blast
  have "retry_waiting ?L (view_of r) i \<Longrightarrow> underway_but X ?L (view_of ?r') i" for i
  proof -
    assume "retry_waiting ?L (view_of r) i"
    then obtain ch p where m: "retry_ok (i, ch, p)"
      "retry_member ?L (i, ch, p) \<in> fst ` set (v_zset (view_of r) delayed_key)"
      unfolding retry_waiting_def by blast
    show "underway_but X ?L (view_of ?r') i"
    proof (cases "retry_member ?L (i, ch, p) \<in> retry_member ?L ` set ts")
      case True
      then obtain t where "t \<in> set ts" "retry_member ?L t = retry_member ?L (i, ch, p)" by auto
      then show ?thesis using retry_requeued [OF assms(2) ts(1,2)] m(1) unfolding underway_but_def by blast
    next
      case False
      then have "retry_member ?L (i, ch, p) \<in> fst ` set (v_zset (view_of ?r') delayed_key)"
        using m(2) unfolding ts(3) by auto
      then show ?thesis using m(1) unfolding underway_but_def retry_waiting_def by blast
    qed
  qed
  moreover have "message_but X ?L (view_of r) i \<Longrightarrow> underway_but X ?L (view_of ?r') i" for i
    using message_steps [OF steps_processDelayedBatch [OF assms(3,1)]] unfolding underway_but_def by blast
  moreover have "delayed_ok ?L (view_of ?r')"
    using assms(4) by (auto simp: delayed_ok_def ts(3))
  ultimately show ?thesis unfolding keeps_but_def by (auto simp: underway_but_def)
qed

end


section \<open>Requests and polls\<close>

definition tracked_but :: "(string \<times> string) set \<Rightarrow> lib \<Rightarrow> view \<Rightarrow> db \<Rightarrow> bool" where
  "tracked_but X L v d \<longleftrightarrow> no_faults d \<and> rows_ok (db_tables d) \<and> delayed_ok L v \<and> accounted_but X L v (db_tables d)"

abbreviation tracked :: "lib \<Rightarrow> view \<Rightarrow> db \<Rightarrow> bool" where
  "tracked \<equiv> tracked_but {}"

lemmas tracked_def = tracked_but_def [of "{}"]

lemma tracked_step:
  assumes "tracked_but X L v d" "no_faults d'" "rows_ok (db_tables d')" "keeps_but X L v w"
    and "\<And>i r. row_at i (db_tables d') = Some r \<Longrightarrow> r_status r = StatusScheduled \<or> terminal (r_status r) \<or>
      underway_but X L w i \<or> (\<exists>r0. row_at i (db_tables d) = Some r0 \<and> r_status r0 = r_status r)"
  shows "tracked_but X L w d'"
  using assms unfolding tracked_but_def accounted_but_def keeps_but_def by metis

lemma tracked_rows:
  assumes "tracked_but X L v d" "same_rows d d'" "keeps_but X L v w"
  shows "tracked_but X L w d'"
proof -
  have "no_faults d'" "notifications (db_tables d') = notifications (db_tables d)" "rows_ok (db_tables d)"
    using assms(1,2) by (simp_all add: tracked_but_def same_rows_def)
  then show ?thesis
    using tracked_step [OF assms(1) _ _ assms(3), of d'] rows_ok_same by (auto simp: row_at_def)
qed

lemma tracked_Cancel:
  assumes "tracked_but X L v d"
  shows "tracked_but X L v (snd (NotificationService_Cancel now j d))"
proof -
  have eq: "snd (NotificationService_Cancel now j d) = snd (repo_Cancel now j d)"
    by (auto simp: NotificationService_Cancel_def split: prod.splits option.splits)
  have d: "no_faults d" "rows_ok (db_tables d)" using assms by (simp_all add: tracked_but_def)
  have c: "terminal (r_status r) \<or> (\<exists>r0. row_at i (db_tables d) = Some r0 \<and> r_status r0 = r_status r)"
    if "row_at i (db_tables (snd (repo_Cancel now j d))) = Some r" for i r
    using repo_Cancel_cases [OF d(1) rows_ok_distinct [OF d(2)], where i = j and now = now] that
    by (auto simp: cancelled_row_def terminal_def source_consts split: option.splits if_splits)
  show ?thesis
    using tracked_step [OF assms _ rows.inv_repo_Cancel [OF d(2)] keeps_track_refl] c d(1)
    unfolding eq repo_Cancel_faults by blast
qed

lemma batch_stamped_ball:
  "\<forall>n \<in> set ns. P n \<Longrightarrow> (\<And>n i. P n \<Longrightarrow> P (stamped now i n)) \<Longrightarrow> \<forall>n \<in> set (batch_stamped now uuids k ns). P n"
  by (induction ns arbitrary: k) auto

context redis_service
begin

lemma poll_zset:
  assumes "redis_up R" "Scheduler_poll L R limit locked now d r = (d', r')"
  shows "v_zset (view_of r') = v_zset (view_of r)"
proof -
  have "v_zset (view_of (fold (enqueue_due L R) ns r)) = v_zset (view_of r)" for ns
    by (rule keeps_fold) (simp_all add: enqueue_due_def zset_calls [OF assms(1)])
  then show ?thesis using assms(2) by (auto simp: Scheduler_poll_def split: prod.splits sum.splits)
qed

lemma tracked_poll:
  assumes "redis_up R" "uuid_laws L" "tracked_but X L (view_of r) d" "Scheduler_poll L R limit locked now d r = (d', r')"
  shows "tracked_but X L (view_of r') d'"
proof -
  have d: "no_faults d" "rows_ok (db_tables d)" using assms by (simp_all add: tracked_but_def)
  note res = repo_FetchScheduledDue_result [OF d(1) rows_ok_distinct [OF d(2)], where now = now and limit = limit and locked = locked]
  let ?ns = "map (scanNotification \<circ> pending_row now) (polled now limit locked d)"
  have run: "d' = snd (repo_FetchScheduledDue now limit locked d)" "r' = fold (enqueue_due L R) ?ns r"
    using assms(4) res(1) by (auto simp: Scheduler_poll_def split: prod.splits sum.splits)
  have "v_zset (view_of r') delayed_key = v_zset (view_of r) delayed_key"
    using poll_zset [OF assms(1,4)] by simp
  then have track: "keeps_but X L (view_of r) (view_of r')"
    using same_delayed_track [OF steps_poll [OF assms(1,4)]] by blast
  have msg: "message_but X L (view_of r') (r_id x)" if x: "x \<in> set (polled now limit locked d)" for x
  proof -
    have "x \<in> set (notifications (db_tables d))" using polled_due(1) [OF x] .
    then have "row_ok x" using d(2) by (simp add: rows_ok_def)
    then have key: "StreamKey (r_priority x) \<in> set priority_streams"
      by (auto simp: row_ok_def priority_type_def priority_streams_def source_consts)
    have "Some (uuid_String L (r_id x)) \<in> set (waiting_ids (StreamKey (r_priority x)) (view_of r'))"
      unfolding run(2) waiting_fold_enqueue [OF assms(1)] using x by (force simp: pending_row_def)
    then obtain e where "e \<in> set (v_unread (view_of r') (StreamKey (r_priority x)))"
      "map_of (snd e) ''notification_id'' = Some (uuid_String L (r_id x))"
      by (auto simp: waiting_ids_def)
    then have "e \<in> set (v_unread (view_of r') (StreamKey (r_priority x)))" "names L (r_id x) e"
      using names_text [OF assms(2)] by simp_all
    then show ?thesis using key unfolding message_but_def entries_but_def by blast
  qed
  have "rows_ok (db_tables d')" using rows.inv_repo_FetchScheduledDue [OF d(2)] by (simp add: run(1))
  moreover have "underway_but X L (view_of r') i \<or> (\<exists>r0. row_at i (db_tables d) = Some r0 \<and> r_status r0 = r_status x)"
    if "row_at i (db_tables d') = Some x" for i x
    using that res(2) [of i] msg unfolding run(1) underway_but_def by (auto split: if_splits)
  ultimately show ?thesis using tracked_step [OF assms(3) _ _ track] d(1) run(1) by auto
qed

lemma tracked_Create:
  assumes "redis_up R" "uuid_laws L" "tracked_but X L (view_of r) d"
    and "NotificationService_Create L (Some (Enqueue L R)) m clock j req d r = (res, d', r')"
  shows "tracked_but X L (view_of r') d'"
proof -
  have d: "no_faults d" "rows_ok (db_tables d)" using assms by (simp_all add: tracked_but_def)
  have rows': "rows_ok (db_tables d')" using rows.inv_NotificationService_Create [OF d(2) assms(4)] .
  have "v_zset (view_of r') delayed_key = v_zset (view_of r) delayed_key"
    by (rule keeps_Create [OF delayed_keeps [OF assms(1)] refl assms(4)])
  then have track: "keeps_but X L (view_of r) (view_of r')"
    using same_delayed_track [OF steps_Create [OF assms(1,4)]] by blast
  show ?thesis
  proof (cases res)
    case (Inl e)
    then have "db_tables d' = db_tables d" "no_faults d'"
      using Create_failed [OF d(1) assms(4) [unfolded Inl]] create_faults [OF assms(4)] d(1) by simp_all
    then show ?thesis using tracked_step [OF assms(3) _ rows' track] by simp
  next
    case (Inr n)
    note c = Create_stored [OF d(1) assms(4) [unfolded Inr]]
    have rows: "row_at j (db_tables d') = Some (stored_row clock n)"
      "\<forall>i. i \<noteq> j \<longrightarrow> row_at i (db_tables d') = row_at i (db_tables d)"
      using c by simp_all
    have "n_status (scanNotification (stored_row clock n)) = n_status n" using c by simp
    then have st: "r_status (stored_row clock n) = n_status n" by simp
    have new: "n_status n = StatusScheduled \<or> underway_but X L (view_of r') j"
    proof (cases "q_scheduled_at req")
      case None
      have "fst (Enqueue L R j (q_channel req) (q_priority req) r) = None" using Enqueue_up [OF assms(1)] .
      then have "r' = snd (Enqueue L R j (q_channel req) (q_priority req) r)"
        using c None by (auto split: prod.splits option.splits)
      then show ?thesis using Enqueue_message [OF assms(1,2)] c unfolding underway_but_def by metis
    next
      case (Some t)
      then show ?thesis using c by simp
    qed
    show ?thesis
    proof (rule tracked_step [OF assms(3) _ rows' track])
      show "no_faults d'" using create_faults [OF assms(4)] d(1) by simp
      fix i x
      assume "row_at i (db_tables d') = Some x"
      then show "r_status x = StatusScheduled \<or> terminal (r_status x) \<or> underway_but X L (view_of r') i \<or>
          (\<exists>r0. row_at i (db_tables d) = Some r0 \<and> r_status r0 = r_status x)"
        using rows st new by (cases "i = j") auto
    qed
  qed
qed

lemma enqueue_loop_queued:
  assumes "redis_up R" "uuid_laws L" "enqueue_loop (Some (Enqueue L R)) clock k ns d r = (ns', d', r')"
    and "\<forall>n \<in> set ns. priority_valid (n_priority n) \<and> (n_status n = StatusScheduled \<or> n_status n = StatusPending)"
  shows "\<forall>n \<in> set ns'. n_status n = StatusScheduled \<or> message_but X L (view_of r') (n_id n)"
  using assms(3,4)
proof (induction ns arbitrary: k d r ns')
  case (Cons n ns)
  obtain n1 d1 r1 where one: "enqueue_new (Some (Enqueue L R)) (clock (Suc k)) n d r = (n1, d1, r1)"
    by (metis surj_pair)
  obtain ns2 where rest: "enqueue_loop (Some (Enqueue L R)) clock (Suc k) ns d1 r1 = (ns2, d', r')" "ns' = n1 # ns2"
    using Cons.prems(1) one by (auto split: prod.splits)
  have later: "view_steps {} (view_of r1) (view_of r')"
    by (rule keeps_enqueue_loop [OF steps_keeps [OF assms(1)] _ rest(1)]) simp
  have "n_status n1 = StatusScheduled \<or> message_but X L (view_of r1) (n_id n1)"
  proof (cases "n_status n = StatusPending")
    case True
    have "fst (Enqueue L R (n_id n) (n_channel n) (n_priority n) r) = None" by (rule Enqueue_up [OF assms(1)])
    then have "n_id n1 = n_id n" "r1 = snd (Enqueue L R (n_id n) (n_channel n) (n_priority n) r)"
      using enqueue_new_queue [OF one] True by simp_all
    then show ?thesis using Enqueue_message [OF assms(1,2)] Cons.prems(2) by simp
  next
    case False
    then show ?thesis using enqueue_new_queue [OF one] Cons.prems(2) by simp
  qed
  then show ?case
    using Cons.IH [OF rest(1)] Cons.prems(2) message_steps [OF later] by (auto simp: rest(2))
qed simp

lemma tracked_CreateBatch:
  assumes "redis_up R" "uuid_laws L" "tracked_but X L (view_of r) d"
    and "NotificationService_CreateBatch L (Some (Enqueue L R)) m clock b uuids reqs d r = (res, d', r')"
  shows "tracked_but X L (view_of r') d'"
proof -
  have d: "no_faults d" "rows_ok (db_tables d)" using assms by (simp_all add: tracked_but_def)
  have rows': "rows_ok (db_tables d')" using rows.inv_NotificationService_CreateBatch [OF d(2) assms(4)] .
  have faults': "no_faults d'" using batch_faults [OF assms(4) d(1)] .
  have "v_zset (view_of r') delayed_key = v_zset (view_of r) delayed_key"
    by (rule keeps_CreateBatch [OF delayed_keeps [OF assms(1)] refl assms(4)])
  then have track: "keeps_but X L (view_of r) (view_of r')"
    using same_delayed_track [OF steps_CreateBatch [OF assms(1,4)]] by blast
  note result = CreateBatch_result [OF d(1) rows_ok_distinct [OF d(2)] assms(4)]
  show ?thesis
  proof (cases res)
    case (Inl e)
    then show ?thesis using tracked_step [OF assms(3) faults' rows' track] result by simp
  next
    case (Inr ns)
    obtain ns0 d0 d1 ns1 where prep: "prepare_loop L m b 0 reqs d = (Inr ns0, d0)"
      and create: "repo_CreateBatch (clock 0) uuids ns0 d0 = (Inr ns1, d1)"
      and enq: "enqueue_loop (Some (Enqueue L R)) clock 0 ns1 d1 r = (ns, d', r')"
      using assms(4) Inr
      by (auto simp: NotificationService_CreateBatch_def split: option.splits if_splits prod.splits sum.splits)
    have "\<forall>n \<in> set ns0. priority_valid (n_priority n) \<and> (n_status n = StatusScheduled \<or> n_status n = StatusPending)"
      using prepare_loop_ok [OF prep] by (auto simp: fresh_notification_def source_consts)
    then have "\<forall>n \<in> set ns1. priority_valid (n_priority n) \<and> (n_status n = StatusScheduled \<or> n_status n = StatusPending)"
      using batch_stamped_ball [of ns0 "\<lambda>n. priority_valid (n_priority n) \<and>
          (n_status n = StatusScheduled \<or> n_status n = StatusPending)"] repo_CreateBatch_rows [OF create]
      by (simp add: stamped_def)
    note queued = enqueue_loop_queued [OF assms(1,2) enq this]
    have stored: "agrees n (db_tables d')" if "n \<in> set ns" for n
      using result that unfolding Inr by (auto simp: list_all2_conv_all_nth in_set_conv_nth)
    have st: "r_status x = n_status n" if "n \<in> set ns" "row_at (n_id n) (db_tables d') = Some x" for n x
    proof -
      have "n_status ((scanNotification x)\<lparr>n_scheduled_at := n_scheduled_at n, n_created_at := n_created_at n,
          n_updated_at := n_updated_at n\<rparr>) = n_status n"
        using stored [OF that(1)] that(2) by (auto simp: agrees_def)
      then show ?thesis by simp
    qed
    show ?thesis
    proof (rule tracked_step [OF assms(3) faults' rows' track])
      fix i x
      assume x: "row_at i (db_tables d') = Some x"
      show "r_status x = StatusScheduled \<or> terminal (r_status x) \<or> underway_but X L (view_of r') i \<or>
          (\<exists>r0. row_at i (db_tables d) = Some r0 \<and> r_status r0 = r_status x)"
      proof (cases "i \<in> n_id ` set ns")
        case True
        then obtain n where "n \<in> set ns" "i = n_id n" by blast
        then show ?thesis using st x queued unfolding underway_but_def by metis
      next
        case False
        then show ?thesis using result x unfolding Inr by auto
      qed
    qed
  qed
qed

end

lemma tracked_reads:
  assumes "tracked_but X L v d"
  shows "NotificationService_Cancel now i d = (e, d') \<Longrightarrow> tracked_but X L v d'"
    "NotificationService_GetByID i d = (x, d') \<Longrightarrow> tracked_but X L v d'"
    "NotificationService_List f d = (y, d') \<Longrightarrow> tracked_but X L v d'"
    "NotificationService_GetDeliveryAttempts i d = (z, d') \<Longrightarrow> tracked_but X L v d'"
    "TemplateService_Create l now i treq d = (tx, d') \<Longrightarrow> tracked_but X L v d'"
    "TemplateService_GetByID i d = (tg, d') \<Longrightarrow> tracked_but X L v d'"
    "TemplateService_List rank d = (tls, d') \<Longrightarrow> tracked_but X L v d'"
    "TemplateService_Update l now i ureq d = (tg, d') \<Longrightarrow> tracked_but X L v d'"
    "TemplateService_Delete i d = (e, d') \<Longrightarrow> tracked_but X L v d'"
  using tracked_Cancel [OF assms, of now i]
    tracked_rows [OF assms read_same(1) [of d i] keeps_track_refl] tracked_rows [OF assms read_same(2) [of d f] keeps_track_refl]
    tracked_rows [OF assms attempts_same [of d i] keeps_track_refl]
    tracked_rows [OF assms template_service_same(1) [of d l now i treq] keeps_track_refl]
    tracked_rows [OF assms template_service_same(2) [of d l now i ureq] keeps_track_refl]
    tracked_rows [OF assms template_same(1) [of d i] keeps_track_refl]
    tracked_rows [OF assms template_same(2) [of d rank] keeps_track_refl]
    tracked_rows [OF assms template_same(4) [of d i] keeps_track_refl]
  by (simp_all add: NotificationService_GetByID_def NotificationService_List_def TemplateService_GetByID_def
      TemplateService_List_def TemplateService_Delete_def)

abbreviation tracked_world_but :: "(string \<times> string) set \<Rightarrow> lib \<Rightarrow> ('r \<Rightarrow> view) \<Rightarrow> 'r world \<Rightarrow> bool" where
  "tracked_world_but X L V w \<equiv> tracked_but X L (V (w_redis w)) (w_db w)"

abbreviation tracked_world :: "lib \<Rightarrow> ('r \<Rightarrow> view) \<Rightarrow> 'r world \<Rightarrow> bool" where
  "tracked_world \<equiv> tracked_world_but {}"

context redis_service
begin

lemma tracked_target:
  assumes "serves S" "uuid_laws (d_lib (wi_dispatcher S))" "tracked_world_but X (d_lib (wi_dispatcher S)) view_of w"
    and "dispatch_target (wired_api S) su t hijacker rq (server_state w) = (x, st)"
  shows "tracked_but X (d_lib (wi_dispatcher S)) (view_of (as_queue st)) (as_db st)"
proof -
  let ?D = "wi_dispatcher S"
  have R: "d_redis ?D = R" and up: "redis_up R" and laws: "uuid_laws (d_lib ?D)" using assms(1,2) by simp_all
  have creations: "NotificationService_Create (d_lib ?D) (Some (Enqueue (d_lib ?D) (d_redis ?D))) m clock j req
        (w_db w) (w_redis w) = (res, d', r') \<Longrightarrow> tracked_but X (d_lib ?D) (view_of r') d'"
    "NotificationService_CreateBatch (d_lib ?D) (Some (Enqueue (d_lib ?D) (d_redis ?D))) m clock b uuids reqs
        (w_db w) (w_redis w) = (ress, d', r') \<Longrightarrow> tracked_but X (d_lib ?D) (view_of r') d'"
    for m clock j req res d' r' b uuids reqs ress
    unfolding R using tracked_Create [OF up laws assms(3)] tracked_CreateBatch [OF up laws assms(3)] by blast+
  show ?thesis
  proof (cases t)
    case ToWebSocket
    then show ?thesis using assms by (auto simp: dispatch_target_def Let_def split: prod.splits)
  qed (use assms in \<open>auto simp: dispatch_target_def wrote_def NotificationHandler_Create_def NotificationHandler_CreateBatch_def
      NotificationHandler_Get_def NotificationHandler_List_def NotificationHandler_ListByBatch_def
      NotificationHandler_Cancel_def NotificationHandler_GetAttempts_def TemplateHandler_Create_def
      TemplateHandler_Get_def TemplateHandler_List_def TemplateHandler_Update_def TemplateHandler_Delete_def
      wired_api_def Let_def
      dest: tracked_reads creations
      split: option.splits prod.splits sum.splits\<close>)
qed

lemma tracked_request:
  assumes "serves S" "uuid_laws (d_lib (wi_dispatcher S))" "tracked_world_but X (d_lib (wi_dispatcher S)) view_of w"
  shows "tracked_world_but X (d_lib (wi_dispatcher S)) view_of (request_step S su fresh rq w)"
proof -
  let ?L = "d_lib (wi_dispatcher S)"
  have target: "tracked_but X ?L (view_of (as_queue (snd (dispatch_target (wired_api S) su t hijacker rq (server_state w)))))
      (as_db (snd (dispatch_target (wired_api S) su t hijacker rq (server_state w))))" for t hijacker rq
    using tracked_target [OF assms] by (metis prod.collapse)
  have "tracked_but X ?L (view_of (as_queue (snd (mux (wired_api S) su hijacker rq (server_state w)))))
      (as_db (snd (mux (wired_api S) su hijacker rq (server_state w))))" for hijacker rq
    using target assms(3) by (auto simp: mux_def wrote_def split: routed.splits)
  then show ?thesis
    using assms(3)
    by (auto simp: request_step_def with_state_def NewRouter_def RequestID_chosen Recovery_def Logging_def
        split: prod.splits sum.splits option.splits) (metis snd_conv)+
qed

end

end
