(* ===== verification/Throttling.thy ===== *)
theory Throttling
  imports Limiter
begin

text \<open>
  What the sliding-window limiter guarantees for a channel, as its callers observe it: the times
  at which \<open>Allow\<close> said yes. The script names an entry of the window by its millisecond and a
  random draw, so two calls with the same millisecond and draw share one entry.
\<close>

section \<open>Distinct milliseconds in a window\<close>

definition calls_of :: "(time \<times> int) list \<Rightarrow> (int \<times> string) list" where
  "calls_of cs = map (\<lambda>(clock, rnd). (UnixMilli clock, limiter_member (UnixMilli clock) rnd)) cs"

text \<open>The members of the set and of the calls still to come determine their times.\<close>

definition timed :: "(int \<times> string) list \<Rightarrow> zset \<Rightarrow> bool" where
  "timed cs z \<longleftrightarrow> (\<exists>f. (\<forall>c \<in> set cs. f (snd c) = fst c) \<and> (\<forall>e \<in> set z. f (fst e) = snd e))"

lemma timed_step:
  assumes "timed ((now, m) # cs) z" "win_step w mx now m z = (ok, z')"
  shows "timed cs z'" "set (map snd z') = (if ok then {now} else {}) \<union> set (map snd (win_live w now z))"
proof -
  obtain f where f: "\<forall>c \<in> set ((now, m) # cs). f (snd c) = fst c" "\<forall>e \<in> set z. f (fst e) = snd e"
    using assms(1) by (auto simp: timed_def)
  have z': "set z' = (if ok then insert (m, now) {e \<in> set (win_live w now z). fst e \<noteq> m}
      else set (win_live w now z))"
    using assms(2) by (auto simp: win_step_def Let_def set_zset_add split: if_splits)
  have live: "set (win_live w now z) \<subseteq> set z" by (auto simp: win_live_def)
  have "\<forall>e \<in> set (win_live w now z). f (fst e) = snd e" using f(2) live by blast
  then have "\<forall>e \<in> set z'. f (fst e) = snd e" using f(1) z' by (auto split: if_splits)
  then show "timed cs z'" using f(1) by (auto simp: timed_def intro!: exI [of _ f])
  have "snd e = now" if "e \<in> set (win_live w now z)" "fst e = m" for e
    using that f live by auto
  then show "set (map snd z') = (if ok then {now} else {}) \<union> set (map snd (win_live w now z))"
    by (auto simp: z' image_iff)
qed

lemma in_window_set: "set (in_window w t xs) = {s \<in> set xs. t - w < s \<and> s \<le> t}"
  by (auto simp: in_window_def)

lemma win_run_distinct_bound:
  assumes "sorted (map fst cs)" "timed cs z" "length z \<le> nat mx"
  shows "card (set (in_window w t (map snd z)) \<union> set (in_window w t (win_run w mx cs z))) \<le> nat mx"
  using assms
proof (induction w mx cs z rule: win_run.induct)
  case (1 w mx z)
  have "card (set (in_window w t (map snd z))) \<le> length (in_window w t (map snd z))"
    by (rule card_length)
  then show ?case using 1 in_window_length [of w t "map snd z"] by simp
next
  case (2 w mx now m cs z)
  obtain ok z' where step: "win_step w mx now m z = (ok, z')" by fastforce
  note t = timed_step [OF "2.prems"(2) step]
  let ?rest = "if ok then now # win_run w mx cs z' else win_run w mx cs z'"
  have run: "win_run w mx ((now, m) # cs) z = ?rest" by (simp add: step)
  have later: "\<forall>s \<in> set (win_run w mx cs z'). now \<le> s"
    using "2.prems"(1) by (intro win_run_later) auto
  show ?case
  proof (cases "t < now")
    case True
    then have "in_window w t ?rest = []" using later by (intro in_window_none) auto
    moreover have "card (set (in_window w t (map snd z))) \<le> length (in_window w t (map snd z))"
      by (rule card_length)
    ultimately show ?thesis
      using in_window_length [of w t "map snd z"] "2.prems"(3) unfolding run by simp
  next
    case False
    have len: "length z' \<le> nat mx"
    proof -
      have "length (zset_add m now (win_live w now z)) \<le> Suc (length (win_live w now z))"
        by (simp add: zset_add_def)
      moreover have "length (win_live w now z) \<le> length z" by (simp add: win_live_def)
      ultimately show ?thesis
        using step "2.prems"(3) by (auto simp: win_step_def Let_def split: if_splits)
    qed
    have cs: "sorted (map fst cs)" using "2.prems"(1) by simp
    have ih: "card (set (in_window w t (map snd z')) \<union> set (in_window w t (win_run w mx cs z'))) \<le> nat mx"
      using "2.IH"(1) [OF step [symmetric] _ cs t(1) len] "2.IH"(2) [OF step [symmetric] _ cs t(1) len]
      by (cases ok) simp_all
    have "set (in_window w t (map snd (win_live w now z))) = set (in_window w t (map snd z))"
      using False by (simp add: in_window_live)
    then have "set (in_window w t (map snd z)) \<union> set (in_window w t ?rest) =
        set (in_window w t (map snd z')) \<union> set (in_window w t (win_run w mx cs z'))"
      using t(2) unfolding in_window_set by (auto split: if_splits)
    then show ?thesis using ih unfolding run by simp
  qed
qed

lemma calls_timed:
  assumes "\<forall>c \<in> set cs. 0 \<le> fst c \<and> 0 \<le> snd c"
  shows "timed (calls_of cs) []"
proof -
  let ?f = "\<lambda>m. SOME s. \<exists>r \<ge> 0. 0 \<le> s \<and> m = limiter_member s r"
  have "?f (limiter_member s r) = s" if "0 \<le> s" "0 \<le> r" for s r
  proof (rule some_equality)
    show "\<exists>r' \<ge> 0. 0 \<le> s \<and> limiter_member s r = limiter_member s r'" using that by blast
    show "s' = s" if "\<exists>r' \<ge> 0. 0 \<le> s' \<and> limiter_member s r = limiter_member s' r'" for s'
      using that limiter_member_inject \<open>0 \<le> s\<close> \<open>0 \<le> r\<close> by metis
  qed
  then have "\<forall>c \<in> set (calls_of cs). ?f (snd c) = fst c"
    using assms by (fastforce simp: calls_of_def UnixMilli_def)
  then show ?thesis unfolding timed_def by (intro exI [of _ ?f]) simp
qed

lemma calls_sorted: "sorted (map fst cs) \<Longrightarrow> sorted (map fst (calls_of cs))"
  by (induction cs) (auto simp: calls_of_def UnixMilli_def intro: zdiv_mono1)

text \<open>
  In every window of one second, whatever the script draws, the admitted calls fall into at
  most \<open>maxPerSec\<close> distinct milliseconds.
\<close>

theorem limiter_distinct_milliseconds:
  assumes "redis_service R V" "redis_up R" "v_zset (V r) (limiter_key ch) = []"
    and "sorted (map fst calls)" "\<forall>c \<in> set calls. 0 \<le> fst c \<and> 0 \<le> snd c"
  shows "card (set (in_window 1000 t (allow_run R (NewLimiter m) ch calls r))) \<le> nat m"
  using win_run_distinct_bound [OF calls_sorted calls_timed, OF assms(4,5), of m 1000 t]
    redis_service.allow_run_refines [OF assms(1,2), of "NewLimiter m" ch calls r] assms(3)
  by (simp add: calls_of_def NewLimiter_def)

theorem limiter_distinct_milliseconds_witness:
  "card (set (in_window 1000 9 (allow_run redis_ref (NewLimiter 2) ''sms''
     [(1000000, 5), (2000000, 5), (3000000, 5)] ref_empty))) \<le> 2"
  using limiter_distinct_milliseconds [OF ref.redis_service_axioms redis_ref_up, of ref_empty "''sms''"
      "[(1000000, 5), (2000000, 5), (3000000, 5)]" 9 2]
  by (simp add: view_empty_def)

text \<open>
  Property C22. As long as no two calls share millisecond and draw, the limiter keeps its promise: every
  window of one second holds at most \<open>maxPerSec\<close> admitted calls.
\<close>

theorem limiter_window_bound:
  assumes "redis_service R V" "redis_up R" "v_zset (V r) (limiter_key ch) = []"
    and "sorted (map fst calls)" "\<forall>c \<in> set calls. 0 \<le> fst c \<and> 0 \<le> snd c"
    and "distinct (map (\<lambda>(clock, rnd). (UnixMilli clock, rnd)) calls)"
  shows "length (in_window 1000 t (allow_run R (NewLimiter m) ch calls r)) \<le> nat m"
proof -
  have "inj_on (\<lambda>(s, rnd). limiter_member s rnd) (set (map (\<lambda>(clock, rnd). (UnixMilli clock, rnd)) calls))"
  proof (rule inj_onI, clarify)
    fix s rnd s' rnd'
    assume c: "(s, rnd) \<in> set (map (\<lambda>(clock, rnd). (UnixMilli clock, rnd)) calls)"
      "(s', rnd') \<in> set (map (\<lambda>(clock, rnd). (UnixMilli clock, rnd)) calls)"
      and same: "limiter_member s rnd = limiter_member s' rnd'"
    have "0 \<le> s" "0 \<le> rnd" "0 \<le> s'" "0 \<le> rnd'" using c assms(5) by (auto simp: UnixMilli_def)
    then show "s = s' \<and> rnd = rnd'" using same limiter_member_inject by blast
  qed
  then have "distinct (map (\<lambda>(s, rnd). limiter_member s rnd)
      (map (\<lambda>(clock, rnd). (UnixMilli clock, rnd)) calls))"
    using assms(6) by (subst distinct_map) blast
  then have "distinct (map snd (calls_of calls))"
    by (simp add: calls_of_def case_prod_beta comp_def)
  from win_run_bound [OF calls_sorted this, OF assms(4), where z = "[]" and mx = m and t = t and w = 1000] show ?thesis
    using redis_service.allow_run_refines [OF assms(1,2), of "NewLimiter m" ch calls r] assms(3)
    by (simp add: calls_of_def NewLimiter_def)
qed

theorem limiter_window_bound_witness:
  "length (in_window 1000 9 (allow_run redis_ref (NewLimiter 2) ''sms''
     [(1000000, 5), (1000000, 6), (3000000, 5)] ref_empty)) \<le> 2"
  using limiter_window_bound [OF ref.redis_service_axioms redis_ref_up, of ref_empty "''sms''"
      "[(1000000, 5), (1000000, 6), (3000000, 5)]" 9 2]
  by (simp add: view_empty_def UnixMilli_def)

text \<open>
  Calls that do share both are not limited at all: they replace each other's entry, the count
  stays at one, and with a limit of two or more any number of them is admitted within the same
  millisecond. Redis seeds \<open>math.random\<close> afresh in every script run, so equal draws are the rule.
\<close>

theorem limiter_collisions_unlimited:
  assumes "redis_service R V" "redis_up R" "v_zset (V r) (limiter_key ch) = []" "2 \<le> m"
  shows "allow_run R (NewLimiter m) ch (replicate n (clock, rnd)) r = replicate n (UnixMilli clock)"
  using redis_service.allow_run_refines [OF assms(1,2), of "NewLimiter m" ch "replicate n (clock, rnd)" r]
    win_run_collisions [OF assms(4), of 1000 "[]"] assms(3)
  by (simp add: NewLimiter_def map_replicate_const)

theorem limiter_collisions_unlimited_witness:
  "length (in_window 1000 1 (allow_run redis_ref (NewLimiter 100) ''sms''
     (replicate 500 (1000000, 7)) ref_empty)) = 500"
  using limiter_collisions_unlimited [OF ref.redis_service_axioms redis_ref_up, of ref_empty "''sms''" 100
      500 1000000 7]
  by (simp add: view_empty_def UnixMilli_def in_window_def filter_replicate)

text \<open>
  A channel that was quiet for a second is admitted again, whatever the window held before.
\<close>

theorem limiter_reopens:
  assumes "redis_service R V" "redis_up R" "0 < m"
    and "\<forall>e \<in> set (v_zset (V r) (limiter_key ch)). snd e \<le> UnixMilli clock - 1000"
  shows "\<exists>r'. Allow R (NewLimiter m) ch clock rnd r = (Inr True, r') \<and>
    v_zset (V r') (limiter_key ch) = [(limiter_member (UnixMilli clock) rnd, UnixMilli clock)]"
proof -
  obtain ok r' where a: "Allow R (NewLimiter m) ch clock rnd r = (Inr ok, r')"
    using Allow_up [OF assms(2)] by blast
  have "win_live 1000 (UnixMilli clock) (v_zset (V r) (limiter_key ch)) = []"
    using assms(4) by (auto simp: win_live_def filter_empty_conv)
  then have "win_step 1000 m (UnixMilli clock) (limiter_member (UnixMilli clock) rnd)
      (v_zset (V r) (limiter_key ch)) = (True, [(limiter_member (UnixMilli clock) rnd, UnixMilli clock)])"
    using assms(3) by (simp add: win_step_def zset_add_def)
  then show ?thesis
    using a redis_service.Allow_refines [OF assms(1) a] by (simp add: NewLimiter_def)
qed

theorem limiter_reopens_witness:
  "\<exists>r'. Allow redis_ref (NewLimiter 1) ''sms'' 5000000000 3 (ref_zadd (limiter_key ''sms'') ''4000-3'' 4000 ref_empty) =
     (Inr True, r')"
  using limiter_reopens [OF ref.redis_service_axioms redis_ref_up, of 1
      "ref_zadd (limiter_key ''sms'') ''4000-3'' 4000 ref_empty" "''sms''" 5000000000 3]
  by (auto simp: view_empty_def view_defs zset_add_def UnixMilli_def)

end
