(* ===== verification/Liveness.thy ===== *)
theory Liveness
  imports Consumption Throttling
begin

text \<open>
  What the program does in the end, whatever the order of its goroutines: under fair scheduling every
  queued message is handled and acknowledged, and after a shutdown signal every worker returns.
\<close>

section \<open>Workers in order\<close>

text \<open>
  Beyond \<open>consumption_ok\<close>: a worker holds at most three messages, and until the context is done no
  worker returns and no pending message is without a holder.
\<close>

definition orderly :: "('r \<Rightarrow> view) \<Rightarrow> 'r program \<Rightarrow> bool" where
  "orderly V p \<longleftrightarrow> consumption_ok V p \<and> (\<forall>s \<in> set (pg_pool p). length (held s) \<le> 3) \<and>
     (\<not> pg_done p \<longrightarrow> WorkReturned \<notin> set (pg_pool p) \<and> stranded (pg_view V p) (pg_pool p) = {})"

lemma length_head_keys: "length (head_keys v ks) \<le> length ks"
proof (induction ks)
  case (Cons k ks)
  have "length (take 1 (v_unread v k)) \<le> 1" by simp
  then show ?case using Cons by (simp add: head_keys_def)
qed (simp add: head_keys_def)

lemma length_read: "map msg_key ms = head_keys v priority_streams \<Longrightarrow> length ms \<le> 3"
  using length_head_keys [of v priority_streams] by (metis length_map priority_streams_def
      One_nat_def Suc_1 eval_nat_numeral(3) list.size(3,4) add_0 plus_1_eq_Suc add.commute)

lemma pending_shrinks: "view_steps acks v w \<Longrightarrow> pending_keys w \<subseteq> pending_keys v"
  using view_steps_later [of acks v w] unfolding view_later_def pending_keys_def by blast

lemma done_event: "pg_done (apply_event S e p) \<longleftrightarrow> pg_done p \<or> e = Signal"
  by (cases e) (auto split: prod.splits)

lemma length_pool [simp]: "length (pg_pool (apply_event S e p)) = length (pg_pool p)"
  by (cases e) (auto split: prod.splits)

lemma length_pool_run [simp]: "length (pg_pool (run_events S es p)) = length (pg_pool p)"
  by (induction es arbitrary: p) auto

lemma other_worker:
  "(\<And>x. e \<noteq> Worker j x) \<Longrightarrow> pg_pool (apply_event S e p) ! j = pg_pool p ! j"
proof (cases e)
  case (Worker i x)
  moreover assume "\<And>x. e \<noteq> Worker j x"
  ultimately have "i \<noteq> j" by auto
  then show ?thesis by (simp add: Worker split: prod.splits)
qed (auto split: prod.splits)

lemma in_head_keys:
  "key \<in> set (head_keys v ks) \<longleftrightarrow> fst key \<in> set ks \<and> snd key \<in> ids (take 1 (v_unread v (fst key)))"
proof -
  have entry: "key \<in> set (map (\<lambda>e. (k, fst e)) es) \<longleftrightarrow> fst key = k \<and> snd key \<in> ids es" for k es
    by (cases key) auto
  have "key \<in> set (head_keys v ks) \<longleftrightarrow>
      (\<exists>k \<in> set ks. key \<in> set (map (\<lambda>e. (k, fst e)) (take 1 (v_unread v k))))"
    by (simp add: head_keys_def)
  then show ?thesis unfolding entry by blast
qed

lemma pending_xread_eq:
  "pending_keys (view_xread ks 1 v) = pending_keys v \<union> set (head_keys v ks)"
proof (rule set_eqI)
  fix key :: "string \<times> string"
  show "key \<in> pending_keys (view_xread ks 1 v) \<longleftrightarrow> key \<in> pending_keys v \<union> set (head_keys v ks)"
    unfolding Un_iff in_head_keys by (simp add: pending_keys_def view_xread_def image_Un)
qed

text \<open>The pool around the worker that takes a step.\<close>

lemma worker_split:
  assumes "j < length (pg_pool p)"
    and "work_step (wi_dispatcher S) (wi_consumer S) x (pg_done p) (pg_pool p ! j) (pg_world p) = (s', w')"
  obtains xs ys where "pg_pool p = xs @ pg_pool p ! j # ys" "length xs = j"
    "apply_event S (Worker j x) p = p\<lparr>pg_pool := xs @ s' # ys, pg_world := w'\<rparr>"
  using assms that [of "take j (pg_pool p)" "drop (Suc j) (pg_pool p)"]
  by (simp add: id_take_nth_drop upd_conv_take_nth_drop)

context redis_service
begin

text \<open>Every step of a worker, with its effect on the state of the worker and on Redis.\<close>

lemma worker_cases:
  assumes "serves S" "consumption_ok view_of p" "j < length (pg_pool p)"
    and "work_step (wi_dispatcher S) (wi_consumer S) x (pg_done p) (pg_pool p ! j) (pg_world p) = (s', w')"
  obtains
      (select) "pg_pool p ! j = AtSelect" "s' = (if pg_done p then WorkReturned else AtRead)" "w' = pg_world p"
    | (read) ms where "pg_pool p ! j = AtRead" "s' = Handling ms" "length ms \<le> 3"
        "map msg_key ms = head_keys (pg_view view_of p) priority_streams"
        "view_of (w_redis w') = view_xread priority_streams 1 (pg_view view_of p)"
    | (none) "pg_pool p ! j = Handling []" "s' = AtSelect" "w' = pg_world p"
    | (handled) m ms where "pg_pool p ! j = Handling (m # ms)" "s' = Handling ms"
        "view_steps {msg_key m} (pg_view view_of p) (view_of (w_redis w'))"
        "pg_done p \<or> msg_key m \<notin> pending_keys (view_of (w_redis w'))"
        "handler_returns (wi_dispatcher S) (cut_short (pg_done p) (dr_turns x)) m (w_redis (pg_world p))"
    | (waits) m ms where "pg_pool p ! j = Handling (m # ms)" "s' = Handling (m # ms)"
        "view_steps {} (pg_view view_of p) (view_of (w_redis w'))"
        "\<not> handler_returns (wi_dispatcher S) (cut_short (pg_done p) (dr_turns x)) m (w_redis (pg_world p))"
    | (returned) "pg_pool p ! j = WorkReturned" "s' = WorkReturned" "w' = pg_world p"
proof (cases "pg_pool p ! j")
  case AtSelect
  then show ?thesis using assms(4) select by auto
next
  case AtRead
  have "streams_ok (view_of (w_redis (pg_world p)))"
    using assms(2) by (simp add: consumption_ok_def pg_view_def)
  from read_effect [OF _ _ this assms(4) [unfolded AtRead]] assms(1) AtRead length_read read
  show ?thesis unfolding pg_view_def by blast
next
  case (Handling ms)
  show ?thesis
  proof (cases ms)
    case Nil
    then show ?thesis using assms(4) Handling none by simp
  next
    case (Cons m ms')
    note eff = handling_effect [OF _ _ assms(4) [unfolded Handling Cons]]
    show ?thesis
    proof (cases "handler_returns (wi_dispatcher S) (cut_short (pg_done p) (dr_turns x)) m (w_redis (pg_world p))")
      case True
      then show ?thesis
        using eff assms(1) handled [of m ms'] Handling Cons
        unfolding pg_view_def pending_keys_def msg_key_def by simp
    next
      case False
      then show ?thesis
        using eff assms(1) waits [of m ms'] Handling Cons unfolding pg_view_def by simp
    qed
  qed
next
  case WorkReturned
  then show ?thesis using assms(4) returned by simp
next
  case WorkPanicked
  then have "WorkPanicked \<in> set (pg_pool p)" using assms(3) nth_mem by metis
  then show ?thesis using assms(2) by (simp add: consumption_ok_def)
qed

end

context redis_service
begin

lemma orderly_worker:
  assumes "serves S" "orderly view_of p" "j < length (pg_pool p)"
  shows "orderly view_of (apply_event S (Worker j x) p)"
proof -
  let ?v = "pg_view view_of p"
  have con: "consumption_ok view_of p" using assms(2) by (simp add: orderly_def)
  obtain s' w' where st: "work_step (wi_dispatcher S) (wi_consumer S) x (pg_done p) (pg_pool p ! j) (pg_world p) = (s', w')"
    by (metis surj_pair)
  obtain xs ys where pool: "pg_pool p = xs @ pg_pool p ! j # ys"
    and p': "apply_event S (Worker j x) p = p\<lparr>pg_pool := xs @ s' # ys, pg_world := w'\<rparr>"
    using worker_split [OF assms(3) st] by metis
  have set_pool: "set (pg_pool p) = set xs \<union> {pg_pool p ! j} \<union> set ys"
    using arg_cong [OF pool, of set] by auto
  have small: "\<forall>s \<in> set xs \<union> {pg_pool p ! j} \<union> set ys. length (held s) \<le> 3"
    and open': "\<not> pg_done p \<Longrightarrow> WorkReturned \<notin> set xs \<union> {pg_pool p ! j} \<union> set ys \<and>
      stranded ?v (xs @ pg_pool p ! j # ys) = {}"
    using assms(2) pool unfolding orderly_def set_pool by auto
  have goal: ?thesis if "length (held s') \<le> 3" "\<not> pg_done p \<Longrightarrow> s' \<noteq> WorkReturned"
    "\<not> pg_done p \<Longrightarrow> stranded (view_of (w_redis w')) (xs @ s' # ys) = {}"
    using consumption_event [OF assms(1) con, of "Worker j x"] that small open'
    unfolding orderly_def p' by (auto simp: pg_view_def)
  from assms(1) con assms(3) st show ?thesis
  proof (cases rule: worker_cases)
    case select
    then show ?thesis using open' by (intro goal) (auto simp: pg_view_def stranded_def)
  next
    case (read ms)
    have "pending_keys (view_of (w_redis w')) = pending_keys ?v \<union> set (map msg_key ms)"
      unfolding read(4,5) by (rule pending_xread_eq)
    then show ?thesis
      using read(1-3) open' by (intro goal) (auto simp: stranded_def)
  next
    case none
    then show ?thesis using open' by (intro goal) (auto simp: pg_view_def stranded_def)
  next
    case (handled m ms)
    then show ?thesis
      using open' pending_shrinks [OF handled(3)] small by (intro goal) (auto simp: stranded_def)
  next
    case (waits m ms)
    then show ?thesis
      using open' pending_shrinks [OF waits(3)] small by (intro goal) (auto simp: stranded_def)
  next
    case returned
    then show ?thesis using open' by (intro goal) (auto simp: pg_view_def stranded_def)
  qed
qed

lemma orderly_event:
  assumes "serves S" "orderly view_of p"
  shows "orderly view_of (apply_event S e p)"
proof (cases "\<exists>j x. e = Worker j x")
  case True
  then obtain j x where e: "e = Worker j x" by blast
  show ?thesis
    using orderly_worker [OF assms] assms(2) by (cases "j < length (pg_pool p)") (simp_all add: e)
next
  case False
  then have same: "pg_pool (apply_event S e p) = pg_pool p"
    "view_steps {} (pg_view view_of p) (pg_view view_of (apply_event S e p))"
    using other_event [of S e p "{}"] assms(1) unfolding pg_view_def by blast+
  have "consumption_ok view_of (apply_event S e p)"
    using consumption_event assms unfolding orderly_def by blast
  then show ?thesis
    using assms(2) pending_shrinks [OF same(2)] unfolding orderly_def same(1) stranded_def done_event by blast
qed

lemma orderly_run: "serves S \<Longrightarrow> orderly view_of p \<Longrightarrow> orderly view_of (run_events S es p)"
  by (induction es arbitrary: p) (simp_all add: orderly_event)

end

lemma fresh_orderly:
  assumes "pg_view V p = view_empty" "pg_pool p = Pool_Start n"
  shows "orderly V p"
proof -
  have "pending_keys view_empty = {}" by (simp add: pending_keys_def view_empty_def)
  then show ?thesis
    using fresh_consumption [of V p n] view_empty_ok assms
    by (simp add: orderly_def stranded_def) (simp add: Pool_Start_def)
qed

section \<open>Shutdown\<close>

text \<open>A turn of worker \<open>j\<close> in which a rate limit wait, if there is one, is ended by the context.\<close>

fun interrupting :: "nat \<Rightarrow> event \<Rightarrow> bool" where
  "interrupting j (Worker i x) \<longleftrightarrow> i = j \<and> dr_turns x \<noteq> [] \<and> snd (snd (last (dr_turns x)))"
| "interrupting j _ \<longleftrightarrow> False"

lemma cut_short_True [simp]: "cut_short True turns = turns"
  by (simp add: cut_short_def)

lemma wait_cut:
  "fst (rate_wait R l ch turns r) = Waiting \<Longrightarrow> turns \<noteq> [] \<Longrightarrow> \<not> snd (snd (last turns))"
  by (induction turns arbitrary: r) (auto split: prod.splits sum.splits bool.splits if_splits)

context redis_service
begin

lemma work_left_event:
  assumes "serves S" "orderly view_of p" "pg_done p" "j < length (pg_pool p)"
  shows "work_left (pg_pool (apply_event S e p) ! j) \<le>
    work_left (pg_pool p ! j) - (if interrupting j e then 1 else 0)"
proof (cases "\<exists>x. e = Worker j x")
  case False
  then have "\<not> interrupting j e" by (cases e) auto
  then show ?thesis using other_worker [of e j S p] False by auto
next
  case True
  then obtain x where e: "e = Worker j x" by blast
  obtain s' w' where st: "work_step (wi_dispatcher S) (wi_consumer S) x (pg_done p) (pg_pool p ! j) (pg_world p) = (s', w')"
    by (metis surj_pair)
  have s': "pg_pool (apply_event S e p) ! j = s'" using assms(4) st by (simp add: e)
  have con: "consumption_ok view_of p" using assms(2) by (simp add: orderly_def)
  from assms(1) con assms(4) st show ?thesis
  proof (cases rule: worker_cases)
    case (waits m ms)
    then have "\<not> interrupting j e"
      using wait_cut [of _ _ _ "dr_turns x"] assms(3) by (auto simp: e handler_returns_def)
    then show ?thesis using waits unfolding s' by simp
  qed (simp_all add: s' assms(3))
qed

lemma work_left_run:
  assumes "serves S" "orderly view_of p" "pg_done p" "j < length (pg_pool p)"
  shows "work_left (pg_pool (run_events S es p) ! j) \<le>
    work_left (pg_pool p ! j) - length (filter (interrupting j) es)"
  using assms(2-4)
proof (induction es arbitrary: p)
  case (Cons e es)
  have "work_left (pg_pool (run_events S es (apply_event S e p)) ! j) \<le>
      work_left (pg_pool (apply_event S e p) ! j) - length (filter (interrupting j) es)"
    using Cons.IH [OF orderly_event [OF assms(1) Cons.prems(1)]] Cons.prems(2,3) by (simp add: done_event)
  then show ?case
    using work_left_event [OF assms(1) Cons.prems, of e] by (auto split: if_splits)
qed simp

lemma workers_return:
  assumes "serves S" "orderly view_of p" "pg_done p"
    and "\<forall>j < length (pg_pool p). 6 \<le> length (filter (interrupting j) es)"
  shows "Pool_Wait (pg_pool (run_events S es p))"
  unfolding Pool_Wait_def
proof
  fix s
  assume s: "s \<in> set (pg_pool (run_events S es p))"
  then obtain j where j: "j < length (pg_pool p)" "s = pg_pool (run_events S es p) ! j"
    by (metis in_set_conv_nth length_pool_run)
  have "length (held (pg_pool p ! j)) \<le> 3" using assms(2) j(1) by (simp add: orderly_def)
  then have "work_left (pg_pool p ! j) \<le> 6" by (cases "pg_pool p ! j") auto
  then have "work_left s = 0"
    using work_left_run [OF assms(1-3) j(1), of es] assms(4) j by fastforce
  moreover have "s \<noteq> WorkPanicked"
    using orderly_run [OF assms(1,2), of es] s by (auto simp: orderly_def consumption_ok_def)
  ultimately show "s = WorkReturned" by (cases s) auto
qed

end

text \<open>
  Shutdown ends: whatever happened before the signal and whatever else happens after it, once
  every worker has had six turns in which the done context is seen, all workers have returned and
  \<open>Wait\<close> returns. Each finishes the messages it has read; none panics.
\<close>

theorem shutdown_completes:
  assumes "redis_service (d_redis (wi_dispatcher S)) V" "redis_up (d_redis (wi_dispatcher S))"
    and "pg_view V p = view_empty" "pg_pool p = Pool_Start n"
    and "\<forall>j < nat n. 6 \<le> length (filter (interrupting j) es)"
  shows "Pool_Wait (pg_pool (run_events S (before @ Signal # es) p))"
proof -
  let ?q = "apply_event S Signal (run_events S before p)"
  note run = redis_service.orderly_run [OF assms(1)] and up = assms(2)
  have "orderly V (run_events S before p)" using run up fresh_orderly [OF assms(3,4)] by blast
  then have "orderly V ?q" using redis_service.orderly_event [OF assms(1)] up by blast
  moreover have "length (pg_pool ?q) = nat n" by (simp add: assms(4) Pool_Start_def)
  moreover have "pg_done ?q" by simp
  ultimately have "Pool_Wait (pg_pool (run_events S es ?q))"
    using redis_service.workers_return [OF assms(1)] up assms(5) by metis
  then show ?thesis by simp
qed

definition stop_draws :: draws where
  "stop_draws = \<lparr>dr_turns = [(0, 7, True)], dr_clock = int, dr_attempt = 9\<rparr>"

theorem shutdown_completes_witness:
  "Pool_Wait (pg_pool (run_events demo_wiring ([Worker 0 demo_draws, Worker 1 demo_draws] @ Signal #
     replicate 6 (Worker 0 stop_draws) @ replicate 6 (Worker 1 stop_draws)) (demo_program [] ref_empty 2)))"
proof -
  let ?es = "replicate 6 (Worker 0 stop_draws) @ replicate 6 (Worker 1 stop_draws)"
  have "\<forall>j < nat 2. 6 \<le> length (filter (interrupting j) ?es)"
  proof (intro allI impI)
    fix j :: nat
    assume "j < nat 2"
    then have "j = 0 \<or> j = 1" by auto
    then show "6 \<le> length (filter (interrupting j) ?es)"
      by (auto simp: filter_replicate stop_draws_def)
  qed
  then show ?thesis
    by (intro shutdown_completes [of demo_wiring state_view _ 2]) (simp_all add: ref.redis_service_axioms)
qed

section \<open>Every message is handled\<close>

text \<open>
  \<open>waits_end\<close>: in every turn of a run that handles a message, the rate limit wait ends within the turn.
\<close>

definition wait_over :: "'r wiring \<Rightarrow> event \<Rightarrow> 'r program \<Rightarrow> bool" where
  "wait_over S e p \<longleftrightarrow>
     (case e of
        Worker j x \<Rightarrow>
          j < length (pg_pool p) \<longrightarrow>
          (case pg_pool p ! j of
             Handling (m # ms) \<Rightarrow> handler_returns (wi_dispatcher S) (cut_short (pg_done p) (dr_turns x)) m
               (w_redis (pg_world p))
           | _ \<Rightarrow> True)
      | _ \<Rightarrow> True)"

fun waits_end :: "'r wiring \<Rightarrow> event list \<Rightarrow> 'r program \<Rightarrow> bool" where
  "waits_end S [] p \<longleftrightarrow> True"
| "waits_end S (e # es) p \<longleftrightarrow> wait_over S e p \<and> waits_end S es (apply_event S e p)"

lemma waits_end_append [simp]:
  "waits_end S (es @ es') p \<longleftrightarrow> waits_end S es p \<and> waits_end S es' (run_events S es p)"
  by (induction es arbitrary: p) auto

fun is_turn :: "nat \<Rightarrow> event \<Rightarrow> bool" where
  "is_turn j (Worker i x) \<longleftrightarrow> i = j"
| "is_turn j _ \<longleftrightarrow> False"

definition turns_of :: "nat \<Rightarrow> event list \<Rightarrow> nat" where
  "turns_of j es = length (filter (is_turn j) es)"

lemma turns_of_simps [simp]:
  "turns_of j [] = 0" "turns_of j (e # es) = (if is_turn j e then 1 else 0) + turns_of j es"
  "turns_of j (es @ es') = turns_of j es + turns_of j es'"
  by (simp_all add: turns_of_def)

lemma is_turnE: "is_turn j e \<Longrightarrow> (\<And>x. e = Worker j x \<Longrightarrow> P) \<Longrightarrow> P"
  by (cases e) auto

text \<open>Steps of a worker up to and including its next read.\<close>

fun to_read :: "work_state \<Rightarrow> nat" where
  "to_read AtSelect = 2"
| "to_read AtRead = 1"
| "to_read (Handling ms) = length ms + 3"
| "to_read _ = 0"

definition taken :: "view \<Rightarrow> string \<times> string \<Rightarrow> bool" where
  "taken v key \<longleftrightarrow> snd key \<in> ids (v_log v (fst key)) \<and> snd key \<notin> ids (v_unread v (fst key))"

lemma taken_steps: "view_steps acks v w \<Longrightarrow> taken v key \<Longrightarrow> taken w key"
proof -
  assume s: "view_steps acks v w" and t: "taken v key"
  have later: "ids (v_log v (fst key)) \<subseteq> ids (v_log w (fst key)) \<and>
      (\<exists>es. v_unread w (fst key) = v_unread v (fst key) @ es \<and> ids es \<inter> ids (v_log v (fst key)) = {})"
    using view_steps_later [OF s] unfolding view_later_def by (elim allE conjE) (intro conjI)
  then obtain es where es: "v_unread w (fst key) = v_unread v (fst key) @ es" "ids es \<inter> ids (v_log v (fst key)) = {}"
    by (elim conjE exE)
  have grow: "ids (v_log v (fst key)) \<subseteq> ids (v_log w (fst key))" using later by (rule conjunct1)
  have new: "snd key \<notin> ids es" using t es(2) unfolding taken_def by (metis disjoint_iff)
  show ?thesis
    using t subsetD [OF grow] new unfolding taken_def es(1) ids_append by simp
qed

lemma taken_xread: "taken v key \<Longrightarrow> taken (view_xread ks c v) key"
  unfolding taken_def view_xread_def by (auto dest: in_set_dropD)

lemma taken_not_head: "taken v key \<Longrightarrow> key \<notin> set (head_keys v ks)"
  using set_take_subset [of 1 "v_unread v (fst key)"] unfolding in_head_keys taken_def by blast

context redis_service
begin

lemma event_view:
  assumes "serves S" "orderly view_of p"
  shows "(\<exists>acks. view_steps acks (pg_view view_of p) (pg_view view_of (apply_event S e p))) \<or>
    (\<exists>j x. e = Worker j x \<and> j < length (pg_pool p) \<and> pg_pool p ! j = AtRead \<and>
       pg_view view_of (apply_event S e p) = view_xread priority_streams 1 (pg_view view_of p))"
proof (cases "\<exists>j x. e = Worker j x \<and> j < length (pg_pool p)")
  case True
  then obtain j x where e: "e = Worker j x" "j < length (pg_pool p)" by blast
  obtain s' w' where st: "work_step (wi_dispatcher S) (wi_consumer S) x (pg_done p) (pg_pool p ! j) (pg_world p) = (s', w')"
    by (metis surj_pair)
  have v': "pg_view view_of (apply_event S e p) = view_of (w_redis w')"
    using e st by (simp add: pg_view_def)
  have con: "consumption_ok view_of p" using assms(2) by (simp add: orderly_def)
  from assms(1) con e(2) st show ?thesis
  proof (cases rule: worker_cases)
    case (read ms)
    then show ?thesis using e v' by auto
  next
    case (handled m ms)
    then show ?thesis using v' by auto
  next
    case (waits m ms)
    then show ?thesis using v' by auto
  qed (use v' in \<open>auto simp: pg_view_def\<close>)
next
  case False
  show ?thesis
  proof (cases "\<exists>j x. e = Worker j x")
    case True
    then have "apply_event S e p = p" using False by auto
    then show ?thesis by auto
  next
    case False
    then show ?thesis using other_event [of S e p "{}"] assms(1) unfolding pg_view_def by blast
  qed
qed

lemma taken_event:
  assumes "serves S" "orderly view_of p" "taken (pg_view view_of p) key"
  shows "taken (pg_view view_of (apply_event S e p)) key"
    and "key \<notin> pending_keys (pg_view view_of p) \<Longrightarrow> key \<notin> pending_keys (pg_view view_of (apply_event S e p))"
  using event_view [OF assms(1,2), of e] taken_steps taken_xread assms(3) taken_not_head [OF assms(3)]
    pending_shrinks pending_xread_eq by (metis, metis UnE subsetD)

lemma taken_run:
  assumes "serves S" "orderly view_of p" "taken (pg_view view_of p) key"
  shows "taken (pg_view view_of (run_events S es p)) key \<and>
    (key \<notin> pending_keys (pg_view view_of p) \<longrightarrow> key \<notin> pending_keys (pg_view view_of (run_events S es p)))"
  using assms(2,3)
proof (induction es arbitrary: p)
  case (Cons e es)
  from Cons.IH [OF orderly_event [OF assms(1) Cons.prems(1)] taken_event(1) [OF assms(1) Cons.prems], of e]
  show ?case using taken_event(2) [OF assms(1) Cons.prems] by auto
qed simp

end

lemma unread_steps:
  assumes "view_steps acks v w"
  shows "\<exists>new. v_unread w k = v_unread v k @ new"
  using view_steps_later [OF assms] unfolding view_later_def by (elim allE [of _ k] conjE exE) (rule exI)

lemma taken_head:
  assumes "ids_ok v" "v_unread v k = e # post" "k \<in> set ks"
  shows "taken (view_xread ks 1 v) (k, fst e)"
  using assms(1) [unfolded ids_ok_def, THEN spec, of k] assms(2,3)
  by (simp add: entries_ok_def taken_def view_xread_def)

context redis_service
begin

lemma turn_progress:
  assumes "serves S" "orderly view_of p" "\<not> pg_done p" "j < length (pg_pool p)"
    and "wait_over S (Worker j x) p" "pg_pool p ! j \<noteq> AtRead"
  shows "to_read (pg_pool (apply_event S (Worker j x) p) ! j) + 1 \<le> to_read (pg_pool p ! j)"
proof -
  obtain s' w' where st: "work_step (wi_dispatcher S) (wi_consumer S) x (pg_done p) (pg_pool p ! j) (pg_world p) = (s', w')"
    by (metis surj_pair)
  have s': "pg_pool (apply_event S (Worker j x) p) ! j = s'" using assms(4) st by simp
  have con: "consumption_ok view_of p" using assms(2) by (simp add: orderly_def)
  have running: "pg_pool p ! j \<noteq> WorkReturned"
    using assms(2,3) nth_mem [OF assms(4)] unfolding orderly_def by metis
  from assms(1) con assms(4) st show ?thesis
    by (cases rule: worker_cases) (use assms(3-6) running in \<open>auto simp: s' wait_over_def simp del: apply_event.simps\<close>)
qed

lemma read_progress:
  assumes "serves S" "orderly view_of p" "j < length (pg_pool p)" "pg_pool p ! j = AtRead"
  shows "pg_view view_of (apply_event S (Worker j x) p) = view_xread priority_streams 1 (pg_view view_of p)"
    and "to_read (pg_pool (apply_event S (Worker j x) p) ! j) \<le> 6"
proof -
  obtain s' w' where st: "work_step (wi_dispatcher S) (wi_consumer S) x (pg_done p) (pg_pool p ! j) (pg_world p) = (s', w')"
    by (metis surj_pair)
  have s': "pg_pool (apply_event S (Worker j x) p) ! j = s'"
    "pg_view view_of (apply_event S (Worker j x) p) = view_of (w_redis w')"
    using assms(3) st by (simp_all add: pg_view_def)
  have con: "consumption_ok view_of p" using assms(2) by (simp add: orderly_def)
  from assms(1) con assms(3) st
  have "view_of (w_redis w') = view_xread priority_streams 1 (pg_view view_of p) \<and> to_read s' \<le> 6"
    by (cases rule: worker_cases) (use assms(4) in auto)
  then show "pg_view view_of (apply_event S (Worker j x) p) = view_xread priority_streams 1 (pg_view view_of p)"
    "to_read (pg_pool (apply_event S (Worker j x) p) ! j) \<le> 6" unfolding s' by blast+
qed

lemma budget_event:
  assumes "serves S" "orderly view_of p" "\<not> pg_done p" "wait_over S a p" "i < length (pg_pool p)"
    and "k \<in> set priority_streams" "v_unread (pg_view view_of p) k = pre @ e # post"
  shows "taken (pg_view view_of (apply_event S a p)) (k, fst e) \<or>
    (\<exists>pre' post'. v_unread (pg_view view_of (apply_event S a p)) k = pre' @ e # post' \<and>
       to_read (pg_pool (apply_event S a p) ! i) + 6 * length pre' + (if is_turn i a then 1 else 0) \<le>
       to_read (pg_pool p ! i) + 6 * length pre)"
proof (cases "\<exists>j x. a = Worker j x \<and> j < length (pg_pool p) \<and> pg_pool p ! j = AtRead")
  case True
  then obtain j x where j: "a = Worker j x" "j < length (pg_pool p)" "pg_pool p ! j = AtRead" by blast
  note read = read_progress [OF assms(1,2) j(2,3), of x, folded j(1)]
  have ids: "ids_ok (pg_view view_of p)" using assms(2) by (simp add: orderly_def consumption_ok_def)
  show ?thesis
  proof (cases pre)
    case Nil
    then show ?thesis using taken_head [OF ids _ assms(6)] assms(7) read(1) by simp
  next
    case (Cons b pre')
    have "v_unread (pg_view view_of (apply_event S a p)) k = pre' @ e # post"
      unfolding read(1) using assms(6,7) Cons by (simp add: view_xread_def)
    moreover have "to_read (pg_pool (apply_event S a p) ! i) + 6 * length pre' + (if is_turn i a then 1 else 0) \<le>
        to_read (pg_pool p ! i) + 6 * length pre"
    proof (cases "i = j")
      case True
      then show ?thesis using read(2) j Cons by simp
    next
      case False
      then show ?thesis using other_worker [of a i S p] j(1) Cons by simp
    qed
    ultimately show ?thesis by blast
  qed
next
  case False
  then obtain acks where "view_steps acks (pg_view view_of p) (pg_view view_of (apply_event S a p))"
    using event_view [OF assms(1,2), of a] by blast
  from unread_steps [OF this, of k] obtain new where
    new: "v_unread (pg_view view_of (apply_event S a p)) k = pre @ e # post @ new"
    using assms(7) by auto
  have "to_read (pg_pool (apply_event S a p) ! i) + (if is_turn i a then 1 else 0) \<le> to_read (pg_pool p ! i)"
  proof (cases "is_turn i a")
    case True
    then obtain x where a: "a = Worker i x" by (rule is_turnE)
    then show ?thesis
      using turn_progress [OF assms(1-3,5), of x] assms(4,5) False by simp
  next
    case not_turn: False
    then have "a \<noteq> Worker i x" for x by auto
    then show ?thesis using other_worker [of a i S p] not_turn by simp
  qed
  then show ?thesis using new by auto
qed

lemma taken_in_time:
  assumes "serves S" "orderly view_of p" "\<not> pg_done p" "Signal \<notin> set es" "waits_end S es p"
    and "i < length (pg_pool p)" "k \<in> set priority_streams" "v_unread (pg_view view_of p) k = pre @ e # post"
    and "to_read (pg_pool p ! i) + 6 * length pre \<le> turns_of i es"
  shows "taken (pg_view view_of (run_events S es p)) (k, fst e)"
  using assms(2-6,8,9)
proof (induction es arbitrary: p pre post)
  case Nil
  have "pg_pool p ! i \<in> set (pg_pool p)" using Nil.prems(5) by simp
  then have "pg_pool p ! i \<noteq> WorkReturned \<and> pg_pool p ! i \<noteq> WorkPanicked"
    using Nil.prems(1,2) unfolding orderly_def consumption_ok_def by metis
  then have "0 < to_read (pg_pool p ! i)" by (cases "pg_pool p ! i") auto
  then show ?case using Nil.prems(7) by simp
next
  case (Cons a es)
  let ?p = "apply_event S a p"
  have next': "orderly view_of ?p" "\<not> pg_done ?p" "wait_over S a p" "waits_end S es ?p"
    using orderly_event [OF assms(1) Cons.prems(1)] Cons.prems(2-4) by (auto simp: done_event)
  from budget_event [OF assms(1) Cons.prems(1,2) next'(3) Cons.prems(5) assms(7) Cons.prems(6)]
  show ?case
  proof (elim disjE exE conjE, goal_cases)
    case 1
    then show ?case using taken_run [OF assms(1) next'(1)] by simp
  next
    case (2 pre' post')
    have "to_read (pg_pool ?p ! i) + 6 * length pre' \<le> turns_of i es"
      using 2(2) Cons.prems(7) by (auto split: if_splits)
    from Cons.IH [OF next'(1,2) _ next'(4) _ 2(1) this] Cons.prems(3,5) show ?case by simp
  qed
qed

end

lemma done_run: "pg_done (run_events S es p) \<longleftrightarrow> pg_done p \<or> Signal \<in> set es"
  by (induction es arbitrary: p) (auto simp: done_event)

context redis_service
begin

lemma holder_progress:
  assumes "serves S" "orderly view_of p" "\<not> pg_done p" "wait_over S a p" "j < length (pg_pool p)"
    and "key \<in> set (held (pg_pool p ! j))"
  shows "key \<notin> pending_keys (pg_view view_of (apply_event S a p)) \<or>
    key \<in> set (held (pg_pool (apply_event S a p) ! j)) \<and>
    length (held (pg_pool (apply_event S a p) ! j)) + (if is_turn j a then 1 else 0) \<le> length (held (pg_pool p ! j))"
proof (cases "is_turn j a")
  case True
  then obtain x where a: "a = Worker j x" by (rule is_turnE)
  obtain s' w' where st: "work_step (wi_dispatcher S) (wi_consumer S) x (pg_done p) (pg_pool p ! j) (pg_world p) = (s', w')"
    by (metis surj_pair)
  have s': "pg_pool (apply_event S a p) ! j = s'" "pg_view view_of (apply_event S a p) = view_of (w_redis w')"
    using assms(5) st by (simp_all add: a pg_view_def)
  have con: "consumption_ok view_of p" using assms(2) by (simp add: orderly_def)
  from assms(1) con assms(5) st show ?thesis
    by (cases rule: worker_cases)
      (use assms(3-6) in \<open>auto simp: a s' [unfolded a] wait_over_def simp del: apply_event.simps\<close>)
next
  case False
  then have "a \<noteq> Worker j x" for x by auto
  then show ?thesis using other_worker [of a j S p] assms(6) False by simp
qed

lemma held_in_time:
  assumes "serves S" "orderly view_of p" "\<not> pg_done p" "Signal \<notin> set es" "waits_end S es p"
    and "j < length (pg_pool p)" "key \<in> set (held (pg_pool p ! j))"
    and "taken (pg_view view_of p) key" "length (held (pg_pool p ! j)) \<le> turns_of j es"
  shows "key \<notin> pending_keys (pg_view view_of (run_events S es p))"
  using assms(2-9)
proof (induction es arbitrary: p)
  case Nil
  then show ?case by simp
next
  case (Cons a es)
  let ?p = "apply_event S a p"
  have next': "orderly view_of ?p" "\<not> pg_done ?p" "wait_over S a p" "waits_end S es ?p"
    using orderly_event [OF assms(1) Cons.prems(1)] Cons.prems(2-4) by (auto simp: done_event)
  have taken: "taken (pg_view view_of ?p) key" using taken_event(1) [OF assms(1) Cons.prems(1,7)] .
  from holder_progress [OF assms(1) Cons.prems(1,2) next'(3) Cons.prems(5,6)]
  show ?case
  proof (elim disjE conjE, goal_cases)
    case 1
    then show ?case using taken_run [OF assms(1) next'(1) taken] by simp
  next
    case 2
    then have "length (held (pg_pool ?p ! j)) \<le> turns_of j es"
      using Cons.prems(8) by (auto split: if_splits)
    from Cons.IH [OF next'(1,2) _ next'(4) _ 2(1) taken this] Cons.prems(3,5) show ?case by simp
  qed
qed

lemma handled_in_time:
  assumes "serves S" "orderly view_of p" "\<not> pg_done p" "Signal \<notin> set es" "waits_end S es p"
    and "taken (pg_view view_of p) key" "\<forall>j < length (pg_pool p). 3 \<le> turns_of j es"
  shows "key \<notin> pending_keys (pg_view view_of (run_events S es p))"
proof (cases "key \<in> pending_keys (pg_view view_of p)")
  case True
  then have "key \<in> set (all_held (pg_pool p))"
    using assms(2,3) unfolding orderly_def stranded_def by blast
  then obtain s where "s \<in> set (pg_pool p)" "key \<in> set (held s)" by (auto simp: all_held_def)
  then obtain j where j: "j < length (pg_pool p)" "key \<in> set (held (pg_pool p ! j))"
    by (metis in_set_conv_nth)
  then have "length (held (pg_pool p ! j)) \<le> 3" using assms(2) by (simp add: orderly_def)
  then have "length (held (pg_pool p ! j)) \<le> turns_of j es" using assms(7) j(1) by fastforce
  then show ?thesis using held_in_time [OF assms(1-5) j assms(6)] by simp
next
  case False
  then show ?thesis using taken_run [OF assms(1,2,6)] by blast
qed

lemma message_handled:
  assumes "serves S" "orderly view_of p" "\<not> pg_done p" "Signal \<notin> set (es @ es')" "waits_end S (es @ es') p"
    and "k \<in> set priority_streams" "v_unread (pg_view view_of p) k = older @ e # newer" "pg_pool p \<noteq> []"
    and "6 * length older + 6 \<le> turns_of 0 es" "\<forall>j < length (pg_pool p). 3 \<le> turns_of j es'"
  shows "taken (pg_view view_of (run_events S (es @ es') p)) (k, fst e) \<and>
    (k, fst e) \<notin> pending_keys (pg_view view_of (run_events S (es @ es') p))"
proof -
  have first: "0 < length (pg_pool p)" using assms(8) by simp
  then have "length (held (pg_pool p ! 0)) \<le> 3" using assms(2) by (simp add: orderly_def)
  then have "to_read (pg_pool p ! 0) \<le> 6" by (cases "pg_pool p ! 0") auto
  then have budget: "to_read (pg_pool p ! 0) + 6 * length older \<le> turns_of 0 es" using assms(9) by simp
  have parts: "Signal \<notin> set es" "Signal \<notin> set es'" "waits_end S es p" "waits_end S es' (run_events S es p)"
    using assms(4,5) by auto
  note taken = taken_in_time [OF assms(1-3) parts(1,3) first assms(6,7) budget]
  have later: "orderly view_of (run_events S es p)" "\<not> pg_done (run_events S es p)"
    using orderly_run [OF assms(1,2)] assms(3) parts(1) by (simp_all add: done_run)
  from handled_in_time [OF assms(1) later parts(2,4) taken] taken_run [OF assms(1) later(1) taken, of es'] assms(10)
  show ?thesis by simp
qed

end

text \<open>A round in which every worker takes at least one step, among any other events.\<close>

definition fair_round :: "nat \<Rightarrow> event list \<Rightarrow> bool" where
  "fair_round n es \<longleftrightarrow> (\<forall>j < n. 1 \<le> turns_of j es)"

lemma turns_of_rounds:
  assumes "\<forall>r \<in> set rounds. fair_round n r" "j < n"
  shows "length rounds \<le> turns_of j (concat rounds)"
  using assms
proof (induction rounds)
  case (Cons r rounds)
  then have "1 \<le> turns_of j r" "length rounds \<le> turns_of j (concat rounds)" by (simp_all add: fair_round_def)
  then show ?case by simp
qed simp

text \<open>
  Every queued message is handled: with at least one worker, no shutdown, waits that end and
  rounds in which every worker runs, a message with \<open>m\<close> older unread messages in its stream has been
  read, handled and acknowledged after \<open>6 m + 9\<close> rounds, whatever requests, retries and polls happen in
  between, and whatever was done before.
\<close>

theorem every_message_handled:
  assumes "redis_service (d_redis (wi_dispatcher S)) V" "redis_up (d_redis (wi_dispatcher S))"
    and "pg_view V p = view_empty" "pg_pool p = Pool_Start n" "1 \<le> n"
    and "k \<in> set priority_streams"
    and "v_unread (pg_view V (run_events S before p)) k = older @ e # newer"
    and "\<not> pg_done (run_events S before p)" "Signal \<notin> set (concat rounds)"
    and "waits_end S (concat rounds) (run_events S before p)"
    and "\<forall>r \<in> set rounds. fair_round (nat n) r" "6 * length older + 9 \<le> length rounds"
  shows "fst e \<notin> ids (v_unread (pg_view V (run_events S (before @ concat rounds) p)) k) \<and>
    fst e \<notin> ids (v_pending (pg_view V (run_events S (before @ concat rounds) p)) k)"
proof -
  let ?q = "run_events S before p" and ?m = "6 * length older + 6"
  let ?es = "concat (take ?m rounds)" and ?es' = "concat (drop ?m rounds)"
  note serves = conjI [OF refl assms(2)]
  have rounds: "?es @ ?es' = concat rounds" by (metis append_take_drop_id concat_append)
  have orderly: "orderly V ?q"
    using redis_service.orderly_run [OF assms(1) serves fresh_orderly [OF assms(3,4)]] .
  have pool: "length (pg_pool ?q) = nat n" by (simp add: assms(4) Pool_Start_def)
  then have some: "pg_pool ?q \<noteq> []" using assms(5) by (metis length_0_conv nat_0_iff not_one_le_zero order_trans)
  have fair: "\<forall>r \<in> set (take ?m rounds). fair_round (nat n) r" "\<forall>r \<in> set (drop ?m rounds). fair_round (nat n) r"
    using assms(11) in_set_takeD in_set_dropD by metis+
  have "?m \<le> turns_of 0 ?es" using turns_of_rounds [OF fair(1), of 0] assms(5,12) by simp
  moreover have "\<forall>j < length (pg_pool ?q). 3 \<le> turns_of j ?es'"
    using turns_of_rounds [OF fair(2)] assms(12) unfolding pool by fastforce
  ultimately show ?thesis
    using redis_service.message_handled [OF assms(1) serves orderly assms(8) _ _ assms(6,7) some, of ?es ?es'] assms(9,10)
    unfolding rounds by (simp add: taken_def pending_keys_def)
qed

text \<open>
  A wait can always end: whatever the state of the reference Redis, late enough the limiter admits.
  The witness sends one scheduled notification through poll, read and handling.
\<close>

lemma demo_wiring_dispatcher: "wi_dispatcher demo_wiring = demo_dispatcher True"
  by (simp add: demo_wiring_def)

lemma ref_wait_over:
  assumes "wi_dispatcher S = demo_dispatcher ok" "pg_done p = False"
  shows "\<exists>x. wait_over S (Worker j x) p"
proof (cases "\<exists>m ms. j < length (pg_pool p) \<and> pg_pool p ! j = Handling (m # ms)")
  case True
  then obtain m ms where m: "pg_pool p ! j = Handling (m # ms)" by blast
  let ?r = "w_redis (pg_world p)"
  let ?z = "v_zset (state_view ?r) (limiter_key (m_channel m))"
  define t where "t = 1000000 * (Max (insert 0 (snd ` set ?z)) + 1000)"
  have t: "UnixMilli t - 1000 = Max (insert 0 (snd ` set ?z))" by (simp add: t_def UnixMilli_def)
  have late: "\<forall>e \<in> set ?z. snd e \<le> UnixMilli t - 1000" unfolding t by auto
  obtain r' where a: "Allow redis_ref (NewLimiter 100) (m_channel m) t 7 ?r = (Inr True, r')"
    using limiter_reopens [OF ref.redis_service_axioms redis_ref_up _ late, of 100 7] by auto
  have "wait_over S (Worker j \<lparr>dr_turns = [(t, 7, False)], dr_clock = int, dr_attempt = 9\<rparr>) p"
    using a m assms
    by (auto simp: wait_over_def handler_returns_def cut_short_def demo_dispatcher_def)
  then show ?thesis by blast
next
  case False
  then show ?thesis by (auto simp: wait_over_def split: work_state.splits list.splits)
qed

lemma ref_rounds:
  assumes "wi_dispatcher S = demo_dispatcher ok"
  shows "pg_done p = False \<Longrightarrow> \<exists>rounds. length rounds = m \<and> Signal \<notin> set (concat rounds) \<and>
     waits_end S (concat rounds) p \<and> (\<forall>r \<in> set rounds. fair_round 1 r)"
proof (induction m arbitrary: p)
  case (Suc m)
  obtain x where x: "wait_over S (Worker 0 x) p" using ref_wait_over [OF assms Suc.prems] by blast
  have "pg_done (apply_event S (Worker 0 x) p) = False"
    using Suc.prems by (simp add: done_event del: apply_event.simps)
  from Suc.IH [OF this] obtain rounds where "length rounds = m" "Signal \<notin> set (concat rounds)"
    "waits_end S (concat rounds) (apply_event S (Worker 0 x) p)"
    "\<forall>r \<in> set rounds. fair_round 1 r" by blast
  then show ?case
    using x by (intro exI [of _ "[Worker 0 x] # rounds"]) (auto simp: fair_round_def)
qed (rule exI [of _ "[]"], simp)

definition due_program :: "redis_state program" where
  "due_program = demo_program [demo_row 0 ''scheduled''] ref_empty 1"

lemma due_polled:
  "\<exists>e. v_unread (pg_view state_view (run_events demo_wiring [Scheduler [] 5 False] due_program)) ''notifications:high'' = [e]"
  by (simp add: due_program_def demo_program_def Scheduler_Run_def tick_loop_def Scheduler_start_def NewTicker_def
      NewScheduler_def demo_wiring_def Scheduler_poll_def repo_FetchScheduledDue_def pg_query_faultless rows_seen_def
      sql_fetch_due_def due_selection_def due_row_def update_rows_def Let_def enqueue_due_def scanNotification_def
      demo_dispatcher_def demo_row_def pg_view_def Enqueue_def redis_ref_def StreamKey_def source_consts view_defs
      view_empty_def demo_world_def)

theorem every_message_handled_witness:
  "\<exists>e rounds. v_unread (pg_view state_view (run_events demo_wiring [Scheduler [] 5 False] due_program))
       ''notifications:high'' = [e] \<and> length rounds = 9 \<and>
     fst e \<notin> ids (v_unread (pg_view state_view (run_events demo_wiring ([Scheduler [] 5 False] @ concat rounds)
       due_program)) ''notifications:high'') \<and>
     fst e \<notin> ids (v_pending (pg_view state_view (run_events demo_wiring ([Scheduler [] 5 False] @ concat rounds)
       due_program)) ''notifications:high'')"
proof -
  let ?q = "run_events demo_wiring [Scheduler [] 5 False] due_program"
  obtain e where e: "v_unread (pg_view state_view ?q) ''notifications:high'' = [] @ e # []"
    using due_polled by auto
  have not_done: "pg_done ?q = False" by (simp add: done_run due_program_def del: run_events_simps)
  obtain rounds where rounds: "length rounds = 9" "Signal \<notin> set (concat rounds)"
    "waits_end demo_wiring (concat rounds) ?q" "\<forall>r \<in> set rounds. fair_round 1 r"
    using ref_rounds [OF demo_wiring_dispatcher not_done] by metis
  have start: "pg_view state_view due_program = view_empty" "pg_pool due_program = Pool_Start 1"
    "''notifications:high'' \<in> set priority_streams"
    by (simp_all add: due_program_def priority_streams_def StreamKey_def source_consts)
  show ?thesis
    using every_message_handled [OF _ _ start(1,2) _ start(3) e _ rounds(2,3), simplified]
      ref.redis_service_axioms e not_done rounds(1,4)
    by (intro exI [of _ e] exI [of _ rounds]) (simp add: fair_round_def)
qed

end
