(* ===== verification/Accounting.thy ===== *)
theory Accounting
  imports Tracking Liveness
begin

text \<open>
  What a handled message does to the notification it names, and the whole account: whatever the order
  of events, no notification gets lost between the database and Redis.
\<close>

section \<open>One handled message\<close>



abbreviation retries :: "('r \<Rightarrow> view) \<Rightarrow> 'r world \<Rightarrow> zset" where
  "retries V w \<equiv> v_zset (V (w_redis w)) delayed_key"

text \<open>
  What handling leaves of an unfinished row: delivered when its provider accepts it, failed when it has
  none, and failed, or queued and a member of the delayed set, when its provider refuses it. It always
  spends some of the budget of the row.
\<close>

definition settled :: "'r dispatcher \<Rightarrow> nrow \<Rightarrow> nrow \<Rightarrow> zset \<Rightarrow> zset \<Rightarrow> bool" where
  "settled D r r' z z' \<longleftrightarrow>
     r_channel r' = r_channel r \<and> budget r' < budget r \<and>
     (case d_providers D (r_channel r) of
        None \<Rightarrow> r_status r' = StatusFailed \<and> z' = z
      | Some send \<Rightarrow>
          (case res_error (send (scanNotification r)) of
             None \<Rightarrow> r_status r' = StatusDelivered \<and> z' = z
           | Some _ \<Rightarrow> r_status r' = StatusFailed \<and> z' = z \<or> r_status r' = StatusQueued \<and>
               (\<exists>s. z' = zset_add (retry_member (d_lib D) (r_id r, r_channel r, r_priority r)) s z)))"

context redis_service
begin

lemma deliver_settles:
  assumes "d_redis D = R" "redis_up R" "no_faults (w_db w)" "rows_ok (db_tables (w_db w))"
    and "row_at (r_id r) (db_tables (w_db w)) = Some rp" "r_channel rp = r_channel r"
    and "d_providers D (r_channel r) = Some send"
    and "\<And>e. res_error (send (scanNotification r)) = Some e \<Longrightarrow> text_ok (error_text e)"
    and "row_at (r_id r) (db_tables (w_db (deliver D clock aid msg (scanNotification r) send w))) = Some r'"
    and "budget r' < budget r"
  shows "settled D r r' (retries view_of w) (retries view_of (deliver D clock aid msg (scanNotification r) send w))"
proof -
  let ?n = "scanNotification r"
  let ?w = "record_attempt clock aid ?n (send ?n) (w\<lparr>w_sent := w_sent w @ [?n]\<rparr>)"
  have f: "no_faults (w_db ?w)" using assms(3) by simp
  obtain rc where rc: "row_at (r_id r) (db_tables (w_db ?w)) = Some rc" "r_channel rc = r_channel r"
    using record_attempt_any [of "w\<lparr>w_sent := w_sent w @ [?n]\<rparr>" ?n rp clock aid "send ?n"] assms(3-6)
    by (auto simp: counted_def)
  have last: "r_status r' = st \<and> r_channel r' = r_channel r"
    if "w_db (deliver D clock aid msg ?n send w) = snd (repo_UpdateStatus (clock 5) (r_id r) st e (w_db ?w))" "text_ok e"
    for st e
    using assms(9) repo_UpdateStatus_row [OF f that(2), of "r_id r" "clock 5" "r_id r" st] rc unfolding that(1) by auto
  show ?thesis
  proof (cases "res_error (send ?n)")
    case None
    then have "deliver D clock aid msg ?n send w = on_success D clock msg ?n ?w"
      by (simp add: deliver_def Let_def)
    then show ?thesis
      using last [of StatusDelivered "''''"] None assms(1,7,10) zset_calls [OF assms(2)]
      by (simp add: settled_def on_success_def)
  next
    case (Some e)
    then have step: "deliver D clock aid msg ?n send w = on_failure D clock msg ?n e ?w"
      by (simp add: deliver_def Let_def)
    show ?thesis
      using last [OF _ assms(8) [OF Some], of StatusFailed] last [OF _ assms(8) [OF Some], of StatusQueued]
        Some assms(1,7,10) zset_calls [OF assms(2)]
      by (auto simp: settled_def step on_failure_def schedule_retry_def give_up_def Let_def)
  qed
qed

lemma fetched_settles:
  assumes "d_redis D = R" "redis_up R" "no_faults (w_db w)" "rows_ok (db_tables (w_db w))" "providers_ok D"
    and "row_at j (db_tables (w_db w)) = Some r" "\<not> terminal (r_status r)"
  shows "\<exists>r'. row_at j (db_tables (w_db (process_fetched D clock aid msg (scanNotification r) w))) = Some r' \<and>
    (\<forall>i. i \<noteq> j \<longrightarrow> row_at i (db_tables (w_db (process_fetched D clock aid msg (scanNotification r) w))) =
      row_at i (db_tables (w_db w))) \<and>
    settled D r r' (retries view_of w) (retries view_of (process_fetched D clock aid msg (scanNotification r) w))"
proof -
  have id: "r_id r = j" using row_at_id [OF assms(6)] .
  let ?w = "set_status (clock 0) j StatusProcessing '''' w"
  let ?rp = "status_effect (clock 0) StatusProcessing '''' r"
  have w: "no_faults (w_db ?w)" "rows_ok (db_tables (w_db ?w))"
    using assms(3) status_update_rows_ok [OF assms(4)] by simp_all
  have row: "row_ok r" using assms(4,6) find_row_SomeD unfolding row_at_def rows_ok_def by fastforce
  note rows = set_status_row [OF assms(3) text_ok_Nil, where now = "clock 0" and i = j and st = StatusProcessing]
  show ?thesis
  proof (cases "d_providers D (r_channel r)")
    case None
    let ?e = "''no provider for channel: '' @ r_channel r"
    note last = set_status_row [OF w(1) no_provider_text [OF row], where now = "clock 1" and i = j and st = StatusFailed]
    have run: "process_fetched D clock aid msg (scanNotification r) w =
        ack_message D msg (set_status (clock 1) j StatusFailed ?e ?w)"
      using assms(7) None by (simp add: process_fetched_def Let_def id)
    have "row_at i (db_tables (w_db (process_fetched D clock aid msg (scanNotification r) w))) =
        (if i = j then Some (status_effect (clock 1) StatusFailed ?e ?rp) else row_at i (db_tables (w_db w)))" for i
      unfolding run world_status(1) last rows using assms(6) by simp
    moreover have "retries view_of (process_fetched D clock aid msg (scanNotification r) w) = retries view_of w"
      by (simp add: run assms(1) zset_calls [OF assms(2)])
    moreover have "budget (status_effect (clock 1) StatusFailed ?e ?rp) < budget r"
      using budget_pos [OF assms(7)] by (simp add: budget_def [of "status_effect _ _ _ _"] terminal_def)
    ultimately show ?thesis using None by (simp add: settled_def)
  next
    case (Some send)
    have run: "process_fetched D clock aid msg (scanNotification r) w =
        deliver D clock aid msg (scanNotification r) send ?w"
      using assms(7) Some by (simp add: process_fetched_def Let_def id)
    have rowj: "row_at (n_id (scanNotification r)) (db_tables (w_db ?w)) = Some ?rp"
      using rows [of j] assms(6) id by simp
    have texts: "\<And>e. res_error (send (scanNotification r)) = Some e \<Longrightarrow> text_ok (error_text e)"
      using assms(5) Some unfolding providers_ok_def by blast
    obtain r' where r': "spent ?rp r'" "\<forall>i. row_at i (db_tables (w_db (deliver D clock aid msg (scanNotification r) send ?w))) =
        (if i = j then Some r' else row_at i (db_tables (w_db ?w)))"
      using deliver_row(1) [where n = "scanNotification r" and send = send and D = D and clock = clock and
        aid = aid and msg = msg, OF w rowj _ _ texts] id by auto
    have "spent r r'" using r'(1) by (simp add: spent_def)
    then have spends: "budget r' < budget r" using spent_budget assms(7) by fastforce
    from r'(2) have at: "row_at j (db_tables (w_db (deliver D clock aid msg (scanNotification r) send ?w))) = Some r'"
      by simp
    have "settled D r r' (retries view_of ?w) (retries view_of (deliver D clock aid msg (scanNotification r) send ?w))"
      by (rule deliver_settles [where rp = ?rp, OF assms(1,2) w _ _ Some texts]) (use rowj at id spends in simp_all)
    then show ?thesis using r'(2) rows unfolding run by auto
  qed
qed

text \<open>The whole handler: what it does to the rows and to the delayed set.\<close>

lemma process_settles:
  assumes "d_redis D = R" "redis_up R" "no_faults (w_db w)" "rows_ok (db_tables (w_db w))" "providers_ok D"
    and "uuid_Parse (d_lib D) (m_notification_id msg) = (j, err)"
    and "w' = processMessage D turns clock aid msg w"
  shows "(\<forall>i. i \<noteq> j \<or> err \<noteq> None \<longrightarrow> row_at i (db_tables (w_db w')) = row_at i (db_tables (w_db w))) \<and>
    (row_at j (db_tables (w_db w')) = row_at j (db_tables (w_db w)) \<and> retries view_of w' = retries view_of w \<and>
       (err = None \<and> fst (rate_wait R (d_limiter D) (m_channel msg) turns (w_redis w)) = Proceed \<longrightarrow>
         (\<forall>r. row_at j (db_tables (w_db w)) = Some r \<longrightarrow> terminal (r_status r))) \<or>
     (\<exists>r r'. err = None \<and> row_at j (db_tables (w_db w)) = Some r \<and> \<not> terminal (r_status r) \<and>
       row_at j (db_tables (w_db w')) = Some r' \<and> settled D r r' (retries view_of w) (retries view_of w')))"
proof -
  obtain x q where wait: "rate_wait R (d_limiter D) (m_channel msg) turns (w_redis w) = (x, q)"
    by (metis surj_pair)
  have z: "v_zset (view_of q) delayed_key = retries view_of w" using rate_wait_delayed [OF assms(2) wait] .
  note calls = zset_calls [OF assms(2)]
  let ?w = "w\<lparr>w_redis := q, w_db := (w_db w)\<lparr>db_calls := Suc (db_calls (w_db w))\<rparr>\<rparr>"
  consider (bad) e where "err = Some e" | (waiting) "err = None" "x \<noteq> Proceed"
    | (missing) "err = None" "x = Proceed" "row_at j (db_tables (w_db w)) = None"
    | (found) r where "err = None" "x = Proceed" "row_at j (db_tables (w_db w)) = Some r"
    by (cases err; cases "x = Proceed"; cases "row_at j (db_tables (w_db w))") auto
  then show ?thesis
  proof cases
    case bad
    then have "w' = ack_message D msg w" by (simp add: assms(7) processMessage_def assms(6))
    then show ?thesis using bad calls assms(1) by simp
  next
    case waiting
    then have "w' = w\<lparr>w_redis := q\<rparr>"
      using wait assms(1) by (simp add: assms(7) processMessage_def assms(6) split: wait.splits)
    then show ?thesis using waiting wait z by simp
  next
    case missing
    then have "w' = ack_message D msg ?w"
      using wait assms(1,3) by (simp add: assms(7) processMessage_def assms(6) repo_GetByID_missing)
    then show ?thesis using missing z calls assms(1) by simp
  next
    case found
    have run: "w' = process_fetched D clock aid msg (scanNotification r) ?w"
      using found wait assms(1,3) by (simp add: assms(7) processMessage_def assms(6) repo_GetByID_found)
    show ?thesis
    proof (cases "terminal (r_status r)")
      case True
      then have "w' = ack_message D msg ?w" by (simp add: run process_fetched_def)
      then show ?thesis using found True z calls assms(1) by simp
    next
      case False
      have "row_at j (db_tables (w_db ?w)) = Some r" using found(3) by simp
      from fetched_settles [OF assms(1,2) _ _ assms(5) this False, of clock aid msg] assms(3,4)
      show ?thesis using found False z unfolding run by auto
    qed
  qed
qed

end

section \<open>Held messages are the entries they were read from\<close>

fun work_messages :: "work_state \<Rightarrow> message list" where
  "work_messages (Handling ms) = ms"
| "work_messages _ = []"

lemma held_messages: "held s = map msg_key (work_messages s)"
  by (cases s) simp_all

definition faithful :: "view \<Rightarrow> work_state list \<Rightarrow> bool" where
  "faithful v ws \<longleftrightarrow> (\<forall>s \<in> set ws. \<forall>m \<in> set (work_messages s). \<forall>e \<in> set (v_pending v (m_stream_id m)).
     fst e = m_message_id m \<longrightarrow> to_message (m_stream_id m) e = Some m)"

lemma faithful_shrinks:
  assumes "faithful v ws" "\<And>k. set (v_pending w k) \<subseteq> set (v_pending v k)"
    and "\<And>s. s \<in> set ws' \<Longrightarrow> \<exists>s0 \<in> set ws. set (work_messages s) \<subseteq> set (work_messages s0)"
  shows "faithful w ws'"
  unfolding faithful_def
proof (intro ballI impI)
  fix s e and m :: message
  assume s: "s \<in> set ws'" "m \<in> set (work_messages s)" "e \<in> set (v_pending w (m_stream_id m))" "fst e = m_message_id m"
  obtain s0 where "s0 \<in> set ws" "m \<in> set (work_messages s0)" using assms(3) [OF s(1)] s(2) by blast
  then show "to_message (m_stream_id m) e = Some m"
    using assms(1,2) s(3,4) unfolding faithful_def by blast
qed

lemma held_pending:
  assumes "owned v ws" "s \<in> set ws" "m \<in> set (work_messages s)"
  shows "m_message_id m \<in> ids (v_pending v (m_stream_id m))"
proof -
  have "msg_key m \<in> set (all_held ws)"
    using assms(2,3) by (auto simp: all_held_def held_messages)
  then have "msg_key m \<in> pending_keys v" using assms(1) unfolding owned_def by blast
  then show ?thesis by (simp add: pending_keys_def msg_key_def)
qed

lemma ids_apart:
  assumes "ids_ok v" "e \<in> set (v_pending v k)" "e' \<in> set (v_unread v k)"
  shows "fst e \<noteq> fst e'"
proof -
  have "ids (v_pending v k) \<inter> ids (v_unread v k) = {}"
    using assms(1) [unfolded ids_ok_def, THEN spec, of k] unfolding entries_ok_def by blast
  moreover have "fst e \<in> ids (v_pending v k)" using assms(2) by (rule imageI)
  moreover have "fst e' \<in> ids (v_unread v k)" using assms(3) by (rule imageI)
  ultimately show ?thesis by (metis IntI empty_iff)
qed

lemma faithful_read:
  assumes "ids_ok v" "streams_ok v" "owned v (xs @ AtRead # ys)" "faithful v (xs @ AtRead # ys)"
    and "ms = concat (map (oldest_messages 1 v) ks)"
  shows "faithful (view_xread ks 1 v) (xs @ Handling ms # ys)"
  unfolding faithful_def
proof (intro ballI impI)
  fix s e and m :: message
  let ?k = "m_stream_id m"
  assume s: "s \<in> set (xs @ Handling ms # ys)" "m \<in> set (work_messages s)"
    and e: "e \<in> set (v_pending (view_xread ks 1 v) ?k)" "fst e = m_message_id m"
  have from': "e \<in> set (v_pending v ?k) \<or> e \<in> set (take 1 (v_unread v ?k))"
    using e(1) by (auto simp: view_xread_def split: if_splits)
  show "to_message ?k e = Some m"
  proof (cases "s \<in> set (xs @ AtRead # ys)")
    case True
    obtain e0 where e0: "e0 \<in> set (v_pending v ?k)" "fst e0 = m_message_id m"
      using held_pending [OF assms(3) True s(2)] by (metis imageE)
    then have "e \<notin> set (v_unread v ?k)" using ids_apart [OF assms(1) e0(1)] e(2) by metis
    then have "e \<in> set (v_pending v ?k)" using from' by (auto dest: in_set_takeD)
    then show ?thesis using assms(4) True s(2) e(2) unfolding faithful_def by blast
  next
    case False
    then have "m \<in> set ms" using s by auto
    then obtain k e0 where e0: "e0 \<in> set (take 1 (v_unread v k))" "m = the (to_message k e0)"
      unfolding assms(5) by (auto simp: oldest_messages_def)
    have unread: "e0 \<in> set (v_unread v k)" using e0(1) by (rule in_set_takeD)
    then have "entry_ok e0" using assms(2) by (auto simp: streams_ok_def)
    then have m: "to_message k e0 = Some m" using to_message_ok [of k e0] e0(2) by auto
    then have key: "?k = k" "m_message_id m = fst e0" using to_message_key [OF m] by (simp_all add: msg_key_def)
    have "e \<notin> set (v_pending v k)" using ids_apart [OF assms(1) _ unread] e(2) key by metis
    then have "e = e0" using from' e0(1) unfolding key by (cases "v_unread v k") auto
    then show ?thesis using m key by simp
  qed
qed

section \<open>A handled message settles the notification it names\<close>

text \<open>
  An entry that is gone from its stream has settled the notifications it names: they are finished or
  have a retry waiting, and some of their budget is spent unless none was left.
\<close>

definition entry_fate :: "lib \<Rightarrow> view \<Rightarrow> tables \<Rightarrow> tables \<Rightarrow> string \<Rightarrow> entry \<Rightarrow> bool" where
  "entry_fate L v t0 t k e \<longleftrightarrow> e \<in> in_stream v k \<or>
     (\<forall>i r. names L i e \<longrightarrow> row_at i t = Some r \<longrightarrow> (terminal (r_status r) \<or> retry_waiting L v i) \<and>
       (\<forall>r0. row_at i t0 = Some r0 \<longrightarrow> budget r < budget r0 \<or> budget r0 = 0))"

lemma process_faults: "no_faults (w_db (processMessage D turns clock aid msg w)) = no_faults (w_db w)"
proof -
  have f: "no_faults d = no_faults (w_db w)" if "repo_GetByID i (w_db w) = (x, d)" for i x d
    using repo_faults(4) [of i "w_db w"] that by simp
  show ?thesis
    by (auto simp: processMessage_def process_fetched_def deliver_def on_success_def on_failure_def
        schedule_retry_def give_up_def Let_def dest: f split: prod.splits option.splits wait.splits sum.splits)
qed

lemma row_retry_ok: "row_ok r \<Longrightarrow> retry_ok (r_id r, r_channel r, r_priority r)"
  by (auto simp: row_ok_def retry_ok_def channel_type_def priority_type_def channel_valid_def priority_valid_def source_consts)

text \<open>A retry that is added to the delayed set waits there, and nothing that waited is lost.\<close>

lemma zset_add_tracks:
  assumes "v_zset w delayed_key = zset_add (retry_member L (j, c, p)) s (v_zset v delayed_key)" "retry_ok (j, c, p)"
  shows "fst ` set (v_zset v delayed_key) \<subseteq> fst ` set (v_zset w delayed_key)"
    and "delayed_ok L v \<Longrightarrow> delayed_ok L w"
    and "retry_waiting L w j"
proof -
  let ?m = "retry_member L (j, c, p)"
  have z: "set (v_zset w delayed_key) = insert (?m, s) {e \<in> set (v_zset v delayed_key). fst e \<noteq> ?m}"
    unfolding assms(1) by (rule set_zset_add)
  have "?m \<in> fst ` set (v_zset w delayed_key)" unfolding z by simp
  then show "retry_waiting L w j" using assms(2) unfolding retry_waiting_def by blast
  have "fst e \<in> fst ` set (v_zset w delayed_key)" if "e \<in> set (v_zset v delayed_key)" for e
    using that unfolding z by (cases "fst e = ?m") (auto simp: rev_image_eqI)
  then show "fst ` set (v_zset v delayed_key) \<subseteq> fst ` set (v_zset w delayed_key)" by (rule image_subsetI)
  show "delayed_ok L w" if "delayed_ok L v"
    unfolding delayed_ok_def
  proof
    fix e
    assume "e \<in> set (v_zset w delayed_key)"
    then have "e = (?m, s) \<or> e \<in> set (v_zset v delayed_key)" unfolding z by blast
    then show "\<exists>t. retry_ok t \<and> fst e = retry_member L t"
      using that assms(2) unfolding delayed_ok_def by (metis fst_conv)
  qed
qed

lemma settled_retries:
  assumes "settled D r r' (v_zset v delayed_key) (v_zset w delayed_key)" "row_ok r"
  shows "fst ` set (v_zset v delayed_key) \<subseteq> fst ` set (v_zset w delayed_key)"
    and "delayed_ok (d_lib D) v \<Longrightarrow> delayed_ok (d_lib D) w"
    and "terminal (r_status r') \<or> retry_waiting (d_lib D) w (r_id r)"
proof -
  have "v_zset w delayed_key = v_zset v delayed_key \<and> terminal (r_status r') \<or>
      (\<exists>s. v_zset w delayed_key = zset_add (retry_member (d_lib D) (r_id r, r_channel r, r_priority r)) s
        (v_zset v delayed_key))"
    using assms(1) by (auto simp: settled_def terminal_def split: option.splits)
  then have "fst ` set (v_zset v delayed_key) \<subseteq> fst ` set (v_zset w delayed_key) \<and>
      (delayed_ok (d_lib D) v \<longrightarrow> delayed_ok (d_lib D) w) \<and>
      (terminal (r_status r') \<or> retry_waiting (d_lib D) w (r_id r))"
  proof (elim disjE exE conjE)
    assume "v_zset w delayed_key = v_zset v delayed_key" "terminal (r_status r')"
    then show ?thesis using zset_track(2) [of w v] by simp
  next
    fix s
    assume "v_zset w delayed_key = zset_add (retry_member (d_lib D) (r_id r, r_channel r, r_priority r)) s (v_zset v delayed_key)"
    from zset_add_tracks [OF this row_retry_ok [OF assms(2)]] show ?thesis by simp
  qed
  then show "fst ` set (v_zset v delayed_key) \<subseteq> fst ` set (v_zset w delayed_key)"
    "delayed_ok (d_lib D) v \<Longrightarrow> delayed_ok (d_lib D) w"
    "terminal (r_status r') \<or> retry_waiting (d_lib D) w (r_id r)" by blast+
qed

context redis_service
begin

lemma process_tracks:
  assumes "d_redis D = R" "redis_up R" "uuid_laws (d_lib D)" "providers_ok D"
    and "tracked_world (d_lib D) view_of w" "ids_ok (view_of (w_redis w))"
    and "m_message_id m \<in> ids (v_pending (view_of (w_redis w)) (m_stream_id m))"
    and "\<forall>e \<in> set (v_pending (view_of (w_redis w)) (m_stream_id m)).
      fst e = m_message_id m \<longrightarrow> to_message (m_stream_id m) e = Some m"
    and "w' = processMessage D turns clock aid m w"
  shows "(\<forall>k e. e \<in> in_stream (view_of (w_redis w)) k \<longrightarrow>
      entry_fate (d_lib D) (view_of (w_redis w')) (db_tables (w_db w)) (db_tables (w_db w')) k e) \<and>
    tracked_world (d_lib D) view_of w'"
proof -
  let ?L = "d_lib D" and ?v = "view_of (w_redis w)" and ?v' = "view_of (w_redis w')"
  let ?t = "db_tables (w_db w)" and ?t' = "db_tables (w_db w')"
  obtain j err where parse: "uuid_Parse ?L (m_notification_id m) = (j, err)" by (metis surj_pair)
  have d: "no_faults (w_db w)" "rows_ok ?t" "delayed_ok ?L ?v" "accounted ?L ?v ?t"
    using assms(5) by (simp_all add: tracked_def)
  have ok: "row_ok r" "r_id r = i" if "row_at i ?t = Some r" for i r
    using that d(2) find_row_SomeD [of r_id i "notifications ?t" r] by (auto simp: row_at_def rows_ok_def)
  note eff = process_settles [OF assms(1,2) d(1,2) assms(4) parse assms(9)]
  have one: "view_steps {msg_key m} ?v ?v'"
    using steps_processMessage [OF assms(1,2), of m w] unfolding msg_key_pair assms(9) .
  have "retries view_of w' = retries view_of w \<or>
      (\<exists>r r'. row_ok r \<and> settled D r r' (retries view_of w) (retries view_of w'))"
    using eff ok(1) by blast
  then have grow: "fst ` set (v_zset ?v delayed_key) \<subseteq> fst ` set (v_zset ?v' delayed_key) \<and> delayed_ok ?L ?v'"
  proof (elim disjE exE conjE)
    assume "retries view_of w' = retries view_of w"
    then show ?thesis using d(3) zset_track(2) [of ?v' ?v ?L] by simp
  next
    fix r r'
    assume "row_ok r" "settled D r r' (retries view_of w) (retries view_of w')"
    then show ?thesis using settled_retries(1,2) [of D r r' ?v ?v'] d(3) by blast
  qed
  have retry: "retry_waiting ?L ?v i \<Longrightarrow> retry_waiting ?L ?v' i" for i
    using grow unfolding retry_waiting_def by blast
  have row: "terminal (r_status r) \<or> retry_waiting ?L ?v' j \<or> row_at j ?t = Some r \<and>
      \<not> (err = None \<and> fst (rate_wait R (d_limiter D) (m_channel m) turns (w_redis w)) = Proceed)"
    if r: "row_at j ?t' = Some r" for r
    using eff [THEN conjunct2]
  proof (elim disjE exE conjE)
    fix r0 r'
    assume "row_at j ?t = Some r0" "row_at j ?t' = Some r'" "settled D r0 r' (retries view_of w) (retries view_of w')"
    then show ?thesis using settled_retries(3) [of D r0 r' ?v ?v'] ok [of j r0] r by auto
  qed (use r in auto)
  have spends: "budget r < budget r0 \<or> budget r0 = 0"
    if r: "row_at j ?t' = Some r" "row_at j ?t = Some r0" "err = None"
      "fst (rate_wait R (d_limiter D) (m_channel m) turns (w_redis w)) = Proceed" for r r0
    using eff r by (auto simp: settled_def budget_def [of r0])
  have fate: "entry_fate ?L ?v' ?t ?t' k e" if e: "e \<in> in_stream ?v k" for k e
  proof (cases "(k, fst e) = msg_key m")
    case False
    then show ?thesis using entry_steps(1) [OF one e] by (simp add: entry_fate_def)
  next
    case True
    then have key: "m_stream_id m = k" "m_message_id m = fst e" by (simp_all add: msg_key_def)
    obtain e0 where e0: "e0 \<in> set (v_pending ?v k)" "fst e0 = fst e"
      using assms(7) unfolding key by (metis imageE)
    then have "e \<notin> set (v_unread ?v k)" using ids_apart [OF assms(6) e0(1)] by metis
    then have "to_message k e = Some m" using e assms(8) unfolding in_stream_def key by blast
    then have named: "j = i \<and> err = None" if "names ?L i e" for i
      using that parse assms(3) by (auto simp: names_def to_message_def split: option.splits)
    obtain x q where wait: "rate_wait R (d_limiter D) (m_channel m) turns (w_redis w) = (x, q)" by (metis surj_pair)
    show ?thesis
    proof (cases "err = None \<and> x \<noteq> Proceed")
      case True
      then have "w' = w\<lparr>w_redis := q\<rparr>"
        using processMessage_interrupted [of D m turns w x q clock aid] wait parse assms(1,9) by simp
      then show ?thesis
        using entry_steps(1) [OF steps_rate_wait [OF assms(2) wait] e, of "{}"] by (simp add: entry_fate_def)
    next
      case False
      have "(terminal (r_status r) \<or> retry_waiting ?L ?v' i) \<and>
          (\<forall>r0. row_at i ?t = Some r0 \<longrightarrow> budget r < budget r0 \<or> budget r0 = 0)"
        if "names ?L i e" "row_at i ?t' = Some r" for i r
        using row [of r] spends [of r] named [OF that(1)] that(2) False wait by auto
      then show ?thesis unfolding entry_fate_def by blast
    qed
  qed
  have "accounted ?L ?v' ?t'"
    unfolding accounted_def
  proof (intro allI impI)
    fix i r
    assume r: "row_at i ?t' = Some r"
    show "r_status r = StatusScheduled \<or> terminal (r_status r) \<or> underway ?L ?v' i"
    proof (cases "row_at i ?t = Some r")
      case True
      then consider "r_status r = StatusScheduled \<or> terminal (r_status r)" | "retry_waiting ?L ?v i"
        | k e where "k \<in> set priority_streams" "e \<in> in_stream ?v k" "names ?L i e"
        using d(4) unfolding accounted_def underway_def message_queued_def by blast
      then show ?thesis
      proof cases
        case 3
        then show ?thesis
          using fate [OF 3(2)] r unfolding entry_fate_def underway_def message_queued_def by blast
      qed (auto simp: underway_def retry)
    next
      case False
      then show ?thesis using eff row [of r] r unfolding underway_def by metis
    qed
  qed
  then show ?thesis
    using fate grow d(1,2) rows.inv_processMessage [of w] by (simp add: tracked_def assms(9) process_faults)
qed

end

section \<open>Every event keeps the account\<close>

definition account_ok :: "'r wiring \<Rightarrow> ('r \<Rightarrow> view) \<Rightarrow> 'r program \<Rightarrow> bool" where
  "account_ok S V p \<longleftrightarrow> consumption_ok V p \<and> faithful (pg_view V p) (pg_pool p) \<and>
     tracked_world (d_lib (wi_dispatcher S)) V (pg_world p)"

abbreviation pg_tables :: "'r program \<Rightarrow> tables" where
  "pg_tables p \<equiv> db_tables (w_db (pg_world p))"

definition fates :: "'r wiring \<Rightarrow> ('r \<Rightarrow> view) \<Rightarrow> 'r program \<Rightarrow> 'r program \<Rightarrow> bool" where
  "fates S V p p' \<longleftrightarrow> (\<forall>k e. e \<in> in_stream (pg_view V p) k \<longrightarrow>
     entry_fate (d_lib (wi_dispatcher S)) (pg_view V p') (pg_tables p) (pg_tables p') k e)"

lemma fates_steps:
  assumes "view_steps {} (pg_view V p) (pg_view V p')"
  shows "fates S V p p'"
  unfolding fates_def entry_fate_def using entry_steps(1) [OF assms] by blast

lemma tracked_view: "tracked_but X L v d \<Longrightarrow> keeps_but X L v w \<Longrightarrow> tracked_but X L w d"
  by (rule tracked_rows [OF _ same_rows_refl])

context redis_service
begin

abbreviation trusted :: "'r wiring \<Rightarrow> bool" where
  "trusted S \<equiv> serves S \<and> uuid_laws (d_lib (wi_dispatcher S)) \<and> providers_ok (wi_dispatcher S)"

lemma other_tracks:
  assumes "trusted S" "tracked_world_but X (d_lib (wi_dispatcher S)) view_of (pg_world p)" "\<And>j x. e \<noteq> Worker j x"
  shows "tracked_world_but X (d_lib (wi_dispatcher S)) view_of (pg_world (apply_event S e p))"
proof (cases e)
  case (Delayed clock b)
  have "tracked_but X (d_lib (wi_dispatcher S)) (view_of (processDelayedBatch (wi_dispatcher S) clock (w_redis (pg_world p)))) (w_db (pg_world p))"
    using delayed_batch_track [of "wi_dispatcher S" "w_redis (pg_world p)" X clock] assms(1)
    by (intro tracked_view [OF assms(2)]) (use assms(2) in \<open>simp add: tracked_but_def\<close>)
  then show ?thesis using assms(2) by (auto simp: Delayed ProcessDelayed_def tick_loop_def)
next
  case (Scheduler locked dbnow b)
  have R: "d_redis (wi_dispatcher S) = R" and up: "redis_up R" using assms(1) by simp_all
  show ?thesis
    using assms(2) tracked_poll [OF up _ assms(2)] assms(1)
    by (auto simp: Scheduler Scheduler_Run_def tick_loop_def R split: prod.splits)
next
  case (Request su fresh rq)
  then show ?thesis using tracked_request [OF _ _ assms(2), of su fresh rq] assms(1) by simp
qed (use assms(2,3) in auto)

lemma other_account:
  assumes "trusted S" "account_ok S view_of p" "\<And>j x. e \<noteq> Worker j x"
  shows "account_ok S view_of (apply_event S e p) \<and> fates S view_of p (apply_event S e p)"
proof -
  let ?p = "apply_event S e p" and ?L = "d_lib (wi_dispatcher S)"
  have parts: "consumption_ok view_of p" "faithful (pg_view view_of p) (pg_pool p)"
    "tracked_world ?L view_of (pg_world p)"
    using assms(2) by (simp_all add: account_ok_def)
  have same: "pg_pool ?p = pg_pool p" "view_steps {} (pg_view view_of p) (pg_view view_of ?p)"
    using other_event [of S e p "{}"] assms(1,3) unfolding pg_view_def by blast+
  have "faithful (pg_view view_of ?p) (pg_pool ?p)"
    by (rule faithful_shrinks [OF parts(2) entry_steps(2) [OF same(2)]]) (auto simp: same(1))
  moreover have "consumption_ok view_of ?p" using consumption_event [OF _ parts(1)] assms(1) by blast
  moreover have "tracked_world ?L view_of (pg_world ?p)" using other_tracks [OF assms(1) parts(3) assms(3)] .
  ultimately show ?thesis using fates_steps [OF same(2)] by (simp add: account_ok_def)
qed

lemma worker_account:
  assumes "trusted S" "account_ok S view_of p" "j < length (pg_pool p)"
  shows "account_ok S view_of (apply_event S (Worker j x) p) \<and> fates S view_of p (apply_event S (Worker j x) p)"
proof -
  let ?D = "wi_dispatcher S" and ?v = "pg_view view_of p" and ?p = "apply_event S (Worker j x) p"
  have serves: "serves S" using assms(1) by blast
  have con: "consumption_ok view_of p" and faith: "faithful ?v (pg_pool p)"
    and track: "tracked_world (d_lib ?D) view_of (pg_world p)"
    using assms(2) by (simp_all add: account_ok_def)
  have con': "consumption_ok view_of ?p" using consumption_event [OF serves con] by blast
  have ids: "ids_ok ?v" "streams_ok ?v" "owned ?v (pg_pool p)" using con by (simp_all add: consumption_ok_def)
  obtain s' w' where st: "work_step ?D (wi_consumer S) x (pg_done p) (pg_pool p ! j) (pg_world p) = (s', w')"
    by (metis surj_pair)
  obtain xs ys where pool: "pg_pool p = xs @ pg_pool p ! j # ys"
    and p': "?p = p\<lparr>pg_pool := xs @ s' # ys, pg_world := w'\<rparr>"
    using worker_split [OF assms(3) st] by metis
  have at: "pg_pool p ! j \<in> set (pg_pool p)" using assms(3) by simp
  have others: "set xs \<union> set ys \<subseteq> set (pg_pool p)" by (subst pool) auto
  have smaller: "faithful (view_of (w_redis w')) (xs @ s' # ys)"
    if "set (work_messages s') \<subseteq> set (work_messages (pg_pool p ! j))"
      "\<And>k. set (v_pending (view_of (w_redis w')) k) \<subseteq> set (v_pending ?v k)"
    using others at that by (intro faithful_shrinks [OF faith]) auto
  have goal: ?thesis if "faithful (view_of (w_redis w')) (xs @ s' # ys)" "tracked_world (d_lib ?D) view_of w'"
    "\<forall>k e. e \<in> in_stream ?v k \<longrightarrow>
      entry_fate (d_lib ?D) (view_of (w_redis w')) (pg_tables p) (db_tables (w_db w')) k e"
    using that con' unfolding account_ok_def fates_def p' by (simp add: pg_view_def)
  have idle: ?thesis if "w' = pg_world p" "set (work_messages s') \<subseteq> set (work_messages (pg_pool p ! j))"
    using that smaller track by (intro goal) (simp_all add: pg_view_def entry_fate_def)
  have handle: ?thesis
    if "pg_pool p ! j = Handling (m # ms)" "set (work_messages s') \<subseteq> set (m # ms)"
      "w' = processMessage ?D (cut_short (pg_done p) (dr_turns x)) (dr_clock x) (dr_attempt x) m (pg_world p)" for m ms
  proof -
    have m: "m \<in> set (work_messages (pg_pool p ! j))" using that(1) by simp
    have "\<forall>e \<in> set (v_pending ?v (m_stream_id m)). fst e = m_message_id m \<longrightarrow> to_message (m_stream_id m) e = Some m"
      using faith at m unfolding faithful_def by blast
    from process_tracks [OF _ _ _ _ track _ _ this [unfolded pg_view_def] that(3)] assms(1) ids(1) held_pending [OF ids(3) at m]
    have eff: "\<forall>k e. e \<in> in_stream ?v k \<longrightarrow>
        entry_fate (d_lib ?D) (view_of (w_redis w')) (pg_tables p) (db_tables (w_db w')) k e"
      "tracked_world (d_lib ?D) view_of w'"
      unfolding pg_view_def by blast+
    have "view_steps {msg_key m} ?v (view_of (w_redis w'))"
      using steps_processMessage [of ?D m "pg_world p"] serves unfolding msg_key_pair that(3) pg_view_def by blast
    then show ?thesis using eff smaller [OF _ entry_steps(2)] that(1,2) by (intro goal) simp_all
  qed
  show ?thesis
  proof (cases "pg_pool p ! j")
    case AtSelect
    then show ?thesis using st by (intro idle) (auto split: if_splits)
  next
    case AtRead
    from read_effect [OF _ _ _ st [unfolded AtRead]] serves ids(2)
    obtain ms where r: "s' = Handling ms" "ms = concat (map (oldest_messages 1 ?v) priority_streams)"
      "view_of (w_redis w') = view_xread priority_streams 1 ?v"
      unfolding pg_view_def by blast
    have "w_db w' = w_db (pg_world p)"
      using st AtRead by (auto split: prod.splits option.splits sum.splits)
    then have "tracked_world (d_lib ?D) view_of w'"
      using tracked_view [OF track xread_track] r(3) by (simp add: pg_view_def)
    moreover have "faithful (view_of (w_redis w')) (xs @ s' # ys)"
      unfolding r(1,3) using ids faith pool AtRead by (intro faithful_read [OF _ _ _ _ r(2)]) simp_all
    ultimately show ?thesis
      by (intro goal) (simp_all add: r(3) entry_fate_def entry_xread)
  next
    case (Handling ms)
    show ?thesis
    proof (cases ms)
      case Nil
      then show ?thesis using st Handling by (intro idle) simp_all
    next
      case (Cons m ms')
      have "set (work_messages s') \<subseteq> set (m # ms')"
        "w' = processMessage ?D (cut_short (pg_done p) (dr_turns x)) (dr_clock x) (dr_attempt x) m (pg_world p)"
        using st [unfolded Handling Cons] by (auto simp: Let_def split: if_splits)
      then show ?thesis using Handling Cons by (intro handle [of m ms']) simp_all
    qed
  qed (rule idle; use st in simp)+
qed

lemma account_event:
  assumes "trusted S" "account_ok S view_of p"
  shows "account_ok S view_of (apply_event S e p) \<and> fates S view_of p (apply_event S e p)"
proof (cases "\<exists>j x. e = Worker j x")
  case True
  then obtain j x where e: "e = Worker j x" by blast
  show ?thesis
    using worker_account [OF assms] assms(2) fates_steps [of view_of p p]
    by (cases "j < length (pg_pool p)") (simp_all add: e)
next
  case False
  then show ?thesis using other_account [OF assms] by blast
qed

lemma account_run: "trusted S \<Longrightarrow> account_ok S view_of p \<Longrightarrow> account_ok S view_of (run_events S es p)"
  by (induction es arbitrary: p) (simp_all add: account_event)

end

section \<open>No notification is lost\<close>

text \<open>
  A program that starts: empty streams, workers at the top of their loops, a database that answers and
  whose notifications are scheduled or finished.
\<close>

definition fresh_start :: "('r \<Rightarrow> view) \<Rightarrow> 'r program \<Rightarrow> int \<Rightarrow> bool" where
  "fresh_start V p n \<longleftrightarrow> pg_view V p = view_empty \<and> pg_pool p = Pool_Start n \<and>
     no_faults (w_db (pg_world p)) \<and> rows_ok (pg_tables p) \<and>
     (\<forall>r \<in> set (notifications (pg_tables p)). r_status r = StatusScheduled \<or> terminal (r_status r))"

lemma fresh_account:
  assumes "fresh_start V p n"
  shows "account_ok S V p"
proof -
  have p: "pg_view V p = view_empty" "pg_pool p = Pool_Start n" "no_faults (w_db (pg_world p))" "rows_ok (pg_tables p)"
    and "\<forall>r \<in> set (notifications (pg_tables p)). r_status r = StatusScheduled \<or> terminal (r_status r)"
    using assms by (simp_all add: fresh_start_def)
  then have "accounted L v (pg_tables p)" for L v
    using find_row_SomeD unfolding accounted_def row_at_def by fastforce
  moreover have "delayed_ok L view_empty" for L by (simp add: delayed_ok_def view_empty_def)
  moreover have "faithful v (pg_pool p)" for v by (simp add: faithful_def p(2) Pool_Start_def)
  ultimately show ?thesis
    using fresh_consumption(1) [of V p n] view_empty_ok p by (simp add: account_ok_def tracked_def pg_view_def)
qed

text \<open>
  No notification is lost: over a database and a Redis that answer, from empty streams and after
  any sequence of requests, worker steps, retries, polls and a shutdown, every stored notification is
  scheduled, or delivered, failed or cancelled, or it is underway: a message in a priority stream that
  is unread or not yet acknowledged, or a member of the delayed set, carries its identifier. So once the
  streams and the delayed set are empty, every notification that is not scheduled is finished. A
  request, a handled message and a poll are one step each here; theory Races has interleavings inside
  them that lose an update.
\<close>

theorem no_notification_lost:
  assumes "redis_service (d_redis (wi_dispatcher S)) V" "redis_up (d_redis (wi_dispatcher S))"
    and "uuid_laws (d_lib (wi_dispatcher S))" "providers_ok (wi_dispatcher S)"
    and "fresh_start V p n" "row_at i (pg_tables (run_events S es p)) = Some r"
  shows "r_status r \<in> {StatusScheduled, StatusDelivered, StatusFailed, StatusCancelled} \<or>
    underway (d_lib (wi_dispatcher S)) (pg_view V (run_events S es p)) i"
proof -
  have "account_ok S V (run_events S es p)"
    using redis_service.account_run [OF assms(1)] assms(2-4) fresh_account [OF assms(5)] by blast
  then show ?thesis
    using assms(6) by (auto simp: account_ok_def tracked_def accounted_def terminal_def pg_view_def)
qed

lemma demo_trusted:
  "uuid_laws (d_lib (wi_dispatcher demo_wiring))" "providers_ok (wi_dispatcher demo_wiring)"
  "d_lib (wi_dispatcher demo_wiring) = example_lib"
  using demo_providers_ok by (simp_all add: demo_wiring_def demo_dispatcher_def)

lemma due_program_fresh: "fresh_start state_view due_program 1"
  using demo_row_ok [of "''scheduled''" 0]
  by (simp add: fresh_start_def due_program_def demo_program_def demo_world_def pg_view_def source_consts)

lemma due_pending:
  "row_at 1 (pg_tables (run_events demo_wiring [Scheduler [] 5 False] due_program)) =
     Some (pending_row 5 (demo_row 0 ''scheduled''))"
  by (simp add: due_program_def demo_program_def Scheduler_Run_def tick_loop_def Scheduler_start_def NewTicker_def
      NewScheduler_def demo_wiring_def Scheduler_poll_def repo_FetchScheduledDue_def pg_query_faultless rows_seen_def
      sql_fetch_due_def due_selection_def due_row_def update_rows_def Let_def demo_dispatcher_def demo_row_def
      demo_world_def pending_row_def row_at_def)

theorem no_notification_lost_witness:
  "underway example_lib (pg_view state_view (run_events demo_wiring [Scheduler [] 5 False] due_program)) 1"
  using no_notification_lost [OF _ _ demo_trusted(1,2) due_program_fresh due_pending] ref.redis_service_axioms
  by (simp add: source_consts demo_trusted(3) del: run_events_simps)

end
