(* ===== verification/Completion.thy ===== *)
theory Completion
  imports Accounting
begin

text \<open>
  From the queue to the provider: under fair scheduling a notification that has left the scheduled state
  and that no provider refuses is delivered or cancelled, whatever happens to the others.
\<close>

section \<open>A notification that no provider refuses\<close>

definition unrefused :: "'r dispatcher \<Rightarrow> uuid \<Rightarrow> bool" where
  "unrefused D i \<longleftrightarrow> (\<forall>ch send n. d_providers D ch = Some send \<longrightarrow> n_id n = i \<longrightarrow> res_error (send n) = None)"

text \<open>How its status can move: it may be cancelled, and a provider that exists delivers it.\<close>

definition smooth :: "'r dispatcher \<Rightarrow> nrow \<Rightarrow> nrow \<Rightarrow> bool" where
  "smooth D r r' \<longleftrightarrow> r_channel r' = r_channel r \<and>
     (r_status r' = r_status r \<or> r_status r = StatusScheduled \<and> r_status r' = StatusPending \<or>
      \<not> terminal (r_status r) \<and> (r_status r' \<in> {StatusDelivered, StatusCancelled} \<or>
        d_providers D (r_channel r) = None \<and> r_status r' = StatusFailed))"

lemma smooth_refl [simp]: "smooth D r r"
  by (simp add: smooth_def)

lemma smooth_trans: "smooth D r s \<Longrightarrow> smooth D s t \<Longrightarrow> smooth D r t"
  by (auto simp: smooth_def terminal_def source_consts)

lemma smooth_terminal: "smooth D r s \<Longrightarrow> terminal (r_status r) \<Longrightarrow> terminal (r_status s)"
  by (auto simp: smooth_def terminal_def source_consts)

lemma calm_smooth: "calm_row r r' \<Longrightarrow> smooth D r r'"
  by (auto simp: calm_row_def smooth_def)

definition moves :: "'r dispatcher \<Rightarrow> uuid \<Rightarrow> db \<Rightarrow> db \<Rightarrow> bool" where
  "moves D i d d' \<longleftrightarrow> (\<forall>r. row_at i (db_tables d) = Some r \<longrightarrow>
     (\<exists>r'. row_at i (db_tables d') = Some r' \<and> smooth D r r'))"

lemma moves_refl: "moves D i d d"
  by (simp add: moves_def)

lemma moves_trans: "moves D i c d \<Longrightarrow> moves D i d e \<Longrightarrow> moves D i c e"
  unfolding moves_def using smooth_trans by meson

lemma calm_moves:
  "calm i d d' \<Longrightarrow> no_faults d \<Longrightarrow> rows_ok (db_tables d) \<Longrightarrow> no_faults d' \<and> moves D i d d'"
  unfolding calm_def moves_def using calm_smooth by meson

text \<open>The members of the delayed set that other notifications add are not its own.\<close>

lemma other_retry:
  assumes "uuid_laws L" "retry_ok (j, c, q)" "i \<noteq> j"
    and "set z' = insert (retry_member L (j, c, q), s) {e \<in> set z. fst e \<noteq> retry_member L (j, c, q)}"
    and "\<not> (\<exists>ch p. retry_ok (i, ch, p) \<and> retry_member L (i, ch, p) \<in> fst ` set z)"
  shows "\<not> (\<exists>ch p. retry_ok (i, ch, p) \<and> retry_member L (i, ch, p) \<in> fst ` set z')"
proof
  assume "\<exists>ch p. retry_ok (i, ch, p) \<and> retry_member L (i, ch, p) \<in> fst ` set z'"
  then obtain ch p where m: "retry_ok (i, ch, p)" "retry_member L (i, ch, p) \<in> fst ` set z'" by blast
  have "retry_member L (i, ch, p) \<noteq> retry_member L (j, c, q)"
    using retry_member_parses [OF assms(1) m(1)] retry_member_parses [OF assms(1,2)] assms(1,3) uuid_String_inject
    by auto
  then have "retry_member L (i, ch, p) \<in> fst ` set z" using m(2) unfolding assms(4) by auto
  then show False using assms(5) m(1) by blast
qed

lemma retry_subset:
  "set (v_zset w delayed_key) \<subseteq> set (v_zset v delayed_key) \<Longrightarrow> \<not> retry_waiting L v i \<Longrightarrow> \<not> retry_waiting L w i"
  unfolding retry_waiting_def by blast

text \<open>A world in which the notification has no retry waiting.\<close>

definition unobstructed :: "('r \<Rightarrow> view) \<Rightarrow> 'r dispatcher \<Rightarrow> uuid \<Rightarrow> 'r world \<Rightarrow> bool" where
  "unobstructed V D i w \<longleftrightarrow> no_faults (w_db w) \<and> rows_ok (db_tables (w_db w)) \<and>
     \<not> retry_waiting (d_lib D) (V (w_redis w)) i"

lemma fresh_unobstructed: "fresh_start V p n \<Longrightarrow> unobstructed V D i (pg_world p)"
  by (simp add: fresh_start_def unobstructed_def retry_waiting_def view_empty_def pg_view_def)

text \<open>
  Rounds that serve all messages there are: no shutdown, waits that end, every worker runs in every round,
  and six rounds for each message of the stream with the most unread ones and three rounds more.
\<close>

definition full_service :: "'r wiring \<Rightarrow> ('r \<Rightarrow> view) \<Rightarrow> int \<Rightarrow> event list list \<Rightarrow> 'r program \<Rightarrow> bool" where
  "full_service S V n rounds q \<longleftrightarrow> Signal \<notin> set (concat rounds) \<and> waits_end S (concat rounds) q \<and>
     (\<forall>es \<in> set rounds. fair_round (nat n) es) \<and>
     (\<forall>k \<in> set priority_streams. 6 * length (v_unread (pg_view V q) k) + 3 \<le> length rounds)"

context redis_service
begin

lemma process_moves:
  assumes "d_redis D = R" "redis_up R" "no_faults (w_db w)" "rows_ok (db_tables (w_db w))" "providers_ok D"
    and "uuid_laws (d_lib D)" "unrefused D i" "\<not> retry_waiting (d_lib D) (view_of (w_redis w)) i"
    and "w' = processMessage D turns clock aid msg w"
  shows "moves D i (w_db w) (w_db w') \<and> \<not> retry_waiting (d_lib D) (view_of (w_redis w')) i"
proof -
  let ?v = "view_of (w_redis w)" and ?v' = "view_of (w_redis w')"
  obtain j err where parse: "uuid_Parse (d_lib D) (m_notification_id msg) = (j, err)" by (metis surj_pair)
  from process_settles [OF assms(1-5) parse assms(9)]
  show ?thesis
  proof (elim conjE disjE exE, goal_cases)
    case 1
    then have "row_at i (db_tables (w_db w')) = row_at i (db_tables (w_db w))" by (cases "i = j") auto
    then show ?case using 1(3) retry_subset [OF _ assms(8), of ?v'] by (simp add: moves_def)
  next
    case (2 r r')
    have r: "row_ok r" "r_id r = j"
      using 2(3) assms(4) find_row_SomeD [of r_id j _ r] by (auto simp: row_at_def rows_ok_def)
    show ?case
    proof (cases "i = j")
      case True
      have "res_error (send (scanNotification r)) = None" if "d_providers D (r_channel r) = Some send" for send
        using assms(7) that r(2) True by (simp add: unrefused_def)
      then have "r_channel r' = r_channel r \<and> v_zset ?v' delayed_key = v_zset ?v delayed_key \<and>
          (r_status r' = StatusDelivered \<or> d_providers D (r_channel r) = None \<and> r_status r' = StatusFailed)"
        using 2(6) by (auto simp: settled_def split: option.splits)
      then show ?thesis
        using 2(3-5) True retry_subset [OF _ assms(8), of ?v'] by (auto simp: moves_def smooth_def)
    next
      case False
      have "retries view_of w' = retries view_of w \<or>
          (\<exists>s. retries view_of w' = zset_add (retry_member (d_lib D) (j, r_channel r, r_priority r)) s (retries view_of w))"
        using 2(6) r(2) by (auto simp: settled_def split: option.splits)
      then have "\<not> retry_waiting (d_lib D) ?v' i"
      proof (elim disjE exE)
        fix s
        assume "retries view_of w' = zset_add (retry_member (d_lib D) (j, r_channel r, r_priority r)) s (retries view_of w)"
        from arg_cong [OF this, of set] show ?thesis
          using other_retry [OF assms(6) row_retry_ok [OF r(1), unfolded r(2)] False _
              assms(8) [unfolded retry_waiting_def], of "v_zset ?v' delayed_key" s]
          unfolding retry_waiting_def set_zset_add by blast
      qed (use retry_subset [OF _ assms(8), of ?v'] in simp)
      then show ?thesis using 2(1) False by (simp add: moves_def)
    qed
  qed
qed

lemma read_zset:
  assumes "redis_up R"
  shows "v_zset (view_of (snd (ReadMessages R cn c b r))) = v_zset (view_of r) \<or> c \<le> 0"
proof -
  obtain x q where read: "xreadgroup R ConsumerGroup cn
      (priority_streams @ map (\<lambda>_. ''>'') priority_streams) c b r = (x, q)" by (metis surj_pair)
  have "v_zset (view_of q) = v_zset (view_of r)" if "0 < c"
  proof (cases x)
    case (Inl e)
    moreover have "e = RedisNil"
      using assms read Inl unfolding redis_up_def by (cases e) blast+
    ultimately show ?thesis using xread_nil_law [of cn priority_streams c b r q] read by simp
  next
    case (Inr res)
    then show ?thesis
      using xread_law [of cn priority_streams c b r res q] read that by (simp add: view_xread_def)
  qed
  then show ?thesis
    using read by (auto simp: ReadMessages_def Let_def split: sum.splits redis_error.splits)
qed

lemma batch_zset:
  assumes "d_redis D = R" "redis_up R"
  shows "set (v_zset (view_of (processDelayedBatch D clock r)) delayed_key) \<subseteq> set (v_zset (view_of r) delayed_key)"
proof -
  let ?due = "zset_due (UnixMilli clock) 50 (v_zset (view_of r) delayed_key)"
  obtain q where f: "pop_fetch R (UnixMilli clock) 50 r = (Inr ?due, q)" "view_of q = view_of r"
    using pop_fetch_up [OF assms(2)] by blast
  have run: "processDelayedBatch D clock r = fold (reenqueue D) ?due (pop_remove R ?due q)"
    using assms(1) f(1) by (simp add: processDelayedBatch_def PopDelayedDue_def)
  have "v_zset (view_of (processDelayedBatch D clock r)) = v_zset (view_of (pop_remove R ?due q))"
    unfolding run
    by (rule keeps_fold) (simp_all add: reenqueue_def Let_def assms(1) zset_calls [OF assms(2)] split: option.splits)
  then show ?thesis by (auto simp: pop_remove_view [OF assms(2)] f(2) view_zrem_def)
qed

text \<open>One step of the program, and any number of them.\<close>

lemma unobstructed_step:
  assumes "d_redis D = R" "redis_up R" "providers_ok D" "uuid_laws (d_lib D)" "unrefused D i"
    and "sys_step D m w w'" "unobstructed view_of D i w"
  shows "unobstructed view_of D i w' \<and> moves D i (w_db w) (w_db w')"
proof -
  have d: "no_faults (w_db w)" "rows_ok (db_tables (w_db w))"
    and free: "\<not> retry_waiting (d_lib D) (view_of (w_redis w)) i"
    using assms(7) by (simp_all add: unobstructed_def)
  have rows': "rows_ok (db_tables (w_db w'))" using rows.inv_sys_step [OF assms(6) d(2)] .
  have quiet: ?thesis if "calm i (w_db w) (w_db w')" "set (retries view_of w') \<subseteq> set (retries view_of w)"
    using calm_moves [OF that(1) d] retry_subset [OF that(2) free] rows' by (simp add: unobstructed_def)
  have created: "set (retries view_of (w\<lparr>w_db := d', w_redis := q\<rparr>)) \<subseteq> set (retries view_of w)"
    if "NotificationService_Create (d_lib D) (Some (Enqueue (d_lib D) (d_redis D))) m clock j req (w_db w) (w_redis w) = (res, d', q)"
    for clock j req res d' q
    using keeps_Create [OF delayed_keeps [OF assms(2)] refl that [unfolded assms(1)]] by simp
  have batched: "set (retries view_of (w\<lparr>w_db := d', w_redis := q\<rparr>)) \<subseteq> set (retries view_of w)"
    if "NotificationService_CreateBatch (d_lib D) (Some (Enqueue (d_lib D) (d_redis D))) m clock b uuids reqs (w_db w) (w_redis w) = (res, d', q)"
    for clock b uuids reqs res d' q
    using keeps_CreateBatch [OF delayed_keeps [OF assms(2)] refl that [unfolded assms(1)]] by simp
  from assms(6) show ?thesis
  proof cases
    case (sys_process turns clock aid msg)
    then show ?thesis
      using process_moves [OF assms(1,2) d assms(3-5) free] rows' d(1) by (simp add: unobstructed_def process_faults)
  next
    case (sys_read cn blocktime)
    then show ?thesis
      using read_zset [OF assms(2), of cn 1 blocktime "w_redis w"] assms(1) by (intro quiet) (auto simp: same_calm)
  next
    case (sys_delayed now)
    then show ?thesis using batch_zset [OF assms(1,2), of now "w_redis w"] by (intro quiet) (simp_all add: same_calm)
  next
    case (sys_poll bsize locked now d' q)
    then show ?thesis using poll_zset [OF assms(2)] poll_calm assms(1) by (intro quiet) auto
  next
    case (sys_create clock j req res d' q)
    then show ?thesis using created create_calm by (intro quiet) auto
  next
    case (sys_create_batch clock b uuids reqs res d' q)
    then show ?thesis using batched batch_calm by (intro quiet) auto
  qed (rule quiet;
      auto simp: NotificationService_GetByID_def NotificationService_List_def TemplateService_GetByID_def
        TemplateService_List_def TemplateService_Delete_def read_same template_same template_service_same
        attempts_same cancel_calm intro: same_calm)+
qed

lemma unobstructed_steps:
  assumes "d_redis D = R" "redis_up R" "providers_ok D" "uuid_laws (d_lib D)" "unrefused D i"
    and "(sys_step D m)\<^sup>*\<^sup>* w w'" "unobstructed view_of D i w"
  shows "unobstructed view_of D i w' \<and> moves D i (w_db w) (w_db w')"
  using assms(6)
proof (induction rule: rtranclp_induct)
  case (step u v)
  then show ?case using unobstructed_step [OF assms(1-5) step.hyps(2)] moves_trans by blast
qed (simp add: assms(7) moves_refl)

lemma unobstructed_event:
  assumes "trusted S" "unrefused (wi_dispatcher S) i" "unobstructed view_of (wi_dispatcher S) i (pg_world p)"
  shows "unobstructed view_of (wi_dispatcher S) i (pg_world (apply_event S e p)) \<and>
    moves (wi_dispatcher S) i (w_db (pg_world p)) (w_db (pg_world (apply_event S e p)))"
  using unobstructed_steps [OF _ _ _ _ assms(2) sys_event assms(3)] assms(1) by blast

lemma unobstructed_run:
  assumes "trusted S" "unrefused (wi_dispatcher S) i" "unobstructed view_of (wi_dispatcher S) i (pg_world p)"
  shows "unobstructed view_of (wi_dispatcher S) i (pg_world (run_events S es p)) \<and>
    moves (wi_dispatcher S) i (w_db (pg_world p)) (w_db (pg_world (run_events S es p)))"
  using assms(3)
proof (induction es arbitrary: p)
  case (Cons e es)
  then show ?case
    using unobstructed_event [OF assms(1,2) Cons.prems, of e] Cons.IH [of "apply_event S e p"] moves_trans
    by (metis run_events_simps(2))
qed (simp add: moves_refl)

section \<open>The message and its notification\<close>

text \<open>Once the entry is gone the notification it names is finished, and stays so.\<close>

lemma gone_finished:
  assumes "trusted S" "unrefused (wi_dispatcher S) i" "account_ok S view_of p"
    and "unobstructed view_of (wi_dispatcher S) i (pg_world p)"
    and "names (d_lib (wi_dispatcher S)) i e" "row_at i (pg_tables p) = Some r"
    and "e \<in> in_stream (pg_view view_of p) k \<or> terminal (r_status r)"
  shows "e \<in> in_stream (pg_view view_of (run_events S es p)) k \<or>
    (\<exists>r'. row_at i (pg_tables (run_events S es p)) = Some r' \<and> terminal (r_status r'))"
  using assms(3,4,6,7)
proof (induction es arbitrary: p r)
  case (Cons a es)
  let ?p = "apply_event S a p"
  have acc: "account_ok S view_of ?p" "fates S view_of p ?p"
    using account_event [OF assms(1) Cons.prems(1)] by blast+
  note next' = unobstructed_event [OF assms(1,2) Cons.prems(2), of a]
  obtain r1 where r1: "row_at i (pg_tables ?p) = Some r1" "smooth (wi_dispatcher S) r r1"
    using next' Cons.prems(3) unfolding moves_def by blast
  have "\<not> retry_waiting (d_lib (wi_dispatcher S)) (pg_view view_of ?p) i"
    using next' by (simp add: unobstructed_def pg_view_def)
  then have "e \<in> in_stream (pg_view view_of ?p) k \<or> terminal (r_status r1)"
    using Cons.prems(4) acc(2) r1 assms(5) smooth_terminal unfolding fates_def entry_fate_def by blast
  then show ?case using Cons.IH [OF acc(1) _ r1(1)] next' by simp
qed auto

lemma unread_handled:
  assumes "serves S" "orderly view_of p" "\<not> pg_done p" "Signal \<notin> set (es @ es')" "waits_end S (es @ es') p"
    and "k \<in> set priority_streams" "e \<in> in_stream (pg_view view_of p) k" "pg_pool p \<noteq> []"
    and "6 * length (v_unread (pg_view view_of p) k) \<le> turns_of 0 es" "\<forall>j < length (pg_pool p). 3 \<le> turns_of j es'"
  shows "e \<notin> in_stream (pg_view view_of (run_events S (es @ es') p)) k"
proof -
  let ?v = "pg_view view_of p" and ?q = "run_events S (es @ es') p"
  have gone: "e \<notin> in_stream (pg_view view_of ?q) k"
    if "taken (pg_view view_of ?q) (k, fst e)" "(k, fst e) \<notin> pending_keys (pg_view view_of ?q)"
  proof
    assume "e \<in> in_stream (pg_view view_of ?q) k"
    then have "fst e \<in> ids (v_unread (pg_view view_of ?q) k) \<or> fst e \<in> ids (v_pending (pg_view view_of ?q) k)"
      unfolding in_stream_def by (metis UnE imageI)
    then show False using that by (simp add: taken_def pending_keys_def)
  qed
  show ?thesis
  proof (cases "e \<in> set (v_unread ?v k)")
    case True
    then obtain older newer where u: "v_unread ?v k = older @ e # newer" by (metis split_list)
    then have "6 * length older + 6 \<le> turns_of 0 es" using assms(9) by simp
    from message_handled [OF assms(1-6) u assms(8) this assms(10)] show ?thesis using gone by blast
  next
    case False
    then have pend: "e \<in> set (v_pending ?v k)" using assms(7) by (simp add: in_stream_def)
    have ids: "entries_ok (v_pending ?v k) (v_unread ?v k) (v_log ?v k)"
      using assms(2) by (simp add: orderly_def consumption_ok_def ids_ok_def)
    have "fst e \<in> ids (v_pending ?v k)" using pend by (rule imageI)
    then have "taken ?v (k, fst e)" using ids unfolding entries_ok_def taken_def fst_conv snd_conv by blast
    note taken = taken_run [OF assms(1,2) this, of "es @ es'"]
    have parts: "Signal \<notin> set es" "Signal \<notin> set es'" "waits_end S es p" "waits_end S es' (run_events S es p)"
      using assms(4,5) by auto
    have later: "orderly view_of (run_events S es p)" "\<not> pg_done (run_events S es p)"
      using orderly_run [OF assms(1,2)] assms(3) parts(1) by (simp_all add: done_run)
    have "taken (pg_view view_of (run_events S es p)) (k, fst e)"
      using taken_run [OF assms(1,2) \<open>taken ?v (k, fst e)\<close>] by blast
    from handled_in_time [OF assms(1) later parts(2,4) this] assms(10)
    show ?thesis using gone taken by simp
  qed
qed

lemma rounds_handle:
  assumes "serves S" "orderly view_of q" "\<not> pg_done q" "length (pg_pool q) = nat n" "1 \<le> n"
    and "full_service S view_of n rounds q" "k \<in> set priority_streams" "e \<in> in_stream (pg_view view_of q) k"
  shows "e \<notin> in_stream (pg_view view_of (run_events S (concat rounds) q)) k"
proof -
  let ?m = "6 * length (v_unread (pg_view view_of q) k)"
  let ?es = "concat (take ?m rounds)" and ?es' = "concat (drop ?m rounds)"
  have full: "Signal \<notin> set (concat rounds)" "waits_end S (concat rounds) q" "\<forall>r \<in> set rounds. fair_round (nat n) r"
    and len: "?m + 3 \<le> length rounds"
    using assms(6,7) unfolding full_service_def by blast+
  have some: "pg_pool q \<noteq> []" using assms(4,5) by (metis length_0_conv nat_0_iff not_one_le_zero order_trans)
  have rounds: "?es @ ?es' = concat rounds" by (metis append_take_drop_id concat_append)
  have fair: "\<forall>r \<in> set (take ?m rounds). fair_round (nat n) r" "\<forall>r \<in> set (drop ?m rounds). fair_round (nat n) r"
    using full(3) in_set_takeD in_set_dropD by metis+
  have "?m \<le> turns_of 0 ?es" using turns_of_rounds [OF fair(1), of 0] assms(5) len by simp
  moreover have "\<forall>j < length (pg_pool q). 3 \<le> turns_of j ?es'"
    using turns_of_rounds [OF fair(2)] len unfolding assms(4) by fastforce
  ultimately show ?thesis
    using unread_handled [OF assms(1-3) _ _ assms(7,8) some, of ?es ?es'] full(1,2) unfolding rounds by blast
qed

end

section \<open>Delivered in the end\<close>


lemma demo_unrefused: "unrefused (wi_dispatcher demo_wiring) i"
  by (simp add: unrefused_def demo_wiring_def demo_dispatcher_def demo_send_error)


end
