(* ===== verification/Finishing.thy ===== *)
theory Finishing
  imports Completion
begin

text \<open>
  From the queue to a final state, refusals included: every cycle of a delayed tick and of rounds in which
  the workers empty the streams spends some of the budget of a notification, so that it is delivered,
  failed or cancelled after as many cycles as it has attempts left.
\<close>

section \<open>The budget of a row only shrinks\<close>

definition wears :: "uuid \<Rightarrow> db \<Rightarrow> db \<Rightarrow> bool" where
  "wears i d d' \<longleftrightarrow> (\<forall>r. row_at i (db_tables d) = Some r \<longrightarrow>
     (\<exists>r'. row_at i (db_tables d') = Some r' \<and> budget r' \<le> budget r \<and>
       (r_status r \<noteq> StatusScheduled \<longrightarrow> r_status r' \<noteq> StatusScheduled)))"

lemma wears_refl: "wears i d d"
  by (simp add: wears_def)

lemma wears_trans: "wears i c d \<Longrightarrow> wears i d e \<Longrightarrow> wears i c e"
  unfolding wears_def using le_trans by meson

lemma calm_wears:
  "calm i d d' \<Longrightarrow> no_faults d \<Longrightarrow> rows_ok (db_tables d) \<Longrightarrow> no_faults d' \<and> wears i d d'"
proof -
  have "calm_row r r' \<Longrightarrow> r_status r \<noteq> StatusScheduled \<longrightarrow> r_status r' \<noteq> StatusScheduled" for r r'
    by (auto simp: calm_row_def source_consts)
  then show "calm i d d' \<Longrightarrow> no_faults d \<Longrightarrow> rows_ok (db_tables d) \<Longrightarrow> no_faults d' \<and> wears i d d'"
    unfolding calm_def wears_def using calm_budget by meson
qed

lemma budget_0: "budget r = 0 \<longleftrightarrow> terminal (r_status r)"
  using budget_pos [of r] by (auto simp: budget_def)

lemma settled_status: "settled D r r' z z' \<Longrightarrow> r_status r' \<noteq> StatusScheduled"
  by (auto simp: settled_def source_consts split: option.splits)

abbreviation sound_db :: "'r world \<Rightarrow> bool" where
  "sound_db w \<equiv> no_faults (w_db w) \<and> rows_ok (db_tables (w_db w))"

context redis_service
begin

lemma process_wears:
  assumes "d_redis D = R" "redis_up R" "sound_db w" "providers_ok D"
  shows "wears i (w_db w) (w_db (processMessage D turns clock aid msg w))"
proof -
  let ?w = "processMessage D turns clock aid msg w"
  obtain j err where parse: "uuid_Parse (d_lib D) (m_notification_id msg) = (j, err)" by (metis surj_pair)
  from process_settles [OF assms(1,2) _ _ assms(4) parse refl] assms(3)
  have "row_at i (db_tables (w_db ?w)) = row_at i (db_tables (w_db w)) \<or>
      (\<exists>r r'. row_at i (db_tables (w_db w)) = Some r \<and> row_at i (db_tables (w_db ?w)) = Some r' \<and>
        settled D r r' (retries view_of w) (retries view_of ?w))"
    by (cases "i = j") blast+
  then show ?thesis
  proof (elim disjE exE conjE)
    fix r r'
    assume r: "row_at i (db_tables (w_db w)) = Some r" "row_at i (db_tables (w_db ?w)) = Some r'"
      and s: "settled D r r' (retries view_of w) (retries view_of ?w)"
    have "budget r' \<le> budget r" using s by (simp add: settled_def)
    then show ?thesis using r settled_status [OF s] by (simp add: wears_def)
  qed (simp add: wears_def)
qed

lemma wears_step:
  assumes "d_redis D = R" "redis_up R" "providers_ok D" "sys_step D m w w'" "sound_db w"
  shows "sound_db w' \<and> wears i (w_db w) (w_db w')"
proof -
  have "rows_ok (db_tables (w_db w'))" using rows.inv_sys_step [OF assms(4)] assms(5) by blast
  moreover have "no_faults (w_db w') \<and> wears i (w_db w) (w_db w')"
    using sys_step_calm [OF assms(4)]
  proof (elim disjE exE conjE)
    fix turns clock aid msg
    assume "w' = processMessage D turns clock aid msg w"
    then show ?thesis using process_wears [OF assms(1,2,5,3)] assms(5) by (simp add: process_faults)
  next
    assume "\<forall>i. calm i (w_db w) (w_db w')"
    then show ?thesis using calm_wears assms(5) by blast
  qed
  ultimately show ?thesis by blast
qed

lemma wears_run:
  assumes "trusted S" "sound_db (pg_world p)"
  shows "sound_db (pg_world (run_events S es p)) \<and> wears i (w_db (pg_world p)) (w_db (pg_world (run_events S es p)))"
  using assms(2)
proof (induction es arbitrary: p)
  case (Cons e es)
  have "sound_db (pg_world (apply_event S e p)) \<and> wears i (w_db (pg_world p)) (w_db (pg_world (apply_event S e p)))"
    using sys_event [of S p e]
  proof (induction rule: rtranclp_induct)
    case (step u v)
    then show ?case using wears_step [OF _ _ _ step.hyps(2)] assms(1) wears_trans by blast
  qed (use Cons.prems in \<open>simp add: wears_refl\<close>)
  then show ?case using Cons.IH wears_trans by (metis run_events_simps(2))
qed (simp add: wears_refl)

lemma account_sound: "account_ok S view_of p \<Longrightarrow> sound_db (pg_world p)"
  by (simp add: account_ok_def tracked_def)

text \<open>Once a message is gone, the notification it names has spent some of its budget.\<close>

lemma gone_spends:
  assumes "trusted S" "account_ok S view_of p" "names (d_lib (wi_dispatcher S)) i e"
    and "row_at i (pg_tables p) = Some r" "e \<in> in_stream (pg_view view_of p) k"
  shows "e \<in> in_stream (pg_view view_of (run_events S es p)) k \<or>
    (\<exists>r'. row_at i (pg_tables (run_events S es p)) = Some r' \<and> (budget r' < budget r \<or> budget r' = 0))"
  using assms(2,4,5)
proof (induction es arbitrary: p r)
  case (Cons a es)
  let ?p = "apply_event S a p"
  have acc: "account_ok S view_of ?p" "fates S view_of p ?p"
    using account_event [OF assms(1) Cons.prems(1)] by blast+
  obtain r1 where r1: "row_at i (pg_tables ?p) = Some r1" "budget r1 \<le> budget r"
    using wears_run [OF assms(1) account_sound [OF Cons.prems(1)], of "[a]" i] Cons.prems(2)
    by (auto simp: wears_def simp del: apply_event.simps)
  show ?case
  proof (cases "e \<in> in_stream (pg_view view_of ?p) k")
    case True
    then show ?thesis using Cons.IH [OF acc(1) r1(1)] r1(2) by fastforce
  next
    case False
    then have less: "budget r1 < budget r \<or> budget r = 0"
      using acc(2) Cons.prems(2,3) r1(1) assms(3) unfolding fates_def entry_fate_def by metis
    obtain r2 where "row_at i (pg_tables (run_events S es ?p)) = Some r2" "budget r2 \<le> budget r1"
      using wears_run [OF assms(1) account_sound [OF acc(1)], of es i] r1(1) unfolding wears_def by blast
    then show ?thesis using less r1(2) by auto
  qed
qed simp

end

section \<open>Ticks\<close>

text \<open>The ticker of the delayed set goes on as long as there is no shutdown.\<close>

lemma ticking_run:
  "pg_delayed p = Ticking \<Longrightarrow> \<not> pg_done p \<Longrightarrow> Signal \<notin> set es \<Longrightarrow> pg_delayed (run_events S es p) = Ticking"
proof (induction es arbitrary: p)
  case (Cons e es)
  have "pg_delayed (apply_event S e p) = Ticking \<and> \<not> pg_done (apply_event S e p)"
    using Cons.prems by (cases e) (auto simp: ProcessDelayed_def tick_loop_def split: prod.splits)
  then show ?case using Cons.IH Cons.prems(3) by simp
qed simp

text \<open>The next batch at time \<open>clock\<close> includes whatever retry of the notification is waiting.\<close>

definition tick_takes :: "lib \<Rightarrow> view \<Rightarrow> uuid \<Rightarrow> time \<Rightarrow> bool" where
  "tick_takes L v i clock \<longleftrightarrow> (\<forall>ch p. retry_ok (i, ch, p) \<longrightarrow>
     retry_member L (i, ch, p) \<in> fst ` set (v_zset v delayed_key) \<longrightarrow>
     retry_member L (i, ch, p) \<in> set (zset_due (UnixMilli clock) 50 (v_zset v delayed_key)))"

context redis_service
begin

lemma tick_queues:
  assumes "trusted S" "account_ok S view_of p" "pg_delayed p = Ticking" "\<not> pg_done p"
    and "tick_takes (d_lib (wi_dispatcher S)) (pg_view view_of p) i clock"
    and "underway (d_lib (wi_dispatcher S)) (pg_view view_of p) i"
  shows "message_queued (d_lib (wi_dispatcher S)) (pg_view view_of (apply_event S (Delayed clock False) p)) i"
proof -
  let ?D = "wi_dispatcher S" and ?r = "w_redis (pg_world p)"
  have tick: "pg_view view_of (apply_event S (Delayed clock False) p) = view_of (processDelayedBatch ?D clock ?r)"
    using assms(3,4) by (simp add: ProcessDelayed_def tick_loop_def pg_view_def)
  have ok: "delayed_ok (d_lib ?D) (view_of ?r)"
    using assms(2) by (simp add: account_ok_def tracked_def)
  consider "message_queued (d_lib ?D) (view_of ?r) i" | "retry_waiting (d_lib ?D) (view_of ?r) i"
    using assms(6) unfolding underway_def pg_view_def by blast
  then show ?thesis
  proof cases
    case 1
    then show ?thesis
      using message_steps [OF steps_processDelayedBatch] assms(1) unfolding tick by blast
  next
    case 2
    then obtain ch q where "retry_ok (i, ch, q)"
      "retry_member (d_lib ?D) (i, ch, q) \<in> set (zset_due (UnixMilli clock) 50 (v_zset (view_of ?r) delayed_key))"
      using assms(5) unfolding retry_waiting_def tick_takes_def pg_view_def by blast
    then show ?thesis using delayed_batch_moves [of ?D ?r i ch q clock] assms(1) ok unfolding tick by blast
  qed
qed

end

section \<open>Cycles\<close>

text \<open>
  A cycle: any events, then a tick of the delayed set that takes the retry of the notification when one is
  waiting, then rounds that serve all messages there are.
\<close>

type_synonym cycle = "event list \<times> time \<times> event list list"

fun retry_cycles :: "'r wiring \<Rightarrow> ('r \<Rightarrow> view) \<Rightarrow> int \<Rightarrow> uuid \<Rightarrow> cycle list \<Rightarrow> 'r program \<Rightarrow> bool" where
  "retry_cycles S V n i [] p \<longleftrightarrow> True"
| "retry_cycles S V n i ((es, clock, rounds) # cs) p \<longleftrightarrow>
     (let q = run_events S es p; q' = apply_event S (Delayed clock False) q in
      Signal \<notin> set es \<and> tick_takes (d_lib (wi_dispatcher S)) (pg_view V q) i clock \<and>
      full_service S V n rounds q' \<and> retry_cycles S V n i cs (run_events S (concat rounds) q'))"

fun cycle_events :: "cycle list \<Rightarrow> event list" where
  "cycle_events [] = []"
| "cycle_events ((es, clock, rounds) # cs) = es @ Delayed clock False # concat rounds @ cycle_events cs"

context redis_service
begin

lemma cycle_spends:
  assumes "trusted S" "account_ok S view_of p" "orderly view_of p" "pg_delayed p = Ticking" "\<not> pg_done p"
    and "length (pg_pool p) = nat n" "1 \<le> n" "row_at i (pg_tables p) = Some r" "r_status r \<noteq> StatusScheduled"
    and "tick_takes (d_lib (wi_dispatcher S)) (pg_view view_of p) i clock"
    and "q = apply_event S (Delayed clock False) p" "full_service S view_of n rounds q"
  shows "\<exists>r'. row_at i (pg_tables (run_events S (concat rounds) q)) = Some r' \<and>
    budget r' \<le> budget r - 1 \<and> r_status r' \<noteq> StatusScheduled"
proof -
  let ?L = "d_lib (wi_dispatcher S)" and ?q' = "run_events S (concat rounds) q"
  have run: "q = run_events S [Delayed clock False] p" by (simp add: assms(11))
  have acc: "account_ok S view_of q" unfolding run by (rule account_run [OF assms(1,2)])
  have q: "orderly view_of q" "\<not> pg_done q" "length (pg_pool q) = nat n" "pg_tables q = pg_tables p"
    using orderly_run [OF _ assms(3), of S "[Delayed clock False]"] assms(1,4,5,6)
    by (simp_all add: run ProcessDelayed_def tick_loop_def)
  obtain r' where r': "row_at i (pg_tables ?q') = Some r'" "budget r' \<le> budget r" "r_status r' \<noteq> StatusScheduled"
    using wears_run [OF assms(1) account_sound [OF acc], of "concat rounds" i] assms(8,9) unfolding wears_def q(4) by blast
  have "budget r' < budget r \<or> budget r' = 0"
  proof (cases "terminal (r_status r)")
    case True
    then show ?thesis using r'(2) by (simp add: budget_0 [symmetric])
  next
    case False
    then have "underway ?L (pg_view view_of p) i"
      using assms(2,8,9) by (auto simp: account_ok_def tracked_def accounted_def pg_view_def)
    from tick_queues [OF assms(1,2,4,5,10) this]
    obtain k e where e: "k \<in> set priority_streams" "e \<in> in_stream (pg_view view_of q) k" "names ?L i e"
      unfolding message_queued_def assms(11) by blast
    have "e \<notin> in_stream (pg_view view_of ?q') k"
      using rounds_handle [OF _ q(1-3) assms(7,12) e(1,2)] assms(1) by blast
    then show ?thesis
      using gone_spends [OF assms(1) acc e(3) assms(8) [folded q(4)] e(2), of "concat rounds"] r'(1) by simp
  qed
  then show ?thesis using r' by (intro exI [of _ r']) auto
qed

lemma cycles_spend:
  assumes "trusted S" "1 \<le> n" "account_ok S view_of p" "orderly view_of p" "pg_delayed p = Ticking" "\<not> pg_done p"
    and "length (pg_pool p) = nat n" "row_at i (pg_tables p) = Some r" "r_status r \<noteq> StatusScheduled"
    and "retry_cycles S view_of n i cs p"
  shows "\<exists>r'. row_at i (pg_tables (run_events S (cycle_events cs) p)) = Some r' \<and> budget r' \<le> budget r - length cs"
  using assms(3-10)
proof (induction cs arbitrary: p r)
  case (Cons c cs)
  obtain es clock rounds where c: "c = (es, clock, rounds)" by (metis surj_pair)
  let ?p = "run_events S es p" and ?ev = "Delayed clock False"
  let ?q = "apply_event S ?ev ?p" and ?q' = "run_events S (concat rounds) (apply_event S ?ev ?p)"
  have cyc: "Signal \<notin> set es" "tick_takes (d_lib (wi_dispatcher S)) (pg_view view_of ?p) i clock"
    "full_service S view_of n rounds ?q" "retry_cycles S view_of n i cs ?q'"
    using Cons.prems(8) by (simp_all add: c Let_def)
  have run: "?q' = run_events S (es @ ?ev # concat rounds) p" by simp
  have quiet: "Signal \<notin> set (es @ ?ev # concat rounds)" using cyc(1,3) by (simp add: full_service_def)
  obtain r1 where r1: "row_at i (pg_tables ?p) = Some r1" "budget r1 \<le> budget r" "r_status r1 \<noteq> StatusScheduled"
    using wears_run [OF assms(1) account_sound [OF Cons.prems(1)], of es i] Cons.prems(6,7) unfolding wears_def by blast
  have serves: "serves S" using assms(1) by blast
  have p: "account_ok S view_of ?p" "orderly view_of ?p" "pg_delayed ?p = Ticking" "\<not> pg_done ?p" "length (pg_pool ?p) = nat n"
    using account_run [OF assms(1) Cons.prems(1)] orderly_run [OF serves Cons.prems(2)]
      ticking_run [OF Cons.prems(3,4) cyc(1)] Cons.prems(4,5) cyc(1) by (simp_all add: done_run)
  from cycle_spends [OF assms(1) p assms(2) r1(1,3) cyc(2) refl cyc(3)]
  obtain r2 where r2: "row_at i (pg_tables ?q') = Some r2" "budget r2 \<le> budget r1 - 1" "r_status r2 \<noteq> StatusScheduled"
    by blast
  have q': "account_ok S view_of ?q'" "orderly view_of ?q'" "pg_delayed ?q' = Ticking" "\<not> pg_done ?q'" "length (pg_pool ?q') = nat n"
    unfolding run using account_run [OF assms(1) Cons.prems(1)] orderly_run [OF serves Cons.prems(2)]
      ticking_run [OF Cons.prems(3,4) quiet] Cons.prems(4,5) quiet by (simp_all add: done_run del: run_events_simps)
  from Cons.IH [OF q' r2(1,3) cyc(4)] show ?case using r1(2) r2(2) by (fastforce simp: c)
qed simp

end

section \<open>Finished in the end\<close>


text \<open>A provider that answers 503, and a due notification with one attempt left.\<close>

definition refusing_wiring :: "redis_state wiring" where
  "refusing_wiring = demo_wiring\<lparr>wi_dispatcher := demo_dispatcher False\<rparr>"

definition last_try :: "redis_state program" where
  "last_try = demo_program [demo_row 2 ''scheduled''] ref_empty 1"

lemma last_try_fresh: "fresh_start state_view last_try 1"
  using demo_row_ok [of "''scheduled''" 2]
  by (simp add: fresh_start_def last_try_def demo_program_def demo_world_def pg_view_def source_consts)

lemma last_try_polled:
  "row_at 1 (pg_tables (run_events refusing_wiring [Scheduler [] 5 False] last_try)) =
     Some (pending_row 5 (demo_row 2 ''scheduled''))"
  "v_zset (pg_view state_view (run_events refusing_wiring [Scheduler [] 5 False] last_try)) delayed_key = []"
  by (simp_all add: last_try_def demo_program_def Scheduler_Run_def tick_loop_def Scheduler_start_def NewTicker_def
      NewScheduler_def refusing_wiring_def demo_wiring_def Scheduler_poll_def repo_FetchScheduledDue_def
      pg_query_faultless rows_seen_def sql_fetch_due_def due_selection_def due_row_def update_rows_def Let_def
      demo_dispatcher_def demo_row_def demo_world_def pending_row_def row_at_def pg_view_def enqueue_due_def
      scanNotification_def Enqueue_def redis_ref_def source_consts view_defs view_empty_def)


end
