(* ===== verification/Handler_Steps.thy ===== *)
theory Handler_Steps
  imports Processing Workers
begin

text \<open>
  \<open>processMessage\<close> one call at a time: a state machine whose states are the points between two calls to
  Redis, to Postgres, to the limiter or to the provider, with the local variables that are live
  there. Its runs are exactly the outcomes of the function \<open>processMessage\<close>, and it also says what is
  left when the worker stops between two calls, or when its context is done.
\<close>

section \<open>The points of a handler\<close>

text \<open>
  Each state is named after the call that comes next; \<open>AtReturn\<close> is the end of \<open>processMessage\<close>.
\<close>

datatype handler =
    AtParse
  | AtAllow uuid
  | AtSleep uuid
  | AtFetch uuid
  | AtMark notification
  | AtRefuse notification
  | AtSend notification "notification \<Rightarrow> result"
  | AtIncrement notification result
  | AtRecord notification result
  | AtOutcome notification result
  | AtDelivered notification
  | AtAckDelivered notification
  | AtAnnounce notification
  | AtQueued notification string time
  | AtDelay notification time
  | AtAnnounceRetry notification time
  | AtFailed notification string
  | AtBury notification string
  | AtAnnounceFailed notification
  | AtAck
  | AtReturn

text \<open>
  What one step takes from outside: the clock, the draw of the limiter's script, which side a \<open>select\<close>
  takes when both are ready, and the identifier of a new row.
\<close>

record moment =
  mo_now :: time
  mo_random :: int
  mo_cut :: bool
  mo_attempt :: uuid

text \<open>
  A call made with a context that is done fails and has no effect: pgx, go-redis and net/http ask the
  context before they send anything. A call is made as a whole, before the signal or after it.
\<close>

definition calling :: "bool \<Rightarrow> ('r world \<Rightarrow> 'r world) \<Rightarrow> 'r world \<Rightarrow> 'r world" where
  "calling ctx_done f w = (if ctx_done then w else f w)"

definition context_cancelled :: result where
  "context_cancelled = \<lparr>res_status_code = 0, res_body = '''', res_error = Some (Plain ''context canceled''),
     res_duration_ms = 0\<rparr>"

fun handler_step ::
  "'r dispatcher \<Rightarrow> bool \<Rightarrow> moment \<Rightarrow> message \<Rightarrow> handler \<Rightarrow> 'r world \<Rightarrow> handler \<times> 'r world" where
  "handler_step D ctx_done x msg AtParse w =
     (case uuid_Parse (d_lib D) (m_notification_id msg) of
        (_, Some err) \<Rightarrow> (AtAck, w)
      | (notificationID, None) \<Rightarrow> (AtAllow notificationID, w))"
| "handler_step D ctx_done x msg (AtAllow i) w =
     (if ctx_done then (AtFetch i, w)
      else case Allow (d_redis D) (d_limiter D) (m_channel msg) (mo_now x) (mo_random x) (w_redis w) of
        (Inl err, r) \<Rightarrow> (AtFetch i, w\<lparr>w_redis := r\<rparr>)
      | (Inr allowed, r) \<Rightarrow> (if allowed then AtFetch i else AtSleep i, w\<lparr>w_redis := r\<rparr>))"
| "handler_step D ctx_done x msg (AtSleep i) w =
     (if ctx_done \<and> mo_cut x then AtReturn else AtAllow i, w)"
| "handler_step D ctx_done x msg (AtFetch i) w =
     (if ctx_done then (AtAck, w)
      else case repo_GetByID i (w_db w) of
        (Inl err, d) \<Rightarrow> (AtAck, w\<lparr>w_db := d\<rparr>)
      | (Inr n, d) \<Rightarrow> (if terminal (n_status n) then AtAck else AtMark n, w\<lparr>w_db := d\<rparr>))"
| "handler_step D ctx_done x msg (AtMark n) w =
     (case d_providers D (n_channel n) of None \<Rightarrow> AtRefuse n | Some send \<Rightarrow> AtSend n send,
      calling ctx_done (set_status (mo_now x) (n_id n) StatusProcessing '''') w)"
| "handler_step D ctx_done x msg (AtRefuse n) w =
     (AtAck, calling ctx_done
        (set_status (mo_now x) (n_id n) StatusFailed (''no provider for channel: '' @ n_channel n)) w)"
| "handler_step D ctx_done x msg (AtSend n send) w =
     (if ctx_done then (AtIncrement n context_cancelled, w)
      else (AtIncrement n (send n), w\<lparr>w_sent := w_sent w @ [n]\<rparr>))"
| "handler_step D ctx_done x msg (AtIncrement n res) w =
     (AtRecord n res, calling ctx_done (\<lambda>w. w\<lparr>w_db := snd (repo_IncrementAttempt (mo_now x) (n_id n) (w_db w))\<rparr>) w)"
| "handler_step D ctx_done x msg (AtRecord n res) w =
     (AtOutcome n res, calling ctx_done (\<lambda>w. w\<lparr>w_db := snd (repo_CreateDeliveryAttempt (mo_now x) (mo_attempt x)
        (new_attempt n res) (w_db w))\<rparr>) w)"
| "handler_step D ctx_done x msg (AtOutcome n res) w =
     (case res_error res of
        None \<Rightarrow> AtDelivered n
      | Some err \<Rightarrow>
         (if ShouldRetry (n_attempt_count n + 1) (n_max_retries n)
          then AtQueued n (error_text err) (RetryAt (mo_now x) (n_attempt_count n + 1))
          else AtFailed n (error_text err)), w)"
| "handler_step D ctx_done x msg (AtDelivered n) w =
     (AtAckDelivered n, calling ctx_done (set_status (mo_now x) (n_id n) StatusDelivered '''') w)"
| "handler_step D ctx_done x msg (AtAckDelivered n) w = (AtAnnounce n, calling ctx_done (ack_message D msg) w)"
| "handler_step D ctx_done x msg (AtAnnounce n) w =
     (AtReturn, broadcast D (n_id n) ''delivered'' (count_processed (n_channel n) ''delivered'' w))"
| "handler_step D ctx_done x msg (AtQueued n errMsg retryAt) w =
     (AtDelay n retryAt, calling ctx_done (set_status (mo_now x) (n_id n) StatusQueued errMsg) w)"
| "handler_step D ctx_done x msg (AtDelay n retryAt) w =
     (AtAnnounceRetry n retryAt, calling ctx_done (\<lambda>w. w\<lparr>w_redis := snd (EnqueueDelayed (d_lib D) (d_redis D)
        (n_id n) (n_channel n) (n_priority n) (UnixMilli retryAt) (w_redis w))\<rparr>) w)"
| "handler_step D ctx_done x msg (AtAnnounceRetry n retryAt) w =
     (AtAck, broadcast D (n_id n) (''retry_scheduled:'' @ format_RFC3339 (d_lib D) retryAt)
        (w\<lparr>w_retried := Suc (w_retried w)\<rparr>))"
| "handler_step D ctx_done x msg (AtFailed n errMsg) w =
     (AtBury n errMsg, calling ctx_done (set_status (mo_now x) (n_id n) StatusFailed errMsg) w)"
| "handler_step D ctx_done x msg (AtBury n errMsg) w =
     (AtAnnounceFailed n, calling ctx_done (\<lambda>w. w\<lparr>w_redis := snd (DLQ_Push (d_lib D) (d_redis D)
        (n_id n) (n_channel n) errMsg (w_redis w))\<rparr>) w)"
| "handler_step D ctx_done x msg (AtAnnounceFailed n) w =
     (AtAck, broadcast D (n_id n) ''failed'' (count_processed (n_channel n) ''failed'' (w\<lparr>w_dlq := Suc (w_dlq w)\<rparr>)))"
| "handler_step D ctx_done x msg AtAck w = (AtReturn, calling ctx_done (ack_message D msg) w)"
| "handler_step D ctx_done x msg AtReturn w = (AtReturn, w)"

fun handler_run ::
  "'r dispatcher \<Rightarrow> bool \<Rightarrow> moment list \<Rightarrow> message \<Rightarrow> handler \<Rightarrow> 'r world \<Rightarrow> handler \<times> 'r world" where
  "handler_run D ctx_done [] msg h w = (h, w)"
| "handler_run D ctx_done (x # xs) msg h w =
     (case handler_step D ctx_done x msg h w of (h', w') \<Rightarrow> handler_run D ctx_done xs msg h' w')"

section \<open>The steps are the handler\<close>

text \<open>What \<open>processMessage\<close> still has to do at each point.\<close>

definition outcome ::
  "'r dispatcher \<Rightarrow> (nat \<Rightarrow> time) \<Rightarrow> message \<Rightarrow> notification \<Rightarrow> result \<Rightarrow> 'r world \<Rightarrow> 'r world" where
  "outcome D clock msg n res w =
     (case res_error res of None \<Rightarrow> on_success D clock msg n w | Some err \<Rightarrow> on_failure D clock msg n err w)"

definition fetch_rest ::
  "'r dispatcher \<Rightarrow> (nat \<Rightarrow> time) \<Rightarrow> uuid \<Rightarrow> message \<Rightarrow> uuid \<Rightarrow> 'r world \<Rightarrow> 'r world" where
  "fetch_rest D clock aid msg i w =
     (case repo_GetByID i (w_db w) of
        (Inl e, d) \<Rightarrow> ack_message D msg (w\<lparr>w_db := d\<rparr>)
      | (Inr n, d) \<Rightarrow> process_fetched D clock aid msg n (w\<lparr>w_db := d\<rparr>))"

fun rest :: "'r dispatcher \<Rightarrow> (time \<times> int \<times> bool) list \<Rightarrow> (nat \<Rightarrow> time) \<Rightarrow> uuid \<Rightarrow> message \<Rightarrow>
    handler \<Rightarrow> 'r world \<Rightarrow> 'r world" where
  "rest D turns clock aid msg AtParse w = processMessage D turns clock aid msg w"
| "rest D turns clock aid msg (AtAllow i) w =
     (case rate_wait (d_redis D) (d_limiter D) (m_channel msg) turns (w_redis w) of
        (Proceed, r) \<Rightarrow> fetch_rest D clock aid msg i (w\<lparr>w_redis := r\<rparr>)
      | (_, r) \<Rightarrow> w\<lparr>w_redis := r\<rparr>)"
| "rest D turns clock aid msg (AtSleep i) w =
     (case rate_wait (d_redis D) (d_limiter D) (m_channel msg) turns (w_redis w) of
        (Proceed, r) \<Rightarrow> fetch_rest D clock aid msg i (w\<lparr>w_redis := r\<rparr>)
      | (_, r) \<Rightarrow> w\<lparr>w_redis := r\<rparr>)"
| "rest D turns clock aid msg (AtFetch i) w = fetch_rest D clock aid msg i w"
| "rest D turns clock aid msg (AtMark n) w =
     (let w = set_status (clock 0) (n_id n) StatusProcessing '''' w in
      case d_providers D (n_channel n) of
        None \<Rightarrow> ack_message D msg
          (set_status (clock 1) (n_id n) StatusFailed (''no provider for channel: '' @ n_channel n) w)
      | Some send \<Rightarrow> deliver D clock aid msg n send w)"
| "rest D turns clock aid msg (AtRefuse n) w = ack_message D msg
     (set_status (clock 1) (n_id n) StatusFailed (''no provider for channel: '' @ n_channel n) w)"
| "rest D turns clock aid msg (AtSend n send) w = deliver D clock aid msg n send w"
| "rest D turns clock aid msg (AtIncrement n res) w = outcome D clock msg n res (record_attempt clock aid n res w)"
| "rest D turns clock aid msg (AtRecord n res) w = outcome D clock msg n res
     (w\<lparr>w_db := snd (repo_CreateDeliveryAttempt (clock 3) aid (new_attempt n res) (w_db w))\<rparr>)"
| "rest D turns clock aid msg (AtOutcome n res) w = outcome D clock msg n res w"
| "rest D turns clock aid msg (AtDelivered n) w = on_success D clock msg n w"
| "rest D turns clock aid msg (AtAckDelivered n) w = broadcast D (n_id n) ''delivered''
     (count_processed (n_channel n) ''delivered'' (ack_message D msg w))"
| "rest D turns clock aid msg (AtAnnounce n) w = broadcast D (n_id n) ''delivered''
     (count_processed (n_channel n) ''delivered'' w)"
| "rest D turns clock aid msg (AtDelay n t) w = ack_message D msg
     (broadcast D (n_id n) (''retry_scheduled:'' @ format_RFC3339 (d_lib D) t)
       (w\<lparr>w_redis := snd (EnqueueDelayed (d_lib D) (d_redis D) (n_id n) (n_channel n) (n_priority n) (UnixMilli t)
          (w_redis w)), w_retried := Suc (w_retried w)\<rparr>))"
| "rest D turns clock aid msg (AtQueued n errMsg t) w =
     (let w = set_status (clock 5) (n_id n) StatusQueued errMsg w in
      ack_message D msg (broadcast D (n_id n) (''retry_scheduled:'' @ format_RFC3339 (d_lib D) t)
       (w\<lparr>w_redis := snd (EnqueueDelayed (d_lib D) (d_redis D) (n_id n) (n_channel n) (n_priority n) (UnixMilli t)
          (w_redis w)), w_retried := Suc (w_retried w)\<rparr>)))"
| "rest D turns clock aid msg (AtAnnounceRetry n t) w = ack_message D msg
     (broadcast D (n_id n) (''retry_scheduled:'' @ format_RFC3339 (d_lib D) t) (w\<lparr>w_retried := Suc (w_retried w)\<rparr>))"
| "rest D turns clock aid msg (AtFailed n errMsg) w = ack_message D msg (give_up D clock n errMsg w)"
| "rest D turns clock aid msg (AtBury n errMsg) w = ack_message D msg
     (broadcast D (n_id n) ''failed'' (count_processed (n_channel n) ''failed''
       (w\<lparr>w_redis := snd (DLQ_Push (d_lib D) (d_redis D) (n_id n) (n_channel n) errMsg (w_redis w)),
         w_dlq := Suc (w_dlq w)\<rparr>)))"
| "rest D turns clock aid msg (AtAnnounceFailed n) w = ack_message D msg
     (broadcast D (n_id n) ''failed'' (count_processed (n_channel n) ''failed'' (w\<lparr>w_dlq := Suc (w_dlq w)\<rparr>)))"
| "rest D turns clock aid msg AtAck w = ack_message D msg w"
| "rest D turns clock aid msg AtReturn w = w"

text \<open>The turns end the wait of a handler that is in it.\<close>

fun wait_over_at :: "'r dispatcher \<Rightarrow> (time \<times> int \<times> bool) list \<Rightarrow> message \<Rightarrow> handler \<Rightarrow> 'r \<Rightarrow> bool" where
  "wait_over_at D turns msg AtParse r = handler_returns D turns msg r"
| "wait_over_at D turns msg (AtAllow i) r =
     (fst (rate_wait (d_redis D) (d_limiter D) (m_channel msg) turns r) \<noteq> Waiting)"
| "wait_over_at D turns msg (AtSleep i) r =
     (fst (rate_wait (d_redis D) (d_limiter D) (m_channel msg) turns r) \<noteq> Waiting)"
| "wait_over_at D turns msg h r = True"

lemmas small_defs = outcome_def on_success_def on_failure_def schedule_retry_def give_up_def deliver_def
  record_attempt_def fetch_rest_def process_fetched_def calling_def Let_def

abbreviation uncut :: "(time \<times> int \<times> bool) list \<Rightarrow> bool" where
  "uncut turns \<equiv> (\<forall>(t, rnd, c) \<in> set turns. \<not> c)"

lemma uncut_wait: "uncut turns \<Longrightarrow> rate_wait R l ch turns r = (x, q) \<Longrightarrow> x \<noteq> CtxDone"
  by (induction turns arbitrary: r) (auto split: prod.splits sum.splits bool.splits if_splits)

lemma run_sound:
  assumes "handler_run D False xs msg h w = (AtReturn, w')"
  shows "\<exists>turns clock aid. uncut turns \<and> wait_over_at D turns msg h (w_redis w) \<and>
    w' = rest D turns clock aid msg h w"
  using assms
proof (induction xs arbitrary: h w)
  case Nil
  then show ?case by (intro exI [of _ "[]"]) simp
next
  case (Cons x xs)
  obtain h1 w1 where st: "handler_step D False x msg h w = (h1, w1)" by (metis surj_pair)
  then have "handler_run D False xs msg h1 w1 = (AtReturn, w')" using Cons.prems by simp
  from Cons.IH [OF this] obtain turns clock aid where later: "uncut turns"
    "wait_over_at D turns msg h1 (w_redis w1)" "w' = rest D turns clock aid msg h1 w1" by blast
  have at: ?case if "wait_over_at D turns msg h (w_redis w)" "w' = rest D turns (clock(k := mo_now x)) a msg h w" for k a
    using that later(1) by blast
  have same: ?case if "wait_over_at D turns msg h (w_redis w)" "w' = rest D turns clock a msg h w" for a
    using that later(1) by blast
  show ?case
  proof (cases h)
    case AtParse
    obtain i err where parse: "uuid_Parse (d_lib D) (m_notification_id msg) = (i, err)" by (metis surj_pair)
    show ?thesis
    proof (cases err)
      case None
      then have h1: "h1 = AtAllow i" "w1 = w" using st parse AtParse by simp_all
      have "processMessage D turns clock aid msg w = rest D turns clock aid msg (AtAllow i) w"
        using None parse by (simp add: processMessage_def fetch_rest_def cong: wait.case_cong)
      then show ?thesis
        using later(2,3) None parse by (intro same [of aid]) (simp_all add: AtParse h1 handler_returns_def)
    next
      case (Some e)
      then have h1: "h1 = AtAck" "w1 = w" using st parse AtParse by simp_all
      then show ?thesis
        using later(3) Some parse
        by (intro same [of aid]) (simp_all add: AtParse processMessage_def handler_returns_def)
    qed
  next
    case (AtAllow i)
    have "uncut ((mo_now x, mo_random x, False) # turns)" using later(1) by simp
    moreover have "wait_over_at D ((mo_now x, mo_random x, False) # turns) msg h (w_redis w)"
      "w' = rest D ((mo_now x, mo_random x, False) # turns) clock aid msg h w"
      using st later AtAllow by (auto split: prod.splits sum.splits bool.splits if_splits wait.splits)
    ultimately show ?thesis by blast
  next
    case (AtSleep i)
    then have "wait_over_at D turns msg h (w_redis w)" "w' = rest D turns clock aid msg h w" using st later(2,3) by auto
    then show ?thesis using later(1) by blast
  next
    case (AtFetch i)
    then show ?thesis using st later
      by (intro same [of aid]) (auto simp: small_defs split: prod.splits sum.splits if_splits)
  next
    case (AtMark n)
    then show ?thesis using st later
      by (intro at [of 0 aid]) (auto simp: small_defs split: option.splits if_splits)
  next
    case (AtRefuse n)
    then show ?thesis using st later by (intro at [of 1 aid]) (auto simp: small_defs)
  next
    case (AtSend n send)
    then show ?thesis using st later by (intro same [of aid]) (auto simp: small_defs split: option.splits)
  next
    case (AtIncrement n res)
    then show ?thesis using st later by (intro at [of 2 aid]) (auto simp: small_defs split: option.splits)
  next
    case (AtRecord n res)
    then show ?thesis using st later by (intro at [of 3 "mo_attempt x"]) (auto simp: small_defs split: option.splits)
  next
    case (AtOutcome n res)
    then show ?thesis using st later by (intro at [of 4 aid]) (auto simp: small_defs split: option.splits if_splits)
  next
    case (AtDelivered n)
    then show ?thesis using st later by (intro at [of 5 aid]) (auto simp: small_defs)
  next
    case (AtQueued n e t)
    then show ?thesis using st later by (intro at [of 5 aid]) (auto simp: small_defs)
  next
    case (AtFailed n e)
    then show ?thesis using st later by (intro at [of 5 aid]) (auto simp: small_defs)
  qed (intro same [of aid]; use st later in \<open>force simp: small_defs\<close>)+
qed

text \<open>Conversely, whatever is left to do is done by some steps.\<close>

definition reaches :: "'r dispatcher \<Rightarrow> message \<Rightarrow> handler \<Rightarrow> 'r world \<Rightarrow> 'r world \<Rightarrow> bool" where
  "reaches D msg h w w' \<longleftrightarrow> (\<exists>xs. handler_run D False xs msg h w = (AtReturn, w'))"

lemma reaches_here: "reaches D msg AtReturn w w"
  unfolding reaches_def by (rule exI [of _ "[]"]) simp

lemma reaches_step:
  assumes "handler_step D False x msg h w = (h', w'')" "reaches D msg h' w'' w'"
  shows "reaches D msg h w w'"
proof -
  obtain xs where "handler_run D False xs msg h' w'' = (AtReturn, w')" using assms(2) unfolding reaches_def by blast
  then have "handler_run D False (x # xs) msg h w = (AtReturn, w')" using assms(1) by simp
  then show ?thesis unfolding reaches_def by blast
qed

definition moment_of :: "time \<Rightarrow> int \<Rightarrow> uuid \<Rightarrow> moment" where
  "moment_of now rnd aid = \<lparr>mo_now = now, mo_random = rnd, mo_cut = False, mo_attempt = aid\<rparr>"

lemma moment_of_simps [simp]:
  "mo_now (moment_of now rnd aid) = now" "mo_random (moment_of now rnd aid) = rnd" "mo_attempt (moment_of now rnd aid) = aid"
  by (simp_all add: moment_of_def)

text \<open>A point from which every state gets to the end as \<open>rest\<close> says; the next point is one of those.\<close>

definition ends_at :: "'r dispatcher \<Rightarrow> (nat \<Rightarrow> time) \<Rightarrow> uuid \<Rightarrow> message \<Rightarrow> handler \<Rightarrow> bool" where
  "ends_at D clock aid msg h \<longleftrightarrow> (\<forall>w. reaches D msg h w (rest D [] clock aid msg h w))"

lemma ends_step:
  assumes "ends_at D clock aid msg h'" "\<And>w. handler_step D False x msg h w = (h', f w)"
    and "\<And>w. rest D [] clock aid msg h w = rest D [] clock aid msg h' (f w)"
  shows "ends_at D clock aid msg h"
  unfolding ends_at_def
proof
  fix w
  have "reaches D msg h' (f w) (rest D [] clock aid msg h' (f w))" using assms(1) unfolding ends_at_def by blast
  from reaches_step [OF assms(2) this] show "reaches D msg h w (rest D [] clock aid msg h w)"
    unfolding assms(3) .
qed

lemma ends_return: "ends_at D clock aid msg AtReturn"
  by (simp add: ends_at_def reaches_here)

lemma ends_ack: "ends_at D clock aid msg AtAck"
  by (rule ends_step [OF ends_return, where x = "moment_of 0 0 0"]) (simp add: calling_def, simp add: calling_def)

lemma ends_success: "ends_at D clock aid msg (AtDelivered n)"
proof -
  have "ends_at D clock aid msg (AtAnnounce n)"
    by (rule ends_step [OF ends_return, where x = "moment_of 0 0 0"]) (simp, simp)
  then have "ends_at D clock aid msg (AtAckDelivered n)"
    by (rule ends_step [where x = "moment_of 0 0 0"]) (simp add: calling_def, simp add: calling_def)
  then show ?thesis
    by (rule ends_step [where x = "moment_of (clock 5) 0 0"]) (simp add: calling_def on_success_def, simp add: calling_def on_success_def)
qed

lemma ends_retry: "ends_at D clock aid msg (AtQueued n e t)"
proof -
  have "ends_at D clock aid msg (AtAnnounceRetry n t)"
    by (rule ends_step [OF ends_ack, where x = "moment_of 0 0 0"]) (simp, simp)
  then have "ends_at D clock aid msg (AtDelay n t)"
    by (rule ends_step [where x = "moment_of 0 0 0"]) (simp add: calling_def, simp add: calling_def)
  then show ?thesis
    by (rule ends_step [where x = "moment_of (clock 5) 0 0"]) (simp add: calling_def Let_def, simp add: calling_def Let_def)
qed

lemma ends_give_up: "ends_at D clock aid msg (AtFailed n e)"
proof -
  have "ends_at D clock aid msg (AtAnnounceFailed n)"
    by (rule ends_step [OF ends_ack, where x = "moment_of 0 0 0"]) (simp, simp)
  then have "ends_at D clock aid msg (AtBury n e)"
    by (rule ends_step [where x = "moment_of 0 0 0"]) (simp add: calling_def, simp add: calling_def)
  then show ?thesis
    by (rule ends_step [where x = "moment_of (clock 5) 0 0"]) (simp add: calling_def give_up_def Let_def, simp add: calling_def give_up_def Let_def)
qed

lemma ends_outcome: "ends_at D clock aid msg (AtOutcome n res)"
proof -
  let ?h = "case res_error res of None \<Rightarrow> AtDelivered n
      | Some err \<Rightarrow> (if ShouldRetry (n_attempt_count n + 1) (n_max_retries n)
          then AtQueued n (error_text err) (RetryAt (clock 4) (n_attempt_count n + 1)) else AtFailed n (error_text err))"
  have "ends_at D clock aid msg ?h"
    using ends_success ends_retry ends_give_up by (auto split: option.splits)
  then show ?thesis
    by (rule ends_step [where x = "moment_of (clock 4) 0 0"]) (simp, auto simp: small_defs split: option.splits)
qed

lemma ends_send: "ends_at D clock aid msg (AtSend n send)"
proof -
  have "ends_at D clock aid msg (AtRecord n (send n))"
    by (rule ends_step [OF ends_outcome, where x = "moment_of (clock 3) 0 aid"]) (simp add: calling_def, simp add: calling_def)
  then have "ends_at D clock aid msg (AtIncrement n (send n))"
    by (rule ends_step [where x = "moment_of (clock 2) 0 0"]) (simp add: calling_def record_attempt_def Let_def, simp add: calling_def record_attempt_def Let_def)
  then show ?thesis
    by (rule ends_step [where x = "moment_of 0 0 0"]) (simp add: deliver_def outcome_def Let_def, simp add: deliver_def outcome_def Let_def)
qed

lemma ends_mark: "ends_at D clock aid msg (AtMark n)"
proof -
  have "ends_at D clock aid msg (AtRefuse n)"
    by (rule ends_step [OF ends_ack, where x = "moment_of (clock 1) 0 0"]) (simp add: calling_def, simp add: calling_def)
  then have "ends_at D clock aid msg (case d_providers D (n_channel n) of None \<Rightarrow> AtRefuse n | Some send \<Rightarrow> AtSend n send)"
    using ends_send by (auto split: option.splits)
  then show ?thesis
    by (rule ends_step [where x = "moment_of (clock 0) 0 0"]) (simp, auto simp: calling_def Let_def split: option.splits)
qed

lemma reaches_fetch: "reaches D msg (AtFetch i) w (fetch_rest D clock aid msg i w)"
proof -
  obtain y d where get: "repo_GetByID i (w_db w) = (y, d)" by (metis surj_pair)
  let ?h = "case y of Inl e \<Rightarrow> AtAck | Inr n \<Rightarrow> if terminal (n_status n) then AtAck else AtMark n"
  have "ends_at D clock aid msg ?h" using ends_ack ends_mark by (auto split: sum.splits)
  then have "reaches D msg ?h (w\<lparr>w_db := d\<rparr>) (rest D [] clock aid msg ?h (w\<lparr>w_db := d\<rparr>))"
    unfolding ends_at_def by blast
  moreover have "rest D [] clock aid msg ?h (w\<lparr>w_db := d\<rparr>) = fetch_rest D clock aid msg i w"
    by (simp add: get fetch_rest_def process_fetched_def Let_def split: sum.splits)
  ultimately have "reaches D msg ?h (w\<lparr>w_db := d\<rparr>) (fetch_rest D clock aid msg i w)" by simp
  then show ?thesis by (rule reaches_step [where x = "moment_of 0 0 0", rotated]) (simp add: get split: sum.splits)
qed

lemma reaches_wait:
  assumes "uncut turns" "fst (rate_wait (d_redis D) (d_limiter D) (m_channel msg) turns (w_redis w)) \<noteq> Waiting"
  shows "reaches D msg (AtAllow i) w (rest D turns clock aid msg (AtAllow i) w)"
  using assms
proof (induction turns arbitrary: w)
  case (Cons turn turns)
  obtain now rnd where turn: "turn = (now, rnd, False)" using Cons.prems(1) by (cases turn) auto
  obtain y r where a: "Allow (d_redis D) (d_limiter D) (m_channel msg) now rnd (w_redis w) = (y, r)" by (metis surj_pair)
  let ?x = "moment_of now rnd aid" and ?w = "w\<lparr>w_redis := r\<rparr>"
  show ?case
  proof (cases "y = Inr False")
    case True
    have "reaches D msg (AtAllow i) ?w (rest D turns clock aid msg (AtAllow i) ?w)"
      using Cons.IH [of ?w] Cons.prems True a by (simp add: turn)
    then have "reaches D msg (AtSleep i) ?w (rest D turns clock aid msg (AtAllow i) ?w)"
      by (rule reaches_step [where x = ?x, rotated]) simp
    moreover have "rest D (turn # turns) clock aid msg (AtAllow i) w = rest D turns clock aid msg (AtAllow i) ?w"
      using True a by (simp add: turn split: prod.splits wait.splits)
    ultimately have "reaches D msg (AtSleep i) ?w (rest D (turn # turns) clock aid msg (AtAllow i) w)" by simp
    then show ?thesis by (rule reaches_step [where x = ?x, rotated]) (simp add: True a)
  next
    case False
    then have "rest D (turn # turns) clock aid msg (AtAllow i) w = fetch_rest D clock aid msg i ?w"
      "handler_step D False ?x msg (AtAllow i) w = (AtFetch i, ?w)"
      using a by (auto simp: turn split: sum.splits bool.splits)
    then show ?thesis using reaches_step [OF _ reaches_fetch] by metis
  qed
qed simp

lemma run_complete:
  assumes "uncut turns" "handler_returns D turns msg (w_redis w)"
  shows "reaches D msg AtParse w (processMessage D turns clock aid msg w)"
proof -
  obtain i err where parse: "uuid_Parse (d_lib D) (m_notification_id msg) = (i, err)" by (metis surj_pair)
  show ?thesis
  proof (cases err)
    case None
    have "processMessage D turns clock aid msg w = rest D turns clock aid msg (AtAllow i) w"
      using None parse by (simp add: processMessage_def fetch_rest_def cong: wait.case_cong)
    moreover have "reaches D msg (AtAllow i) w (rest D turns clock aid msg (AtAllow i) w)"
      using reaches_wait [OF assms(1)] assms(2) None parse by (simp add: handler_returns_def)
    ultimately have "reaches D msg (AtAllow i) w (processMessage D turns clock aid msg w)" by simp
    then show ?thesis by (rule reaches_step [where x = "moment_of 0 0 0", rotated]) (simp add: None parse)
  next
    case (Some e)
    then have "reaches D msg AtAck w (processMessage D turns clock aid msg w)"
      using ends_ack [of D clock aid msg] parse by (simp add: processMessage_def ends_at_def)
    then show ?thesis by (rule reaches_step [where x = "moment_of 0 0 0", rotated]) (simp add: Some parse)
  qed
qed

text \<open>
  Property C8. Going through the calls of a handler one at a time, with any readings of the clock and any
  draws, leads to exactly the worlds that \<open>processMessage\<close> computes in one go when its wait for the
  limiter ends, whatever Redis, Postgres and the provider answer; so what is proved of handling a
  message in one step holds of its calls as long as nothing comes between them.
\<close>

theorem handler_steps_refine:
  "(\<exists>xs. handler_run D False xs msg AtParse w = (AtReturn, w')) \<longleftrightarrow>
   (\<exists>turns clock aid. (\<forall>(t, rnd, cut) \<in> set turns. \<not> cut) \<and> handler_returns D turns msg (w_redis w) \<and>
     w' = processMessage D turns clock aid msg w)"
  using run_sound [of D _ msg AtParse w w'] run_complete [of _ D msg w] unfolding reaches_def
  by (metis rest.simps(1) wait_over_at.simps(1))

theorem handler_steps_refine_witness:
  "\<exists>xs. handler_run (demo_dispatcher False) False xs demo_message AtParse (demo_world [demo_row 0 ''queued'']) =
     (AtReturn, processMessage (demo_dispatcher False) demo_turns (\<lambda>k. int k) 9 demo_message (demo_world [demo_row 0 ''queued'']))"
proof -
  let ?w = "demo_world [demo_row 0 ''queued'']"
  have "\<forall>(t, rnd, cut) \<in> set demo_turns. \<not> cut" by (simp add: demo_turns_def)
  moreover have "handler_returns (demo_dispatcher False) demo_turns demo_message (w_redis ?w)"
    using demo_admitted [of False] by (simp add: handler_returns_def admitted_def)
  ultimately show ?thesis
    by (intro iffD2 [OF handler_steps_refine] exI [of _ demo_turns] exI [of _ "\<lambda>k. int k"] exI [of _ "9 :: uuid"] conjI refl)
qed

end
