(* ===== verification/Interleaving.thy ===== *)
theory Interleaving
  imports Finishing Handler_Steps
begin

text \<open>
  The program with its handlers taken apart: every call that a worker makes while it handles a message is
  a step of its own, so that handlers run side by side, are overtaken by requests, retries and polls, and
  stop at any point. No notification is lost even so, and the shutdown signal ends every effect of
  the workers.
\<close>

section \<open>Workers between and inside handlers\<close>

datatype crew = Between work_state | Inside message handler "message list"

record 'r calls =
  ca_done :: bool
  ca_crew :: "crew list"
  ca_delayed :: loop_state
  ca_scheduler :: loop_state
  ca_world :: "'r world"

text \<open>
  One step of a worker. With the context done the call of \<open>ReadMessages\<close> fails and the loop returns.
\<close>

definition no_draws :: draws where
  "no_draws = \<lparr>dr_turns = [], dr_clock = (\<lambda>_. 0), dr_attempt = 0\<rparr>"

fun crew_step :: "'r dispatcher \<Rightarrow> string \<Rightarrow> moment \<Rightarrow> bool \<Rightarrow> crew \<Rightarrow> 'r world \<Rightarrow> crew \<times> 'r world" where
  "crew_step D consumerName x ctx_done (Between (Handling (msg # messages))) w = (Inside msg AtParse messages, w)"
| "crew_step D consumerName x ctx_done (Between AtRead) w =
     (if ctx_done then (Between WorkReturned, w)
      else apfst Between (work_step D consumerName no_draws False AtRead w))"
| "crew_step D consumerName x ctx_done (Between s) w = apfst Between (work_step D consumerName no_draws ctx_done s w)"
| "crew_step D consumerName x ctx_done (Inside msg AtReturn messages) w = (Between (Handling messages), w)"
| "crew_step D consumerName x ctx_done (Inside msg h messages) w =
     apfst (\<lambda>h. Inside msg h messages) (handler_step D ctx_done x msg h w)"

lemma inside_step:
  "h \<noteq> AtReturn \<Longrightarrow> crew_step D cn x ctx_done (Inside m h ms) w =
     apfst (\<lambda>h. Inside m h ms) (handler_step D ctx_done x m h w)"
  by (cases h) (simp_all del: handler_step.simps)

section \<open>Events\<close>

text \<open>
  \<open>Background\<close> events are those of theory Program: requests, ticks, polls and the signal. Once the signal has
  come, the calls of the two ticker loops fail as well; requests have contexts of their own.
\<close>

datatype call_event = Call nat moment | Background event

text \<open>
  The program that the crew amounts to: a message counts as in hand until its handler has acknowledged
  it.
\<close>

fun acknowledged :: "handler \<Rightarrow> bool" where
  "acknowledged (AtAnnounce n) \<longleftrightarrow> True"
| "acknowledged AtReturn \<longleftrightarrow> True"
| "acknowledged h \<longleftrightarrow> False"

fun in_hand :: "crew \<Rightarrow> work_state" where
  "in_hand (Between s) = s"
| "in_hand (Inside msg h messages) = Handling (if acknowledged h then messages else msg # messages)"

definition as_program :: "'r calls \<Rightarrow> 'r program" where
  "as_program c = \<lparr>pg_done = ca_done c, pg_pool = map in_hand (ca_crew c), pg_delayed = ca_delayed c,
     pg_scheduler = ca_scheduler c, pg_world = ca_world c\<rparr>"

fun is_request :: "event \<Rightarrow> bool" where
  "is_request (Request su fresh rq) \<longleftrightarrow> True"
| "is_request e \<longleftrightarrow> False"

definition background :: "'r wiring \<Rightarrow> event \<Rightarrow> 'r calls \<Rightarrow> 'r calls" where
  "background S e c =
     (let p = apply_event S e (as_program c) in
      c\<lparr>ca_done := pg_done p, ca_delayed := pg_delayed p, ca_scheduler := pg_scheduler p,
        ca_world := (if ca_done c \<and> \<not> is_request e then ca_world c else pg_world p)\<rparr>)"

fun apply_call :: "'r wiring \<Rightarrow> call_event \<Rightarrow> 'r calls \<Rightarrow> 'r calls" where
  "apply_call S (Call j x) c =
     (if j < length (ca_crew c) then
        (case crew_step (wi_dispatcher S) (wi_consumer S) x (ca_done c) (ca_crew c ! j) (ca_world c) of
           (k, w) \<Rightarrow> c\<lparr>ca_crew := (ca_crew c)[j := k], ca_world := w\<rparr>)
      else c)"
| "apply_call S (Background (Worker j x)) c = c"
| "apply_call S (Background e) c = background S e c"

definition run_calls :: "'r wiring \<Rightarrow> call_event list \<Rightarrow> 'r calls \<Rightarrow> 'r calls" where
  "run_calls S es c = fold (apply_call S) es c"

definition opened :: "'r program \<Rightarrow> 'r calls" where
  "opened p = \<lparr>ca_done = pg_done p, ca_crew = map Between (pg_pool p), ca_delayed = pg_delayed p,
     ca_scheduler = pg_scheduler p, ca_world = pg_world p\<rparr>"

lemma run_calls_simps [simp]:
  "run_calls S [] c = c" "run_calls S (e # es) c = run_calls S es (apply_call S e c)"
  "run_calls S (es @ es') c = run_calls S es' (run_calls S es c)"
  by (simp_all add: run_calls_def)

section \<open>What a handler knows\<close>

definition about :: "'r dispatcher \<Rightarrow> message \<Rightarrow> notification \<Rightarrow> bool" where
  "about D m n \<longleftrightarrow> uuid_Parse (d_lib D) (m_notification_id m) = (n_id n, None) \<and>
     retry_ok (n_id n, n_channel n, n_priority n) \<and> text_ok (''no provider for channel: '' @ n_channel n)"

fun knows :: "'r dispatcher \<Rightarrow> message \<Rightarrow> handler \<Rightarrow> bool" where
  "knows D m (AtAllow i) \<longleftrightarrow> uuid_Parse (d_lib D) (m_notification_id m) = (i, None)"
| "knows D m (AtSleep i) \<longleftrightarrow> uuid_Parse (d_lib D) (m_notification_id m) = (i, None)"
| "knows D m (AtFetch i) \<longleftrightarrow> uuid_Parse (d_lib D) (m_notification_id m) = (i, None)"
| "knows D m (AtMark n) \<longleftrightarrow> about D m n"
| "knows D m (AtRefuse n) \<longleftrightarrow> about D m n"
| "knows D m (AtSend n send) \<longleftrightarrow> about D m n \<and> d_providers D (n_channel n) = Some send"
| "knows D m (AtIncrement n res) \<longleftrightarrow> about D m n \<and> (\<forall>e. res_error res = Some e \<longrightarrow> text_ok (error_text e))"
| "knows D m (AtRecord n res) \<longleftrightarrow> about D m n \<and> (\<forall>e. res_error res = Some e \<longrightarrow> text_ok (error_text e))"
| "knows D m (AtOutcome n res) \<longleftrightarrow> about D m n \<and> (\<forall>e. res_error res = Some e \<longrightarrow> text_ok (error_text e))"
| "knows D m (AtDelivered n) \<longleftrightarrow> about D m n"
| "knows D m (AtQueued n e t) \<longleftrightarrow> about D m n \<and> text_ok e"
| "knows D m (AtDelay n t) \<longleftrightarrow> about D m n"
| "knows D m (AtFailed n e) \<longleftrightarrow> about D m n \<and> text_ok e"
| "knows D m h \<longleftrightarrow> True"

lemma cancelled_text: "text_ok ''context canceled''"
  by (rule text_ok_ascii) auto

lemma fetched_about:
  assumes "sound_db w" "uuid_Parse (d_lib D) (m_notification_id m) = (i, None)"
    and "repo_GetByID i (w_db w) = (Inr n, d)"
  shows "about D m n \<and> (\<exists>r. row_at i (db_tables (w_db w)) = Some r \<and> n = scanNotification r) \<and>
    d = (w_db w)\<lparr>db_calls := Suc (db_calls (w_db w))\<rparr>"
proof -
  obtain r where r: "row_at i (db_tables (w_db w)) = Some r" "n = scanNotification r"
    "d = (w_db w)\<lparr>db_calls := Suc (db_calls (w_db w))\<rparr>"
    using assms(1,3) repo_GetByID_found [of "w_db w" i] repo_GetByID_missing [of "w_db w" i]
    by (cases "row_at i (db_tables (w_db w))") auto
  have "row_ok r" "r_id r = i"
    using assms(1) r(1) find_row_SomeD [of r_id i _ r] by (auto simp: row_at_def rows_ok_def)
  then have "about D m n"
    using row_retry_ok [of r] no_provider_text [of r] assms(2) by (simp add: about_def r(2))
  then show ?thesis using r by blast
qed

lemma handler_knows:
  assumes "sound_db w" "providers_ok D" "knows D m h" "handler_step D done' x m h w = (h', w')"
  shows "knows D m h'"
proof (cases h)
  case (AtFetch i)
  have parse: "uuid_Parse (d_lib D) (m_notification_id m) = (i, None)" using assms(3) AtFetch by simp
  have "about D m n" if "repo_GetByID i (w_db w) = (Inr n, d)" for n d
    using fetched_about [OF assms(1) parse that] by blast
  then show ?thesis using assms(4) AtFetch by (auto split: prod.splits sum.splits if_splits)
next
  case (AtSend n send)
  have "text_ok (error_text e)" if "res_error (send n) = Some e" for e
    using assms(2,3) AtSend that unfolding providers_ok_def by auto
  then show ?thesis
    using assms AtSend cancelled_text by (auto simp: context_cancelled_def split: if_splits)
qed (use assms(3,4) in \<open>auto split: prod.splits option.splits sum.splits if_splits\<close>)

section \<open>One call of a handler\<close>

text \<open>The message is no longer needed: what it stands for is settled, and it is still to be acknowledged.\<close>

fun settled_at :: "handler \<Rightarrow> bool" where
  "settled_at (AtAckDelivered n) \<longleftrightarrow> True"
| "settled_at (AtAnnounceRetry n t) \<longleftrightarrow> True"
| "settled_at (AtBury n e) \<longleftrightarrow> True"
| "settled_at (AtAnnounceFailed n) \<longleftrightarrow> True"
| "settled_at AtAck \<longleftrightarrow> True"
| "settled_at h \<longleftrightarrow> False"

lemma done_handler:
  assumes "handler_step D True x m h w = (h', w')"
  shows "w_db w' = w_db w \<and> w_redis w' = w_redis w \<and> w_sent w' = w_sent w"
  using assms
  by (cases h) (auto simp: calling_def broadcast_def count_processed_def split: prod.splits option.splits if_splits)

lemma to_message_text: "to_message k e = Some m \<Longrightarrow> map_of (snd e) ''notification_id'' = Some (m_notification_id m)"
  by (auto simp: to_message_def split: option.splits)

lemma own_entry:
  assumes "ids_ok v" "m_message_id m \<in> ids (v_pending v (m_stream_id m))"
    and "\<forall>e \<in> set (v_pending v (m_stream_id m)). fst e = m_message_id m \<longrightarrow> to_message (m_stream_id m) e = Some m"
  shows "e \<in> in_stream v k \<Longrightarrow> (k, fst e) = msg_key m \<Longrightarrow> names L i e \<longleftrightarrow> uuid_Parse L (m_notification_id m) = (i, None)"
    and "m_stream_id m \<in> set priority_streams \<Longrightarrow> msg_key m \<notin> X \<Longrightarrow>
      uuid_Parse L (m_notification_id m) = (i, None) \<Longrightarrow> message_but X L v i"
proof -
  obtain e0 where e0: "e0 \<in> set (v_pending v (m_stream_id m))" "fst e0 = m_message_id m"
    using assms(2) by (metis imageE)
  have named: "names L i e \<longleftrightarrow> uuid_Parse L (m_notification_id m) = (i, None)"
    if "to_message (m_stream_id m) e = Some m" for i e
    using to_message_text [OF that] by (simp add: names_def)
  show "names L i e \<longleftrightarrow> uuid_Parse L (m_notification_id m) = (i, None)"
    if e: "e \<in> in_stream v k" "(k, fst e) = msg_key m"
  proof -
    have key: "k = m_stream_id m" "fst e = m_message_id m" using e(2) by (simp_all add: msg_key_def)
    then have "e \<notin> set (v_unread v k)" using ids_apart [OF assms(1) e0(1)] e0(2) by metis
    then have "to_message (m_stream_id m) e = Some m" using e(1) assms(3) key(2) unfolding in_stream_def key(1) by blast
    then show ?thesis by (rule named)
  qed
  assume "m_stream_id m \<in> set priority_streams" "msg_key m \<notin> X" "uuid_Parse L (m_notification_id m) = (i, None)"
  moreover have "names L i e0" using named assms(3) e0 calculation(3) by metis
  moreover have "e0 \<in> entries_but X v (m_stream_id m)"
    using e0 calculation(2) by (simp add: entries_but_def msg_key_def)
  ultimately show "message_but X L v i" unfolding message_but_def by metis
qed

lemma increment_status:
  assumes "no_faults d"
  shows "map_option r_status (row_at j (db_tables (snd (repo_IncrementAttempt now i d)))) =
    map_option r_status (row_at j (db_tables d))"
  using assms
  by (auto simp: repo_IncrementAttempt_def pg_exec_faultless sql_increment_attempt_def
      update_notifications_def row_at_def find_update_key option.map_comp comp_def)

lemma tracked_same_status:
  assumes "tracked_but X L v d" "no_faults d'" "rows_ok (db_tables d')" "keeps_but X L v w"
    and "\<And>i. map_option r_status (row_at i (db_tables d')) = map_option r_status (row_at i (db_tables d))"
  shows "tracked_but X L w d'"
proof (rule tracked_step [OF assms(1-4)])
  fix i r
  assume "row_at i (db_tables d') = Some r"
  then have "map_option r_status (row_at i (db_tables d)) = Some (r_status r)" using assms(5) [of i] by simp
  then show "r_status r = StatusScheduled \<or> terminal (r_status r) \<or> underway_but X L w i \<or>
      (\<exists>r0. row_at i (db_tables d) = Some r0 \<and> r_status r0 = r_status r)" by auto
qed

text \<open>An update of the status of a notification that a message still stands for.\<close>

lemma tracked_status:
  assumes "tracked_but X L v d" "message_but X L v i" "text_ok e" "worker_status st \<or> st = StatusDelivered"
  shows "tracked_but X L v (snd (repo_UpdateStatus now i st e d))"
proof -
  have d: "no_faults d" "rows_ok (db_tables d)" using assms(1) by (simp_all add: tracked_but_def)
  show ?thesis
  proof (rule tracked_step [OF assms(1) _ status_update_rows_ok [OF d(2) assms(4)] keeps_track_refl])
    fix j r
    assume "row_at j (db_tables (snd (repo_UpdateStatus now i st e d))) = Some r"
    then show "r_status r = StatusScheduled \<or> terminal (r_status r) \<or> underway_but X L v j \<or>
        (\<exists>r0. row_at j (db_tables d) = Some r0 \<and> r_status r0 = r_status r)"
      using assms(2) repo_UpdateStatus_row [OF d(1) assms(3)] by (auto simp: underway_but_def split: if_splits)
  qed (use d in simp)
qed

text \<open>A message that its notification no longer needs is left out; its acknowledgement takes it away.\<close>

lemma tracked_leave:
  assumes "tracked_but X L v d"
    and "\<And>i k e r. e \<in> in_stream v k \<Longrightarrow> (k, fst e) = key \<Longrightarrow> names L i e \<Longrightarrow> row_at i (db_tables d) = Some r \<Longrightarrow>
      terminal (r_status r) \<or> retry_waiting L v i"
  shows "tracked_but (insert key X) L v d"
proof -
  have "r_status r = StatusScheduled \<or> terminal (r_status r) \<or> underway_but (insert key X) L v i"
    if r: "row_at i (db_tables d) = Some r" for i r
  proof (cases "message_but X L v i")
    case True
    then obtain k e where e: "k \<in> set priority_streams" "e \<in> entries_but X v k" "names L i e"
      unfolding message_but_def by blast
    have inside: "e \<in> in_stream v k" using e(2) unfolding entries_but_def by blast
    show ?thesis
    proof (cases "(k, fst e) = key")
      case True
      then show ?thesis using assms(2) [OF inside True e(3) r] by (auto simp: underway_but_def)
    next
      case False
      then have "e \<in> entries_but (insert key X) v k" using e(2) unfolding entries_but_def by blast
      then show ?thesis using e(1,3) unfolding underway_but_def message_but_def by blast
    qed
  next
    case False
    then show ?thesis
      using assms(1) r unfolding tracked_but_def accounted_but_def underway_but_def by blast
  qed
  then show ?thesis using assms(1) unfolding tracked_but_def accounted_but_def by blast
qed

lemma tracked_ack:
  assumes "tracked_but (insert key X) L v d" "view_steps {key} v w" "v_zset w delayed_key = v_zset v delayed_key"
  shows "tracked_but X L w d"
proof -
  have "message_but X L w i" if m: "message_but (insert key X) L v i" for i
  proof -
    obtain k e where e: "k \<in> set priority_streams" "e \<in> entries_but (insert key X) v k" "names L i e"
      using m unfolding message_but_def by blast
    have "e \<in> entries_but X w k"
    proof (cases "e \<in> set (v_unread v k)")
      case True
      then show ?thesis using entry_steps(3) [OF assms(2)] unfolding entries_but_def by blast
    next
      case False
      then have "e \<in> entries_but X v k" "(k, fst e) \<notin> {key}" using e(2) unfolding entries_but_def by blast+
      then show ?thesis using entry_steps(1) [OF assms(2)] by blast
    qed
    then show ?thesis using e(1,3) unfolding message_but_def by blast
  qed
  then have "underway_but X L w i" if "underway_but (insert key X) L v i" for i
    using that zset_track(1) [OF assms(3), of L i] unfolding underway_but_def by blast
  then show ?thesis
    using assms(1) zset_track(2) [OF assms(3), of L] unfolding tracked_but_def accounted_but_def by blast
qed

lemma tracked_fewer: "tracked_but X L v d \<Longrightarrow> Y \<subseteq> X \<Longrightarrow> tracked_but Y L v d"
  unfolding tracked_but_def accounted_but_def underway_but_def message_but_def entries_but_def by blast

context redis_service
begin

lemma one_turn:
  "Allow R l ch now rnd r = (y, q) \<Longrightarrow>
     rate_wait R l ch [(now, rnd, False)] r = (if y = Inr False then Waiting else Proceed, q)"
  by (cases y) (auto split: bool.splits)

lemma handler_view:
  assumes "d_redis D = R" "redis_up R" "handler_step D ctx_done x m h w = (h', w')"
  shows "view_steps {msg_key m} (view_of (w_redis w)) (view_of (w_redis w'))"
    and "acknowledged h \<or> \<not> acknowledged h' \<Longrightarrow> view_steps {} (view_of (w_redis w)) (view_of (w_redis w'))"
proof -
  have allow: "view_steps {} (view_of (w_redis w)) (view_of r)"
    if "Allow R (d_limiter D) (m_channel m) (mo_now x) (mo_random x) (w_redis w) = (y, r)" for y r
    using steps_rate_wait [OF assms(2) one_turn [OF that]] .
  have quiet: "view_steps {} (view_of (w_redis w)) (view_of (w_redis w'))" if "acknowledged h \<or> \<not> acknowledged h'"
    using that assms(3) allow steps_EnqueueDelayed [OF assms(2)] steps_DLQ_Push [OF assms(2)]
    by (cases h) (auto simp: calling_def assms(1) split: prod.splits sum.splits option.splits if_splits)
  then show "acknowledged h \<or> \<not> acknowledged h' \<Longrightarrow> view_steps {} (view_of (w_redis w)) (view_of (w_redis w'))" .
  show "view_steps {msg_key m} (view_of (w_redis w)) (view_of (w_redis w'))"
  proof (cases "acknowledged h \<or> \<not> acknowledged h'")
    case True
    then show ?thesis using view_steps_mono [OF empty_subsetI quiet] by blast
  next
    case False
    then have "w_redis w' = w_redis w \<or> w_redis w' = snd (Ack R (m_stream_id m) (m_message_id m) (w_redis w))"
      using assms(1,3) by (cases h) (auto simp: calling_def split: prod.splits sum.splits option.splits if_splits)
    then show ?thesis using steps_Ack [OF assms(2), of "m_stream_id m" "m_message_id m"] by (auto simp: msg_key_def)
  qed
qed

lemma handler_tracks:
  assumes "d_redis D = R" "redis_up R" "uuid_laws (d_lib D)" "providers_ok D"
    and "tracked_world_but (if settled_at h then insert (msg_key m) X else X) (d_lib D) view_of w"
    and "ids_ok (view_of (w_redis w))" "m_stream_id m \<in> set priority_streams" "msg_key m \<notin> X"
    and "\<not> acknowledged h \<Longrightarrow> m_message_id m \<in> ids (v_pending (view_of (w_redis w)) (m_stream_id m))"
    and "\<forall>e \<in> set (v_pending (view_of (w_redis w)) (m_stream_id m)).
      fst e = m_message_id m \<longrightarrow> to_message (m_stream_id m) e = Some m"
    and "knows D m h" "handler_step D False x m h w = (h', w')"
  shows "tracked_world_but (if settled_at h' then insert (msg_key m) X else X) (d_lib D) view_of w'"
proof -
  let ?L = "d_lib D" and ?v = "view_of (w_redis w)" and ?key = "msg_key m"
  have db: "no_faults (w_db w)" "rows_ok (db_tables (w_db w))" "delayed_ok ?L ?v"
    using assms(5) by (simp_all add: tracked_but_def)
  have own: "message_but X ?L ?v i" if "about D m n" "i = n_id n" "\<not> acknowledged h" for n i
    using own_entry(2) [OF assms(6) assms(9) assms(10) assms(7,8)] that by (simp add: about_def)
  have leave: "tracked_but (insert ?key X) ?L v (w_db u)"
    if "tracked_but X ?L v (w_db u)" "in_stream v = in_stream ?v" "\<not> acknowledged h"
      "\<And>i r. uuid_Parse ?L (m_notification_id m) = (i, None) \<Longrightarrow> row_at i (db_tables (w_db u)) = Some r \<Longrightarrow>
        terminal (r_status r) \<or> retry_waiting ?L v i" for v u
    using tracked_leave [OF that(1)] own_entry(1) [OF assms(6) assms(9) [OF that(3)] assms(10)] that(2,4) by metis
  have status: "tracked_but X ?L ?v (snd (repo_UpdateStatus now (n_id n) st e (w_db w)))"
    if "about D m n" "text_ok e" "worker_status st \<or> st = StatusDelivered" "\<not> settled_at h" "\<not> acknowledged h" for n e st now
    using tracked_status [OF _ own [OF that(1) refl that(5)] that(2,3)] assms(5) that(4) by simp
  have final: "tracked_but (insert ?key X) ?L ?v (w_db (set_status now (n_id n) st e w))"
    if "about D m n" "text_ok e" "terminal st" "worker_status st \<or> st = StatusDelivered" "\<not> settled_at h" "\<not> acknowledged h"
    for n e st now
  proof (rule leave [OF _ refl that(6)])
    fix i r
    assume "uuid_Parse ?L (m_notification_id m) = (i, None)" "row_at i (db_tables (w_db (set_status now (n_id n) st e w))) = Some r"
    then show "terminal (r_status r) \<or> retry_waiting ?L ?v i"
      using set_status_row [OF db(1) that(2)] that(1,3) by (auto simp: about_def)
  qed (use status [OF that(1,2,4,5,6)] in simp)
  have redis: "tracked_but Y ?L (view_of r) (w_db w)"
    if "tracked_but Y ?L ?v (w_db w)" "view_steps {} ?v (view_of r)" "v_zset (view_of r) delayed_key = v_zset ?v delayed_key" for Y r
    using tracked_view [OF that(1) same_delayed_track [OF that(2,3)]] .
  have acks: "tracked_but X ?L (view_of (snd (Ack R (m_stream_id m) (m_message_id m) (w_redis w)))) (w_db w)"
    if "settled_at h"
    using tracked_ack [OF _ steps_Ack [OF assms(2)]] assms(5) that zset_calls(3) [OF assms(2)]
    by (simp add: msg_key_def)
  show ?thesis
  proof (cases h)
    case AtParse
    then show ?thesis
      using assms(5,12) leave [of ?v w] by (auto split: prod.splits option.splits)
  next
    case (AtAllow i)
    obtain y r where a: "Allow R (d_limiter D) (m_channel m) (mo_now x) (mo_random x) (w_redis w) = (y, r)"
      by (metis surj_pair)
    have "tracked_but X ?L (view_of r) (w_db w)"
      using redis [OF _ steps_rate_wait [OF assms(2) one_turn [OF a]] rate_wait_delayed [OF assms(2) one_turn [OF a]]]
        assms(5) AtAllow by simp
    then show ?thesis using assms(1,12) AtAllow a by (auto split: sum.splits if_splits)
  next
    case (AtFetch i)
    obtain y d where get: "repo_GetByID i (w_db w) = (y, d)" by (metis surj_pair)
    have parse: "uuid_Parse ?L (m_notification_id m) = (i, None)" using assms(11) AtFetch by simp
    have d: "d = (w_db w)\<lparr>db_calls := Suc (db_calls (w_db w))\<rparr>"
      using get db(1) repo_GetByID_found [of "w_db w" i] repo_GetByID_missing [of "w_db w" i]
      by (cases "row_at i (db_tables (w_db w))") auto
    have same: "tracked_but X ?L ?v (w_db (w\<lparr>w_db := d\<rparr>))"
      using tracked_same_status [of X ?L ?v "w_db w" d ?v] assms(5) AtFetch db d by simp
    have "tracked_but (insert ?key X) ?L ?v (w_db (w\<lparr>w_db := d\<rparr>))"
      if "\<forall>r. row_at i (db_tables (w_db w)) = Some r \<longrightarrow> terminal (r_status r)"
      using leave [OF same refl] parse that AtFetch by (simp add: d)
    moreover have "terminal (r_status r)"
      if "row_at i (db_tables (w_db w)) = Some r" "h' = AtAck" for r
      using that get assms(12) AtFetch repo_GetByID_found [OF db(1) that(1)] by (auto split: if_splits)
    moreover have "h' = AtAck \<or> settled_at h' = False" "w' = w\<lparr>w_db := d\<rparr>"
      using assms(12) AtFetch get by (auto split: sum.splits if_splits)
    ultimately show ?thesis using same by (auto split: if_splits)
  next
    case (AtMark n)
    then show ?thesis
      using assms(11,12) status [of n "''''" StatusProcessing] by (auto simp: calling_def split: option.splits)
  next
    case (AtRefuse n)
    then show ?thesis
      using assms(11,12) final [of n _ StatusFailed] by (auto simp: calling_def about_def terminal_def)
  next
    case (AtIncrement n res)
    have "tracked_but X ?L ?v (snd (repo_IncrementAttempt (mo_now x) (n_id n) (w_db w)))"
      using tracked_same_status [of X ?L ?v "w_db w" "snd (repo_IncrementAttempt (mo_now x) (n_id n) (w_db w))" ?v]
        assms(5) db rows.inv_repo_IncrementAttempt increment_status AtIncrement by simp
    then show ?thesis using assms(12) AtIncrement by (auto simp: calling_def)
  next
    case (AtRecord n res)
    let ?d = "snd (repo_CreateDeliveryAttempt (mo_now x) (mo_attempt x) (new_attempt n res) (w_db w))"
    have "tracked_but X ?L ?v ?d"
      using tracked_same_status [of X ?L ?v "w_db w" ?d ?v] assms(5) db AtRecord rows.inv_repo_CreateDeliveryAttempt
        row_at_rows [OF repo_CreateDeliveryAttempt_rows [OF db(1)]] by (simp del: new_attempt_def)
    then show ?thesis using assms(12) AtRecord by (auto simp: calling_def)
  next
    case (AtDelivered n)
    then show ?thesis
      using assms(11,12) final [of n "''''" StatusDelivered] by (auto simp: calling_def terminal_def)
  next
    case (AtQueued n e t)
    then show ?thesis using assms(11,12) status [of n e StatusQueued] by (auto simp: calling_def)
  next
    case (AtDelay n t)
    let ?r = "snd (EnqueueDelayed ?L R (n_id n) (n_channel n) (n_priority n) (UnixMilli t) (w_redis w))"
    have about: "about D m n" using assms(11) AtDelay by simp
    then have ok: "retry_ok (n_id n, n_channel n, n_priority n)" by (simp add: about_def)
    note add = zset_add_tracks [OF zset_calls(4) [OF assms(2), of ?L "n_id n" "n_channel n" "n_priority n" "UnixMilli t" "w_redis w"] ok]
    have retry: "retry_waiting ?L (view_of ?r) i" if "retry_waiting ?L ?v i" for i
      using that add(1) unfolding retry_waiting_def by blast
    have streams: "in_stream (view_of ?r) = in_stream ?v"
      using EnqueueDelayed_ok [OF up_pair [OF EnqueueDelayed_up [OF assms(2)]], of ?L "n_id n" "n_channel n" "n_priority n"
          "UnixMilli t" "w_redis w"]
      by (intro ext) (auto simp: in_stream_def view_defs)
    have "keeps_but X ?L ?v (view_of ?r)"
      using message_steps [OF steps_EnqueueDelayed [OF assms(2)]] retry add(2)
      unfolding keeps_but_def underway_but_def by blast
    then have "tracked_but X ?L (view_of ?r) (w_db w)" using tracked_view assms(5) AtDelay by simp
    then have "tracked_but (insert ?key X) ?L (view_of ?r) (w_db w)"
    proof (rule leave [OF _ streams])
      show "\<not> acknowledged h" by (simp add: AtDelay)
      fix i r
      assume "uuid_Parse ?L (m_notification_id m) = (i, None)"
      then have "i = n_id n" using about by (simp add: about_def)
      then show "terminal (r_status r) \<or> retry_waiting ?L (view_of ?r) i" using add(3) by simp
    qed
    then show ?thesis using assms(1,12) AtDelay by (auto simp: calling_def)
  next
    case (AtFailed n e)
    then show ?thesis
      using assms(11,12) final [of n e StatusFailed] by (auto simp: calling_def terminal_def)
  next
    case (AtBury n e)
    then show ?thesis
      using assms(1,5,12) redis [OF _ steps_DLQ_Push [OF assms(2)]] zset_calls(2) [OF assms(2)] by (auto simp: calling_def)
  qed (use assms(1,5,12) acks in \<open>auto simp: calling_def broadcast_def count_processed_def split: option.splits if_splits\<close>)
qed

end

section \<open>Every call keeps the account\<close>

fun left_by :: "crew \<Rightarrow> (string \<times> string) set" where
  "left_by (Inside m h ms) = (if settled_at h then {msg_key m} else {})"
| "left_by (Between s) = {}"

definition left_out :: "'r calls \<Rightarrow> (string \<times> string) set" where
  "left_out c = (if ca_done c then {} else \<Union> (left_by ` set (ca_crew c)))"

fun informed :: "'r dispatcher \<Rightarrow> crew \<Rightarrow> bool" where
  "informed D (Inside m h ms) \<longleftrightarrow>
     knows D m h \<and> length (m # ms) \<le> 3 \<and> (\<forall>m \<in> set (m # ms). m_stream_id m \<in> set priority_streams)"
| "informed D (Between s) \<longleftrightarrow>
     length (work_messages s) \<le> 3 \<and> (\<forall>m \<in> set (work_messages s). m_stream_id m \<in> set priority_streams)"

definition calls_ok :: "'r wiring \<Rightarrow> ('r \<Rightarrow> view) \<Rightarrow> 'r calls \<Rightarrow> bool" where
  "calls_ok S V c \<longleftrightarrow> consumption_ok V (as_program c) \<and>
     faithful (V (w_redis (ca_world c))) (map in_hand (ca_crew c)) \<and>
     tracked_world_but (left_out c) (d_lib (wi_dispatcher S)) V (ca_world c) \<and>
     (\<forall>k \<in> set (ca_crew c). informed (wi_dispatcher S) k)"

lemma settled_unacknowledged: "settled_at h \<Longrightarrow> \<not> acknowledged h"
  by (cases h) simp_all

lemma left_held: "left_by k \<subseteq> set (held (in_hand k))"
  by (cases k) (auto simp: settled_unacknowledged)

lemma left_pending: "owned v (map in_hand ks) \<Longrightarrow> \<Union> (left_by ` set ks) \<subseteq> pending_keys v"
  using left_held by (fastforce simp: owned_def all_held_def)

lemma left_unread:
  assumes "ids_ok v" "owned v (map in_hand ks)" "e \<in> set (v_unread v k)"
  shows "(k, fst e) \<notin> \<Union> (left_by ` set ks)"
proof
  assume "(k, fst e) \<in> \<Union> (left_by ` set ks)"
  then have "(k, fst e) \<in> pending_keys v" using left_pending [OF assms(2)] by blast
  then obtain e0 where "e0 \<in> set (v_pending v k)" "fst e0 = fst e" by (auto simp: pending_keys_def)
  then show False using ids_apart [OF assms(1) _ assms(3)] by metis
qed

lemma own_not_left:
  assumes "owned v (map in_hand (xs @ Inside m h ms # ys))" "\<not> acknowledged h"
  shows "msg_key m \<notin> \<Union> (left_by ` (set xs \<union> set ys))" "m_message_id m \<in> ids (v_pending v (m_stream_id m))"
proof -
  have d: "distinct (all_held (map in_hand (xs @ Inside m h ms # ys)))"
    and p: "set (all_held (map in_hand (xs @ Inside m h ms # ys))) \<subseteq> pending_keys v"
    using assms(1) by (simp_all add: owned_def)
  have "\<Union> (left_by ` (set xs \<union> set ys)) \<subseteq> set (all_held (map in_hand xs)) \<union> set (all_held (map in_hand ys))"
    using left_held by (fastforce simp: all_held_def)
  then show "msg_key m \<notin> \<Union> (left_by ` (set xs \<union> set ys))" using d assms(2) by auto
  show "m_message_id m \<in> ids (v_pending v (m_stream_id m))"
    using p assms(2) by (simp add: pending_keys_def msg_key_def)
qed

lemma oldest_streams: "streams_ok v \<Longrightarrow> m \<in> set (oldest_messages c v k) \<Longrightarrow> m_stream_id m = k"
proof -
  assume v: "streams_ok v" "m \<in> set (oldest_messages c v k)"
  then obtain e where e: "e \<in> set (v_unread v k)" "m = the (to_message k e)"
    by (auto simp: oldest_messages_def dest: in_set_takeD)
  then have "to_message k e = Some m" using v(1) to_message_ok [of k e] by (auto simp: streams_ok_def)
  from to_message_key [OF this] show ?thesis by (simp add: msg_key_def)
qed

context redis_service
begin

lemma handler_call:
  assumes "trusted S" "calls_ok S view_of c" "ca_crew c = xs @ Inside m h ms # ys" "h \<noteq> AtReturn"
    and "handler_step (wi_dispatcher S) (ca_done c) x m h (ca_world c) = (h', w')"
  shows "calls_ok S view_of (c\<lparr>ca_crew := xs @ Inside m h' ms # ys, ca_world := w'\<rparr>)"
proof -
  let ?D = "wi_dispatcher S" and ?c = "c\<lparr>ca_crew := xs @ Inside m h' ms # ys, ca_world := w'\<rparr>"
  let ?v = "view_of (w_redis (ca_world c))" and ?v' = "view_of (w_redis w')"
  define X where "X = \<Union> (left_by ` (set xs \<union> set ys))"
  have ok: "streams_ok ?v" "ids_ok ?v" "owned ?v (map in_hand (xs @ Inside m h ms # ys))"
    "WorkPanicked \<notin> set (map in_hand (xs @ Inside m h ms # ys))"
    "faithful ?v (map in_hand (xs @ Inside m h ms # ys))"
    and track: "tracked_world_but (left_out c) (d_lib ?D) view_of (ca_world c)"
    and informed: "\<forall>k \<in> set xs \<union> set ys. informed ?D k" "informed ?D (Inside m h ms)"
    using assms(2,3) by (auto simp: calls_ok_def consumption_ok_def as_program_def pg_view_def)
  have left: "left_out c = (if ca_done c then {} else if settled_at h then insert (msg_key m) X else X)"
    "left_out ?c = (if ca_done c then {} else if settled_at h' then insert (msg_key m) X else X)"
    using assms(3) by (auto simp: left_out_def X_def)
  note view = handler_view [OF _ _ assms(5)]
  have one: "view_steps {msg_key m} ?v ?v'" using view(1) assms(1) by blast
  have own': "owned ?v' (map in_hand (xs @ Inside m h' ms # ys))"
  proof (cases "acknowledged h \<or> \<not> acknowledged h'")
    case True
    moreover have "acknowledged h \<Longrightarrow> acknowledged h'" using assms(4,5) by (cases h) auto
    ultimately have "in_hand (Inside m h' ms) = in_hand (Inside m h ms)" by auto
    then show ?thesis using owned_steps(1) [OF view(2) ok(3)] assms(1) True by simp
  next
    case False
    then show ?thesis using owned_ack(1) [OF one, of "map in_hand xs" ms "map in_hand ys"] ok(3) by simp
  qed
  have "set (work_messages (in_hand (Inside m h' ms))) \<subseteq> set (work_messages (in_hand (Inside m h ms)))"
    using assms(4,5) by (cases h) (auto split: prod.splits option.splits sum.splits if_splits)
  then have "faithful ?v' (map in_hand (xs @ Inside m h' ms # ys))"
    by (intro faithful_shrinks [OF ok(5) entry_steps(2) [OF one]]) (auto simp del: in_hand.simps)
  moreover have "consumption_ok view_of (as_program ?c)"
    using steps_readable [OF one ok(1)] view_steps_ids [OF one ok(2)] own' ok(4)
    by (simp add: consumption_ok_def as_program_def pg_view_def)
  moreover have "informed ?D (Inside m h' ms)"
    using handler_knows [OF _ _ _ assms(5)] informed(2) track assms(1) by (simp add: tracked_but_def)
  moreover have "tracked_world_but (left_out ?c) (d_lib ?D) view_of w'"
  proof (cases "ca_done c")
    case True
    have "handler_step ?D True x m h (ca_world c) = (h', w')" using assms(5) by (simp only: True)
    from done_handler [OF this] show ?thesis using track unfolding left by (simp only: True if_True)
  next
    case False
    show ?thesis
    proof (cases "acknowledged h")
      case True
      then have "\<not> settled_at h \<and> \<not> settled_at h' \<and> w_db w' = w_db (ca_world c) \<and> w_redis w' = w_redis (ca_world c)"
        using assms(4,5) by (cases h) (auto simp: broadcast_def count_processed_def)
      then show ?thesis using track False unfolding left by simp
    next
      case unacked: False
      note own = own_not_left [OF ok(3) unacked, folded X_def]
      have entry: "\<forall>e \<in> set (v_pending ?v (m_stream_id m)). fst e = m_message_id m \<longrightarrow> to_message (m_stream_id m) e = Some m"
        using ok(5) unacked by (auto simp: faithful_def)
      have "handler_step ?D False x m h (ca_world c) = (h', w')" using assms(5) False by simp
      from handler_tracks [OF _ _ _ _ _ ok(2) _ own(1) own(2) entry _ this] assms(1) informed(2) track False
      show ?thesis unfolding left by simp
    qed
  qed
  ultimately show ?thesis using informed(1) by (auto simp: calls_ok_def)
qed

text \<open>The steps of a worker that touch neither Redis nor Postgres, and its read.\<close>

lemma idle_call:
  assumes "calls_ok S view_of c" "ca_crew c = xs @ k # ys" "work_messages (in_hand k') = work_messages (in_hand k)"
    and "in_hand k' = WorkPanicked \<Longrightarrow> in_hand k = WorkPanicked" "left_by k' = left_by k"
    and "informed (wi_dispatcher S) k \<Longrightarrow> informed (wi_dispatcher S) k'"
  shows "calls_ok S view_of (c\<lparr>ca_crew := xs @ k' # ys, ca_world := ca_world c\<rparr>)"
proof -
  have "held (in_hand k') = held (in_hand k)" using assms(3) by (simp add: held_messages)
  then have "all_held (map in_hand (xs @ k' # ys)) = all_held (map in_hand (xs @ k # ys))" by simp
  moreover have "faithful v (map in_hand (xs @ k' # ys)) \<longleftrightarrow> faithful v (map in_hand (xs @ k # ys))" for v
    using assms(3) by (simp add: faithful_def)
  moreover have "left_out (c\<lparr>ca_crew := xs @ k' # ys, ca_world := ca_world c\<rparr>) = left_out c"
    using assms(2,5) by (simp add: left_out_def)
  ultimately show ?thesis
    using assms(1,2,4,6) by (auto simp: calls_ok_def consumption_ok_def as_program_def pg_view_def owned_def)
qed

lemma read_call:
  assumes "trusted S" "calls_ok S view_of c" "ca_crew c = xs @ Between AtRead # ys"
    and "work_step (wi_dispatcher S) (wi_consumer S) no_draws False AtRead (ca_world c) = (s', w')"
  shows "calls_ok S view_of (c\<lparr>ca_crew := xs @ Between s' # ys, ca_world := w'\<rparr>)"
proof -
  let ?D = "wi_dispatcher S" and ?v = "view_of (w_redis (ca_world c))"
  let ?c = "c\<lparr>ca_crew := xs @ Between s' # ys, ca_world := w'\<rparr>"
  have ok: "streams_ok ?v" "ids_ok ?v" "owned ?v (map in_hand (ca_crew c))"
    "WorkPanicked \<notin> set (map in_hand (ca_crew c))" "faithful ?v (map in_hand (ca_crew c))"
    "tracked_world_but (left_out c) (d_lib ?D) view_of (ca_world c)" "\<forall>k \<in> set (ca_crew c). informed ?D k"
    using assms(2) by (simp_all add: calls_ok_def consumption_ok_def as_program_def pg_view_def)
  obtain ms where r: "s' = Handling ms" "map msg_key ms = head_keys ?v priority_streams"
    "ms = concat (map (oldest_messages 1 ?v) priority_streams)" "view_of (w_redis w') = view_xread priority_streams 1 ?v"
    using read_effect [OF _ _ ok(1) assms(4)] assms(1) by blast
  have pool: "map in_hand (ca_crew c) = map in_hand xs @ AtRead # map in_hand ys" by (simp add: assms(3))
  have "owned (view_of (w_redis w')) (map in_hand (ca_crew ?c))"
    using owned_read(1) [OF ok(2) distinct_priority_streams r(2) ok(3) [unfolded pool]] by (simp add: r(1,4))
  moreover have "faithful (view_of (w_redis w')) (map in_hand (ca_crew ?c))"
    using faithful_read [OF ok(2,1) ok(3,5) [unfolded pool] r(3)] by (simp add: r(1,4))
  moreover have "left_out ?c = left_out c" using assms(3) by (simp add: left_out_def)
  moreover have "keeps_but (left_out c) (d_lib ?D) ?v (view_of (w_redis w'))"
    unfolding r(4) by (rule xread_track) (use left_unread [OF ok(2,3)] in \<open>auto simp: left_out_def\<close>)
  moreover have "w_db w' = w_db (ca_world c)"
    using assms(4) by (auto split: prod.splits option.splits sum.splits)
  moreover have "length ms \<le> 3"
    using arg_cong [OF r(2), of length] length_head_keys [of ?v priority_streams] by (simp add: priority_streams_def)
  then have "informed ?D (Between s')" using oldest_streams [OF ok(1)] by (auto simp: r(1,3))
  ultimately show ?thesis
    using ok assms(3) streams_ok_xread ids_ok_xread tracked_view [OF ok(6)]
    by (auto simp: calls_ok_def consumption_ok_def as_program_def pg_view_def r(1,4))
qed

lemma call_ok:
  assumes "trusted S" "calls_ok S view_of c"
  shows "calls_ok S view_of (apply_call S (Call j x) c)"
proof (cases "j < length (ca_crew c)")
  case True
  obtain k' w' where st: "crew_step (wi_dispatcher S) (wi_consumer S) x (ca_done c) (ca_crew c ! j) (ca_world c) = (k', w')"
    by (metis surj_pair)
  define xs ys where "xs = take j (ca_crew c)" and "ys = drop (Suc j) (ca_crew c)"
  have crew: "ca_crew c = xs @ ca_crew c ! j # ys" "(ca_crew c)[j := k'] = xs @ k' # ys"
    using True unfolding xs_def ys_def by (simp_all add: id_take_nth_drop upd_conv_take_nth_drop)
  have run: "apply_call S (Call j x) c = c\<lparr>ca_crew := xs @ k' # ys, ca_world := w'\<rparr>"
    using True st crew(2) by simp
  note idle = idle_call [OF assms(2) crew(1)]
  show ?thesis
  proof (cases "ca_crew c ! j")
    case (Between s)
    show ?thesis
    proof (cases s)
      case AtRead
      obtain s' w1 where r: "work_step (wi_dispatcher S) (wi_consumer S) no_draws False AtRead (ca_world c) = (s', w1)"
        by (metis surj_pair)
      show ?thesis
      proof (cases "ca_done c")
        case True
        then show ?thesis using idle [of k'] st Between AtRead unfolding run by auto
      next
        case False
        then have "k' = Between s'" "w' = w1" using st r Between AtRead by (simp_all del: work_step.simps)
        then show ?thesis using read_call [OF assms _ r] crew(1) Between AtRead unfolding run by simp
      qed
    next
      case (Handling ms)
      then show ?thesis
        using idle [of k'] st Between unfolding run by (cases ms) auto
    next
      case AtSelect
      then have "k' = Between (if ca_done c then WorkReturned else AtRead)" "w' = ca_world c"
        using st Between by auto
      then show ?thesis using idle [of k'] Between AtSelect unfolding run by (cases "ca_done c") simp_all
    next
      case WorkReturned
      then have "k' = Between s" "w' = ca_world c" using st Between by auto
      then show ?thesis using idle [of k'] Between unfolding run by simp
    next
      case WorkPanicked
      then have "k' = Between s" "w' = ca_world c" using st Between by auto
      then show ?thesis using idle [of k'] Between unfolding run by simp
    qed
  next
    case (Inside m h ms)
    show ?thesis
    proof (cases "h = AtReturn")
      case True
      then show ?thesis using idle [of k'] st Inside unfolding run by auto
    next
      case False
      obtain h' w1 where h: "handler_step (wi_dispatcher S) (ca_done c) x m h (ca_world c) = (h', w1)" by (metis surj_pair)
      then have "k' = Inside m h' ms" "w' = w1" using st Inside False by (simp_all add: inside_step)
      then show ?thesis using handler_call [OF assms _ False h, of xs ms ys] crew(1) Inside unfolding run by simp
    qed
  qed
qed (use assms in simp)

text \<open>Requests, ticks, polls and the signal.\<close>

lemma background_ok:
  assumes "trusted S" "calls_ok S view_of c" "\<And>j x. e \<noteq> Worker j x"
  shows "calls_ok S view_of (background S e c)"
proof -
  let ?D = "wi_dispatcher S" and ?p = "as_program c" and ?c = "background S e c"
  define p' where "p' = apply_event S e ?p"
  have ok: "consumption_ok view_of ?p" "faithful (pg_view view_of ?p) (pg_pool ?p)"
    "tracked_world_but (left_out c) (d_lib ?D) view_of (pg_world ?p)" "\<forall>k \<in> set (ca_crew c). informed ?D k"
    using assms(2) by (simp_all add: calls_ok_def as_program_def pg_view_def)
  have same: "pg_pool p' = pg_pool ?p" "view_steps {} (pg_view view_of ?p) (pg_view view_of p')"
    using other_event [of S e ?p "{}"] assms(1,3) unfolding pg_view_def p'_def by blast+
  have fine: "consumption_ok view_of p'" "tracked_world_but (left_out c) (d_lib ?D) view_of (pg_world p')"
    using consumption_event [OF _ ok(1)] other_tracks [OF assms(1) ok(3) assms(3)] assms(1) unfolding p'_def by blast+
  have faith: "faithful (pg_view view_of p') (pg_pool p')"
    by (rule faithful_shrinks [OF ok(2) entry_steps(2) [OF same(2)]]) (auto simp: same(1))
  have done': "pg_done p' \<longleftrightarrow> ca_done c \<or> e = Signal"
    using assms(3) unfolding p'_def by (cases e) (auto simp: as_program_def split: prod.splits)
  have c: "ca_crew ?c = ca_crew c" "ca_done ?c = pg_done p'"
    "ca_world ?c = ca_world c \<or> ca_world ?c = pg_world p'"
    by (simp_all add: background_def p'_def Let_def)
  have crew: "pg_pool (as_program ?c) = map in_hand (ca_crew c)" "pg_pool ?p = map in_hand (ca_crew c)"
    "pg_world (as_program ?c) = ca_world ?c" "pg_world ?p = ca_world c"
    by (simp_all add: as_program_def c(1))
  have "left_out ?c \<subseteq> left_out c" using c(1,2) done' by (auto simp: left_out_def)
  then have "tracked_world_but (left_out ?c) (d_lib ?D) view_of (ca_world ?c)"
    using c(3) tracked_fewer [OF ok(3)] tracked_fewer [OF fine(2)] crew(4) by auto
  moreover have "consumption_ok view_of (as_program ?c)"
    using c(3) ok(1) fine(1) same(1) crew by (auto simp: consumption_ok_def pg_view_def)
  moreover have "faithful (view_of (w_redis (ca_world ?c))) (map in_hand (ca_crew ?c))"
    using c(1,3) ok(2) faith same(1) crew by (auto simp: pg_view_def)
  ultimately show ?thesis using ok(4) c(1) by (simp add: calls_ok_def)
qed

lemma calls_run: "trusted S \<Longrightarrow> calls_ok S view_of c \<Longrightarrow> calls_ok S view_of (run_calls S es c)"
proof (induction es arbitrary: c)
  case (Cons e es)
  have "calls_ok S view_of (apply_call S e c)"
  proof (cases e)
    case (Call j x)
    then show ?thesis using call_ok [OF Cons.prems] by simp
  next
    case (Background a)
    then show ?thesis using background_ok [OF Cons.prems] Cons.prems(2) by (cases a) simp_all
  qed
  then show ?case using Cons.IH [OF Cons.prems(1)] by simp
qed simp

end

lemma fresh_calls:
  assumes "fresh_start V p n"
  shows "calls_ok S V (opened p)"
proof -
  have "pg_pool p = Pool_Start n" using assms by (simp add: fresh_start_def)
  then have crew: "ca_crew (opened p) = map Between (pg_pool p)" "\<forall>k \<in> set (ca_crew (opened p)). k = Between AtSelect"
    by (simp_all add: opened_def Pool_Start_def)
  have "map in_hand (ca_crew (opened p)) = pg_pool p" by (simp add: crew(1) comp_def)
  then have "as_program (opened p) = p" by (simp add: as_program_def opened_def)
  moreover have "left_out (opened p) = {}" using crew(2) by (auto simp: left_out_def)
  moreover have "\<forall>k \<in> set (ca_crew (opened p)). informed D k" for D :: "'a dispatcher" using crew(2) by auto
  ultimately show ?thesis
    using fresh_account [OF assms, of S] \<open>map in_hand (ca_crew (opened p)) = pg_pool p\<close>
    by (simp add: calls_ok_def account_ok_def pg_view_def) (simp add: opened_def)
qed

section \<open>No notification is lost between calls\<close>


text \<open>A worker that polls, reads and is about to call the provider: the row is processing, its message pending.\<close>

definition demo_moment :: moment where
  "demo_moment = \<lparr>mo_now = 6, mo_random = 7, mo_cut = False, mo_attempt = 9\<rparr>"

definition to_the_provider :: "call_event list" where
  "to_the_provider = Background (Scheduler [] 5 False) # replicate 7 (Call 0 demo_moment)"

lemma to_the_provider_row:
  "map_option r_status (row_at 1 (db_tables (w_db (ca_world (run_calls demo_wiring to_the_provider (opened due_program)))))) =
     Some StatusProcessing"
  by code_simp


section \<open>The shutdown signal\<close>

text \<open>The calls that a worker still makes once its context is done.\<close>

fun handler_left :: "handler \<Rightarrow> nat" where
  "handler_left AtParse = 5"
| "handler_left (AtAllow i) = 4"
| "handler_left (AtSleep i) = 5"
| "handler_left (AtFetch i) = 3"
| "handler_left (AtMark n) = 10"
| "handler_left (AtRefuse n) = 3"
| "handler_left (AtSend n send) = 9"
| "handler_left (AtIncrement n res) = 8"
| "handler_left (AtRecord n res) = 7"
| "handler_left (AtOutcome n res) = 6"
| "handler_left (AtDelivered n) = 4"
| "handler_left (AtAckDelivered n) = 3"
| "handler_left (AtAnnounce n) = 2"
| "handler_left (AtQueued n e t) = 5"
| "handler_left (AtDelay n t) = 4"
| "handler_left (AtAnnounceRetry n t) = 3"
| "handler_left (AtFailed n e) = 5"
| "handler_left (AtBury n e) = 4"
| "handler_left (AtAnnounceFailed n) = 3"
| "handler_left AtAck = 2"
| "handler_left AtReturn = 1"

fun calls_left :: "crew \<Rightarrow> nat" where
  "calls_left (Between (Handling ms)) = 2 + 6 * length ms"
| "calls_left (Between WorkReturned) = 0"
| "calls_left (Between WorkPanicked) = 0"
| "calls_left (Between s) = 1"
| "calls_left (Inside m h ms) = handler_left h + 2 + 6 * length ms"

lemma done_step:
  assumes "crew_step D cn x True k w = (k', w')"
  shows "calls_left k' \<le> calls_left k - 1" "w_db w' = w_db w \<and> w_redis w' = w_redis w \<and> w_sent w' = w_sent w"
    and "k \<noteq> Between WorkPanicked \<Longrightarrow> k' \<noteq> Between WorkPanicked"
proof -
  have h: "handler_left h' \<le> handler_left h - 1 \<and> w_db w2 = w_db w \<and> w_redis w2 = w_redis w \<and> w_sent w2 = w_sent w"
    if "handler_step D True x m h w = (h', w2)" "h \<noteq> AtReturn" for m h h' w2
  proof
    show "handler_left h' \<le> handler_left h - 1"
      using that by (cases h) (auto split: prod.splits option.splits if_splits)
  qed (rule done_handler [OF that(1)])
  have "calls_left k' \<le> calls_left k - 1 \<and> (w_db w' = w_db w \<and> w_redis w' = w_redis w \<and> w_sent w' = w_sent w) \<and>
      (k \<noteq> Between WorkPanicked \<longrightarrow> k' \<noteq> Between WorkPanicked)"
  proof (cases k)
    case (Between s)
    show ?thesis
    proof (cases s)
      case (Handling ms)
      then show ?thesis using assms Between by (cases ms) auto
    qed (use assms Between in auto)
  next
    case (Inside m g ms)
    obtain h' w1 where step: "handler_step D True x m g w = (h', w1)" by (metis surj_pair)
    show ?thesis
    proof (cases "g = AtReturn")
      case True
      then show ?thesis using assms Inside by auto
    next
      case False
      then have "crew_step D cn x True k w = (Inside m h' ms, w1)" using step Inside by (simp add: inside_step)
      then have "k' = Inside m h' ms" "w' = w1" using assms by simp_all
      moreover have "0 < handler_left g" by (cases g) simp_all
      ultimately show ?thesis using h [OF step False] Inside by auto
    qed
  qed
  then show "calls_left k' \<le> calls_left k - 1" "w_db w' = w_db w \<and> w_redis w' = w_redis w \<and> w_sent w' = w_sent w"
    "k \<noteq> Between WorkPanicked \<Longrightarrow> k' \<noteq> Between WorkPanicked" by blast+
qed

text \<open>Any events after the signal, seen from one worker.\<close>

fun calls_of :: "nat \<Rightarrow> call_event list \<Rightarrow> nat" where
  "calls_of j [] = 0"
| "calls_of j (Call i x # es) = (if i = j then Suc (calls_of j es) else calls_of j es)"
| "calls_of j (Background e # es) = calls_of j es"

lemma signalled_call:
  assumes "ca_done c"
  shows "ca_done (apply_call S e c)" "length (ca_crew (apply_call S e c)) = length (ca_crew c)"
    and "w_sent (ca_world (apply_call S e c)) = w_sent (ca_world c)"
    and "\<And>a. e = Background a \<Longrightarrow> ca_crew (apply_call S e c) = ca_crew c"
    and "(\<And>a. e = Background a \<Longrightarrow> \<not> is_request a) \<Longrightarrow>
      w_db (ca_world (apply_call S e c)) = w_db (ca_world c) \<and> w_redis (ca_world (apply_call S e c)) = w_redis (ca_world c)"
    and "j < length (ca_crew c) \<Longrightarrow>
      calls_left (ca_crew (apply_call S e c) ! j) \<le> calls_left (ca_crew c ! j) - (if \<exists>x. e = Call j x then 1 else 0) \<and>
      (ca_crew c ! j \<noteq> Between WorkPanicked \<longrightarrow> ca_crew (apply_call S e c) ! j \<noteq> Between WorkPanicked)"
proof -
  have "ca_done (apply_call S e c) \<and> length (ca_crew (apply_call S e c)) = length (ca_crew c) \<and>
    w_sent (ca_world (apply_call S e c)) = w_sent (ca_world c) \<and>
    (\<forall>a. e = Background a \<longrightarrow> ca_crew (apply_call S e c) = ca_crew c) \<and>
    ((\<forall>a. e = Background a \<longrightarrow> \<not> is_request a) \<longrightarrow>
      w_db (ca_world (apply_call S e c)) = w_db (ca_world c) \<and> w_redis (ca_world (apply_call S e c)) = w_redis (ca_world c)) \<and>
    (\<forall>j < length (ca_crew c).
      calls_left (ca_crew (apply_call S e c) ! j) \<le> calls_left (ca_crew c ! j) - (if \<exists>x. e = Call j x then 1 else 0) \<and>
      (ca_crew c ! j \<noteq> Between WorkPanicked \<longrightarrow> ca_crew (apply_call S e c) ! j \<noteq> Between WorkPanicked))"
  proof (cases e)
    case (Call i x)
    obtain k' w' where st: "crew_step (wi_dispatcher S) (wi_consumer S) x True (ca_crew c ! i) (ca_world c) = (k', w')"
      by (metis surj_pair)
    show ?thesis
      using done_step [OF st] st assms by (auto simp: Call nth_list_update)
  next
    case (Background a)
    show ?thesis
    proof (cases "is_request a")
      case True
      then show ?thesis using assms by (cases a) (auto simp: Background background_def as_program_def Let_def request_step_def with_state_def)
    next
      case False
      then show ?thesis
        using assms by (cases a) (auto simp: Background background_def as_program_def Let_def split: prod.splits)
    qed
  qed
  then show "ca_done (apply_call S e c)" "length (ca_crew (apply_call S e c)) = length (ca_crew c)"
    "w_sent (ca_world (apply_call S e c)) = w_sent (ca_world c)"
    "\<And>a. e = Background a \<Longrightarrow> ca_crew (apply_call S e c) = ca_crew c"
    "(\<And>a. e = Background a \<Longrightarrow> \<not> is_request a) \<Longrightarrow>
      w_db (ca_world (apply_call S e c)) = w_db (ca_world c) \<and> w_redis (ca_world (apply_call S e c)) = w_redis (ca_world c)"
    "j < length (ca_crew c) \<Longrightarrow>
      calls_left (ca_crew (apply_call S e c) ! j) \<le> calls_left (ca_crew c ! j) - (if \<exists>x. e = Call j x then 1 else 0) \<and>
      (ca_crew c ! j \<noteq> Between WorkPanicked \<longrightarrow> ca_crew (apply_call S e c) ! j \<noteq> Between WorkPanicked)"
    by blast+
qed

lemma crew_length: "length (ca_crew (run_calls S es c)) = length (ca_crew c)"
proof (induction es arbitrary: c)
  case (Cons e es)
  have "length (ca_crew (apply_call S e c)) = length (ca_crew c)"
  proof (cases e)
    case (Background a)
    then show ?thesis by (cases a) (simp_all add: background_def Let_def)
  qed (simp split: prod.splits)
  then show ?case using Cons.IH by simp
qed simp

lemma signalled_run:
  assumes "ca_done c"
  shows "w_sent (ca_world (run_calls S es c)) = w_sent (ca_world c)"
    and "(\<And>a. Background a \<in> set es \<Longrightarrow> \<not> is_request a) \<Longrightarrow>
      w_db (ca_world (run_calls S es c)) = w_db (ca_world c) \<and> w_redis (ca_world (run_calls S es c)) = w_redis (ca_world c)"
    and "j < length (ca_crew c) \<Longrightarrow> calls_left (ca_crew (run_calls S es c) ! j) \<le> calls_left (ca_crew c ! j) - calls_of j es \<and>
      (ca_crew c ! j \<noteq> Between WorkPanicked \<longrightarrow> ca_crew (run_calls S es c) ! j \<noteq> Between WorkPanicked)"
proof -
  show "w_sent (ca_world (run_calls S es c)) = w_sent (ca_world c)"
    using assms by (induction es arbitrary: c) (simp_all add: signalled_call(1,3))
  show "w_db (ca_world (run_calls S es c)) = w_db (ca_world c) \<and> w_redis (ca_world (run_calls S es c)) = w_redis (ca_world c)"
    if "\<And>a. Background a \<in> set es \<Longrightarrow> \<not> is_request a"
    using assms that
  proof (induction es arbitrary: c)
    case (Cons e es)
    then show ?case using signalled_call(1) [OF Cons.prems(1), of S e] signalled_call(5) [OF Cons.prems(1), of e S] Cons.IH [of "apply_call S e c"] by simp
  qed simp
  show "calls_left (ca_crew (run_calls S es c) ! j) \<le> calls_left (ca_crew c ! j) - calls_of j es \<and>
      (ca_crew c ! j \<noteq> Between WorkPanicked \<longrightarrow> ca_crew (run_calls S es c) ! j \<noteq> Between WorkPanicked)"
    if "j < length (ca_crew c)"
    using assms that
  proof (induction es arbitrary: c)
    case (Cons e es)
    have "calls_of j (e # es) = (if \<exists>x. e = Call j x then 1 else 0) + calls_of j es" by (cases e) auto
    then show ?case
      using signalled_call(1,2) [OF Cons.prems(1), of S e] signalled_call(6) [OF Cons.prems, of S e]
        Cons.IH [of "apply_call S e c"] Cons.prems(2) by fastforce
  qed simp
qed

context redis_service
begin

lemma signalled_view:
  assumes "serves S" "ca_done c"
  shows "view_steps {} (view_of (w_redis (ca_world c))) (view_of (w_redis (ca_world (run_calls S es c))))"
  using assms(2)
proof (induction es arbitrary: c)
  case (Cons e es)
  have "view_steps {} (view_of (w_redis (ca_world c))) (view_of (w_redis (ca_world (apply_call S e c))))"
  proof (cases "\<exists>a. e = Background a \<and> is_request a")
    case True
    then obtain su fresh rq where e: "e = Background (Request su fresh rq)" using is_request.elims(2) by metis
    show ?thesis
      using other_event [of S "Request su fresh rq" "as_program c" "{}"] assms(1)
      by (simp add: e background_def as_program_def Let_def)
  next
    case False
    then have "w_redis (ca_world (apply_call S e c)) = w_redis (ca_world c)"
      using signalled_call(5) [OF Cons.prems, of e S] by blast
    then show ?thesis by simp
  qed
  then show ?case
    using Cons.IH [OF signalled_call(1) [OF Cons.prems]] view_steps_trans by (metis run_calls_simps(2))
qed simp

end

text \<open>
  Property C38. The shutdown ends: once the signal has come, every worker has returned after twenty-four further
  calls at most, wherever it was, however long the limiter would have made it wait, and whatever
  requests are still served; so \<open>Pool.Wait\<close> returns.
\<close>

theorem workers_return_after_signal:
  assumes "redis_service (d_redis (wi_dispatcher S)) V" "redis_up (d_redis (wi_dispatcher S))"
    and "uuid_laws (d_lib (wi_dispatcher S))" "providers_ok (wi_dispatcher S)"
    and "fresh_start V p n" "c = run_calls S before (opened p)" "ca_done c"
    and "\<forall>j < nat n. 24 \<le> calls_of j es"
  shows "Pool_Wait (map in_hand (ca_crew (run_calls S es c)))"
proof -
  let ?c = "run_calls S es c"
  have ok: "calls_ok S V c"
    using redis_service.calls_run [OF assms(1)] assms(2-4,6) fresh_calls [OF assms(5)] by blast
  have "length (ca_crew c) = nat n"
    using assms(5) by (simp add: assms(6) crew_length opened_def fresh_start_def Pool_Start_def)
  then have len: "length (ca_crew c) = nat n" "length (ca_crew ?c) = nat n" by (simp_all add: crew_length)
  have "in_hand (ca_crew ?c ! j) = WorkReturned" if j: "j < nat n" for j
  proof -
    have at: "ca_crew c ! j \<in> set (ca_crew c)" using j len by simp
    have "WorkPanicked \<notin> in_hand ` set (ca_crew c)" "informed (wi_dispatcher S) (ca_crew c ! j)"
      using ok at by (simp_all add: calls_ok_def consumption_ok_def as_program_def)
    then have "ca_crew c ! j \<noteq> Between WorkPanicked" "informed (wi_dispatcher S) (ca_crew c ! j)"
      using at by force+
    moreover have "calls_left k \<le> 24" if "informed D k" for D :: "'a dispatcher" and k
    proof (cases k)
      case (Between s)
      then show ?thesis using that by (cases s) auto
    next
      case (Inside m h ms)
      have "handler_left h \<le> 10" by (cases h) simp_all
      then show ?thesis using that Inside by simp
    qed
    ultimately have "calls_left (ca_crew ?c ! j) = 0" "ca_crew ?c ! j \<noteq> Between WorkPanicked"
      using signalled_run(3) [OF assms(7), of j S es] assms(8) j len by fastforce+
    then show ?thesis by (cases "ca_crew ?c ! j" rule: calls_left.cases) auto
  qed
  then show ?thesis using len by (auto simp: Pool_Wait_def in_set_conv_nth)
qed

text \<open>The same worker one call further, the notification with its provider, and then the signal.\<close>

definition sent_then_signal :: "call_event list" where
  "sent_then_signal = to_the_provider @ [Call 0 demo_moment, Background Signal]"

lemma sent_then_signal_done: "ca_done (run_calls demo_wiring sent_then_signal (opened due_program))"
  by code_simp

lemma sent_then_signal_crew:
  "map (\<lambda>k. map m_message_id (work_messages (in_hand k))) (ca_crew (run_calls demo_wiring sent_then_signal (opened due_program))) = [[''0'']]"
  "map (\<lambda>k. map m_stream_id (work_messages (in_hand k))) (ca_crew (run_calls demo_wiring sent_then_signal (opened due_program))) =
     [[''notifications:high'']]"
  "map n_id (w_sent (ca_world (run_calls demo_wiring sent_then_signal (opened due_program)))) = [1]"
  by code_simp+

theorem workers_return_after_signal_witness:
  "Pool_Wait (map in_hand (ca_crew (run_calls demo_wiring (replicate 24 (Call 0 demo_moment))
     (run_calls demo_wiring sent_then_signal (opened due_program)))))"
proof -
  have "\<forall>j < nat 1. 24 \<le> calls_of j (replicate 24 (Call 0 demo_moment))" by (simp add: numeral_eq_Suc)
  from workers_return_after_signal [OF _ _ demo_trusted(1,2) due_program_fresh refl sent_then_signal_done this] show ?thesis
    using ref.redis_service_axioms by (simp del: run_calls_simps)
qed

text \<open>
  Property C39. The signal cuts deliveries short: it cancels the context of every call that a worker makes, so from
  then on nothing of what the workers, the ticker of the delayed set and the scheduler do has an effect.
  No provider is called any more, and a message in hand stays pending, whatever requests come: when
  its notification has been handed to the provider before the signal, the outcome is not recorded and
  the message is not acknowledged. Without requests the database and Redis stay as they are.
\<close>

theorem signal_cuts_deliveries:
  assumes "redis_service (d_redis (wi_dispatcher S)) V" "redis_up (d_redis (wi_dispatcher S))"
    and "uuid_laws (d_lib (wi_dispatcher S))" "providers_ok (wi_dispatcher S)"
    and "fresh_start V p n" "c = run_calls S before (opened p)" "ca_done c" "c' = run_calls S es c"
    and "k \<in> set (ca_crew c)" "m \<in> set (work_messages (in_hand k))"
  shows "m_message_id m \<in> ids (v_pending (V (w_redis (ca_world c'))) (m_stream_id m)) \<and>
    w_sent (ca_world c') = w_sent (ca_world c) \<and>
    ((\<forall>a. Background a \<in> set es \<longrightarrow> \<not> is_request a) \<longrightarrow>
      w_db (ca_world c') = w_db (ca_world c) \<and> w_redis (ca_world c') = w_redis (ca_world c))"
proof -
  let ?v = "V (w_redis (ca_world c))"
  have "calls_ok S V c"
    using redis_service.calls_run [OF assms(1)] assms(2-4,6) fresh_calls [OF assms(5)] by blast
  then have "owned ?v (map in_hand (ca_crew c))"
    by (simp add: calls_ok_def consumption_ok_def as_program_def pg_view_def)
  moreover have "in_hand k \<in> set (map in_hand (ca_crew c))" using assms(9) by simp
  ultimately have "m_message_id m \<in> ids (v_pending ?v (m_stream_id m))" using held_pending assms(10) by blast
  then have "msg_key m \<in> pending_keys ?v" by (simp add: pending_keys_def msg_key_def)
  moreover have "view_steps {} ?v (V (w_redis (ca_world c')))"
    using redis_service.signalled_view [OF assms(1) _ assms(7), of S es] assms(2) unfolding assms(8) by blast
  ultimately have "msg_key m \<in> pending_keys (V (w_redis (ca_world c')))" using pending_kept by blast
  then show ?thesis
    using signalled_run(1) [OF assms(7), of S es] signalled_run(2) [OF assms(7), of es S] unfolding assms(8) by (simp add: pending_keys_def msg_key_def)
qed

theorem signal_cuts_deliveries_witness:
  "\<exists>k m. k \<in> set (ca_crew (run_calls demo_wiring sent_then_signal (opened due_program))) \<and>
     m \<in> set (work_messages (in_hand k)) \<and>
     (let c' = run_calls demo_wiring (replicate 24 (Call 0 demo_moment)) (run_calls demo_wiring sent_then_signal (opened due_program)) in
      m_message_id m \<in> ids (v_pending (state_view (w_redis (ca_world c'))) (m_stream_id m)) \<and>
      map n_id (w_sent (ca_world c')) = [1])"
proof -
  let ?c = "run_calls demo_wiring sent_then_signal (opened due_program)"
  obtain k m where km: "k \<in> set (ca_crew ?c)" "m \<in> set (work_messages (in_hand k))"
    using sent_then_signal_crew(1) by (cases "ca_crew ?c"; cases "work_messages (in_hand (hd (ca_crew ?c)))") auto
  let ?es = "replicate 24 (Call 0 demo_moment)"
  have "m_message_id m \<in> ids (v_pending (state_view (w_redis (ca_world (run_calls demo_wiring ?es ?c)))) (m_stream_id m)) \<and>
      w_sent (ca_world (run_calls demo_wiring ?es ?c)) = w_sent (ca_world ?c)"
    using signal_cuts_deliveries [OF _ _ demo_trusted(1,2) due_program_fresh refl sent_then_signal_done refl km, of ?es]
      ref.redis_service_axioms by (simp only: demo_wiring_redis redis_ref_up)
  then have "m_message_id m \<in> ids (v_pending (state_view (w_redis (ca_world (run_calls demo_wiring ?es ?c)))) (m_stream_id m))"
    "map n_id (w_sent (ca_world (run_calls demo_wiring ?es ?c))) = [1]"
    using sent_then_signal_crew(3) by (blast, metis)
  with km show ?thesis unfolding Let_def by (intro exI [of _ k] exI [of _ m] conjI)
qed

end
