(* ===== verification/Sending.thy ===== *)
theory Sending
  imports Fixtures
begin

text \<open>
  The rules of a single delivery: which contents are accepted for a channel, how a provider's
  answer is classified, and how long a failed delivery waits.
\<close>

section \<open>Content rules\<close>

text \<open>
  Property C25. The content rules decide exactly \<open>content_ok\<close>: a body, and an email address with a
  subject, or an E.164 number with at most 1600 bytes of body, or a device token that is not
  blank with at most 4096. Whatever is refused is refused with \<open>ErrValidation\<close>, and with
  \<open>ErrInvalidChannel\<close> when the channel is none of the three.
\<close>

theorem ValidateNotificationContent_decides:
  "case ValidateNotificationContent L channel recipient subject body of
     None \<Rightarrow> content_ok L channel recipient subject body
   | Some e \<Rightarrow> \<not> content_ok L channel recipient subject body \<and>
       errors_Is e (if channel_valid channel then ErrValidation else ErrInvalidChannel)"
  using content_accepted [of L channel recipient subject body]
    content_rejected [of L channel recipient subject body]
  by (cases "ValidateNotificationContent L channel recipient subject body") simp_all

section \<open>Providers\<close>

text \<open>
  A delivery through any of the three providers posts one payload, with the body and the
  channel of the notification, to the configured path, and its result is read off the answer:
  the status and the first 4096 bytes of the body, an error from status 400 on, and an error with
  status 0 when there was no answer. Errors always have a text.
\<close>

theorem provider_classifies:
  assumes "send \<in> {EmailProvider_Send, SMSProvider_Send, PushProvider_Send}"
    and "res = send baseURL path http ms n"
  shows "\<exists>payload. (''body'', n_body n) \<in> set payload \<and> (''channel'', n_channel n) \<in> set payload \<and>
    n_recipient n \<in> snd ` set payload \<and>
    (case http (baseURL @ path) payload of
       Response code body \<Rightarrow> res_status_code res = code \<and> res_body res = take 4096 body \<and>
         (case res_error res of None \<Rightarrow> code < 400 | Some e \<Rightarrow> 400 \<le> code \<and> errors_Is e ErrProviderFailure)
     | _ \<Rightarrow> res_status_code res = 0 \<and> res_body res = '''' \<and> res_error res \<noteq> None) \<and>
    res_duration_ms res = ms \<and> (\<forall>e. res_error res = Some e \<longrightarrow> error_text e \<noteq> '''')"
proof -
  have "\<exists>kind payload. res = post_payload kind baseURL path http ms payload \<and>
      (''body'', n_body n) \<in> set payload \<and> (''channel'', n_channel n) \<in> set payload \<and>
      n_recipient n \<in> snd ` set payload"
  proof -
    consider "send = EmailProvider_Send" | "send = SMSProvider_Send" | "send = PushProvider_Send"
      using assms(1) by blast
    then show ?thesis
    proof cases
      case 1
      show ?thesis
        unfolding assms(2) 1 EmailProvider_Send_def by (intro exI conjI, rule refl) simp_all
    next
      case 2
      show ?thesis
        unfolding assms(2) 2 SMSProvider_Send_def by (intro exI conjI, rule refl) simp_all
    next
      case 3
      show ?thesis
        unfolding assms(2) 3 PushProvider_Send_def by (intro exI conjI, rule refl) simp_all
    qed
  qed
  then obtain kind payload where res: "res = post_payload kind baseURL path http ms payload"
    and p: "(''body'', n_body n) \<in> set payload" "(''channel'', n_channel n) \<in> set payload"
      "n_recipient n \<in> snd ` set payload" by blast
  show ?thesis
    by (intro exI [of _ payload])
      (use p in \<open>auto simp: res post_payload_def split: http_outcome.splits\<close>)
qed

definition demo_sent :: notification where
  "demo_sent = scanNotification (demo_row 0 ''processing'')"

theorem provider_classifies_witness:
  "res_error (SMSProvider_Send ''https://hook'' ''/sms'' (\<lambda>u p. Response 302 ''moved'') 7 demo_sent) = None \<and>
   res_error (SMSProvider_Send ''https://hook'' ''/sms'' (\<lambda>u p. TransportError ''refused'') 7 demo_sent) \<noteq> None"
  using provider_classifies [of SMSProvider_Send _ "''https://hook''" "''/sms''" "\<lambda>u p. Response 302 ''moved''" 7 demo_sent, OF _ refl]
    provider_classifies [of SMSProvider_Send _ "''https://hook''" "''/sms''" "\<lambda>u p. TransportError ''refused''" 7 demo_sent, OF _ refl]
  by (auto split: option.splits)

section \<open>The retry schedule\<close>

text \<open>
  The wait before a retry is \<open>2 ^ n\<close> seconds after \<open>n\<close> attempts, up to eight attempts, and
  five minutes from the ninth on. It never exceeds five minutes, is never negative, never shrinks
  from one attempt to the next, and depends on nothing else: there is no jitter.
\<close>

theorem Backoff_schedule:
  "Backoff (int n) = (if n \<le> 8 then 2 ^ n * Second else 5 * Minute) \<and>
   0 \<le> Backoff a \<and> Backoff a \<le> 5 * Minute \<and> mono Backoff \<and>
   RetryAt now a - now = Backoff a"
  using Backoff_uncapped [of n] Backoff_capped [of n] Backoff_bounds Backoff_mono
  by (auto simp: RetryAt_def intro!: monoI)

end
