(* ===== verification/Broadcasts.thy ===== *)
theory Broadcasts
  imports Hub
begin

text \<open>
  What the websocket hub promises, stated against its abstract specification: the relation
  between notifications and connections that the events so far amount to.
\<close>

section \<open>The subscriptions\<close>

fun subscriptions :: "hub_event list \<Rightarrow> (uuid \<times> nat) set" where
  "subscriptions [] = {}"
| "subscriptions (e # es) =
     (case e of Subscribed i c \<Rightarrow> insert (i, c) (subscriptions es)
      | Unsubscribed i c \<Rightarrow> subscriptions es - {(i, c)})"

lemma hub_run_append: "hub_run (es @ es') h = hub_run es' (hub_run es h)"
  by (simp add: hub_run_def)

lemma hub_run_subscriptions:
  "set (hub_conns i (hub_run (rev es) NewHub)) = {c. (i, c) \<in> subscriptions es}"
proof (induction es)
  case Nil
  then show ?case by (simp add: hub_run_def hub_conns_def NewHub_def)
next
  case (Cons e es)
  note ok = hub_run_ok [OF hub_ok_new, of "rev es"]
  have step: "hub_run (rev (e # es)) NewHub = hub_apply e (hub_run (rev es) NewHub)"
    by (simp add: hub_run_def)
  show ?case
    using hub_conns_subscribe [OF ok] hub_conns_unsubscribe [OF ok] Cons.IH
    unfolding step by (cases e) auto
qed

text \<open>
  Property C23. A broadcast writes the message for its notification to exactly the connections that have
  subscribed to it and not unsubscribed since, whatever the other subscriptions and their order.
\<close>

theorem Broadcast_reaches_subscribers:
  "set (Broadcast L i st (hub_run (rev es) NewHub)) =
     (\<lambda>c. (c, broadcast_message L i st)) ` {c. (i, c) \<in> subscriptions es}"
proof -
  have "Broadcast L i st h = map (\<lambda>c. (c, broadcast_message L i st)) (hub_conns i h)" for h
    by (simp add: Broadcast_def broadcast_send_def broadcast_lookup_def hub_conns_def split: option.splits)
  then show ?thesis using hub_run_subscriptions [of i es] by simp
qed

text \<open>
  Other goroutines may subscribe and unsubscribe between the two locked sections of a
  broadcast. A connection that was subscribed at the first and is not removed before the second
  gets the message; and nobody gets it who is not subscribed at the second.
\<close>

theorem Broadcast_between_locks:
  assumes "h = hub_run es NewHub" "ref = broadcast_lookup i h" "h' = hub_run es' h"
  shows "(\<forall>c \<in> set (hub_conns i h). Unsubscribed i c \<notin> set es' \<longrightarrow>
      (c, broadcast_message L i st) \<in> set (broadcast_send L i st ref h')) \<and>
    (\<forall>(c, m) \<in> set (broadcast_send L i st ref h'). c \<in> set (hub_conns i h') \<and> m = broadcast_message L i st)"
proof (cases ref)
  case None
  then show ?thesis
    using assms(2) by (simp add: broadcast_send_def broadcast_lookup_def hub_conns_def)
next
  case (Some a)
  have ok: "hub_ok h" using hub_run_ok [OF hub_ok_new] assms(1) by simp
  have sub: "hub_subscribers h i = Some a" using assms(2) Some by (simp add: broadcast_lookup_def)
  have r: "ref_of i a h" using hub_okD(1) [OF ok sub] sub by (simp add: ref_of_def)
  then have r': "ref_of i a h'" "hub_ok h'"
    using hub_run_keeps [OF ok r, of es'] assms(3) by simp_all
  have "set (hub_store h' a) \<subseteq> set (hub_conns i h')"
    using ref_of_store [OF r'(2,1)] by auto
  moreover have "c \<in> set (hub_store h' a)" if "c \<in> set (hub_conns i h)" "Unsubscribed i c \<notin> set es'" for c
    using hub_conns_stays [OF ok r _ that(2)] that(1) sub assms(3) by (simp add: hub_conns_def)
  ultimately show ?thesis by (auto simp: broadcast_send_def Some)
qed

theorem Broadcast_between_locks_witness:
  "set (map fst (broadcast_send example_lib 7 ''delivered''
     (broadcast_lookup 7 (hub_run [Subscribed 7 1, Subscribed 7 2] NewHub))
     (hub_run [Unsubscribed 7 2, Subscribed 7 3] (hub_run [Subscribed 7 1, Subscribed 7 2] NewHub)))) \<subseteq> {1, 3} \<and>
   1 \<in> set (map fst (broadcast_send example_lib 7 ''delivered''
     (broadcast_lookup 7 (hub_run [Subscribed 7 1, Subscribed 7 2] NewHub))
     (hub_run [Unsubscribed 7 2, Subscribed 7 3] (hub_run [Subscribed 7 1, Subscribed 7 2] NewHub))))"
proof -
  let ?h = "hub_run [Subscribed 7 1, Subscribed 7 2] NewHub"
  let ?h' = "hub_run [Unsubscribed 7 2, Subscribed 7 3] ?h"
  have "set (hub_conns 7 ?h) = {1, 2}" "set (hub_conns 7 ?h') = {1, 3}"
    by (simp_all add: hub_run_def hub_subscribe_def hub_unsubscribe_def NewHub_def hub_conns_def
        List.insert_def Let_def insert_commute)
  moreover define B where
    "B = broadcast_send example_lib 7 ''delivered'' (broadcast_lookup 7 ?h) ?h'"
  ultimately have conns: "set (hub_conns 7 ?h) = {1, 2}" "set (hub_conns 7 ?h') = {1, 3}" by blast+
  have "(\<forall>c \<in> set (hub_conns 7 ?h). Unsubscribed 7 c \<notin> set [Unsubscribed 7 2, Subscribed 7 3] \<longrightarrow>
      (c, broadcast_message example_lib 7 ''delivered'') \<in> set B) \<and>
    (\<forall>(c, m) \<in> set B. c \<in> set (hub_conns 7 ?h') \<and> m = broadcast_message example_lib 7 ''delivered'')"
    unfolding B_def by (rule Broadcast_between_locks [OF refl refl refl])
  then have "(1, broadcast_message example_lib 7 ''delivered'') \<in> set B" "\<forall>(c, m) \<in> set B. c \<in> {1, 3}"
    unfolding conns by auto
  then have "set (map fst B) \<subseteq> {1, 3} \<and> 1 \<in> set (map fst B)" by force
  then show ?thesis unfolding B_def .
qed

end
