(* ===== verification/Listing.thy ===== *)
theory Listing
  imports Fixtures
begin

text \<open>
  Keyset pagination: what one page of a listing holds, that following the cursors visits every
  matching notification once and comes to an end, and what a caller sees when the server refuses
  the filter or the connection breaks while rows are read.
\<close>

section \<open>The order of a listing\<close>

lemma newest_first_set [simp]: "set (newest_first rows) = set rows"
  by (simp add: newest_first_def)

lemma newest_first_length [simp]: "length (newest_first rows) = length rows"
  by (simp add: newest_first_def)

lemma newest_first_filter: "newest_first (filter p rows) = filter p (newest_first rows)"
  by (simp only: newest_first_def filter_sort [symmetric] rev_filter)

lemma distinct_cursors:
  assumes "distinct (map r_id rows)"
  shows "distinct (map row_cursor rows)"
proof -
  have "map r_id rows = map cursor_id (map row_cursor rows)" by (simp add: row_cursor_def)
  then show ?thesis using assms distinct_map by metis
qed

lemma newest_first_descending:
  assumes "distinct (map r_id rows)"
  shows "sorted_wrt (\<lambda>a b. row_cursor b < row_cursor a) (newest_first rows)"
proof -
  have "distinct (map row_cursor (sort_key row_cursor rows))"
    using distinct_cursors [OF assms] by (simp add: distinct_map)
  then have "sorted_wrt (<) (map row_cursor (sort_key row_cursor rows))"
    by (simp add: strict_sorted_iff)
  then show ?thesis by (simp add: newest_first_def sorted_wrt_rev sorted_wrt_map)
qed

lemma descending_rest:
  assumes "sorted_wrt (\<lambda>a b. row_cursor b < row_cursor a) s" "0 < n" "n \<le> length s"
  shows "filter (\<lambda>r. row_cursor r < row_cursor (s ! (n - 1))) s = drop n s"
proof -
  let ?c = "row_cursor (s ! (n - 1))"
  have at: "\<not> row_cursor (s ! k) < ?c" if "k < n" for k
  proof (cases "k = n - 1")
    case False
    then have "row_cursor (s ! (n - 1)) < row_cursor (s ! k)"
      using sorted_wrt_nth_less [OF assms(1), of k "n - 1"] that assms(2,3) by simp
    then show ?thesis by (rule less_not_sym)
  qed simp
  then have "\<forall>r \<in> set (take n s). \<not> row_cursor r < ?c"
    using assms(3) by (auto simp: in_set_conv_nth)
  then have "filter (\<lambda>r. row_cursor r < ?c) (take n s) = []" by (simp add: filter_empty_conv)
  moreover have after: "row_cursor (s ! k) < ?c" if "n \<le> k" "k < length s" for k
    using sorted_wrt_nth_less [OF assms(1), of "n - 1" k] that assms(2) by simp
  have "row_cursor r < ?c" if r: "r \<in> set (drop n s)" for r
  proof -
    obtain k where "k < length s - n" "s ! (n + k) = r"
      using r assms(3) by (auto simp: in_set_conv_nth nth_drop)
    then show ?thesis using after [of "n + k"] by simp
  qed
  then have "filter (\<lambda>r. row_cursor r < ?c) (drop n s) = drop n s" by (simp add: filter_id_conv)
  moreover have "filter (\<lambda>r. row_cursor r < ?c) s =
      filter (\<lambda>r. row_cursor r < ?c) (take n s) @ filter (\<lambda>r. row_cursor r < ?c) (drop n s)"
    by (metis append_take_drop_id filter_append)
  ultimately show ?thesis by simp
qed

section \<open>One page\<close>

lemma effective_limit_bounds: "0 < effective_limit l" "effective_limit l \<le> 100"
  by (auto simp: effective_limit_def)

definition listed :: "notification_filter \<Rightarrow> db \<Rightarrow> nrow list" where
  "listed f d = newest_first (filter (filter_matches f) (notifications (db_tables d)))"

lemma listed_distinct:
  assumes "rows_ok (db_tables d)"
  shows "distinct (map r_id (filter (filter_matches f) (notifications (db_tables d))))"
  using assms by (simp add: rows_ok_def distinct_map_filter)

lemma repo_List_result:
  assumes "no_faults d" "\<not> filter_type_error f" "n = nat (effective_limit (f_limit f))"
  shows "repo_List f d =
    (Inr \<lparr>l_notifications = map scanNotification (take n (listed f d)),
          l_next_cursor = (if n < length (listed f d) then Some (row_cursor (listed f d ! (n - 1))) else None)\<rparr>,
     d\<lparr>db_calls := Suc (db_calls d)\<rparr>)"
proof -
  have n: "0 < n" "effective_limit (f_limit f) = int n" "nat (effective_limit (f_limit f) + 1) = Suc n"
    using effective_limit_bounds [of "f_limit f"] assms(3) by auto
  let ?s = "listed f d"
  have q: "pg_query (sql_list_notifications f (effective_limit (f_limit f) + 1)) d =
      (Inr (take (Suc n) ?s), d\<lparr>db_calls := Suc (db_calls d)\<rparr>)"
    using assms(1,2) n(3) by (simp add: pg_query_faultless sql_list_notifications_def rows_seen_def listed_def)
  show ?thesis
  proof (cases "n < length ?s")
    case True
    then have ne: "take n ?s \<noteq> []" using n(1) by auto
    then have "last (take n ?s) = ?s ! (n - 1)"
      using n(1) True by (simp add: last_conv_nth)
    then have "last (map scanNotification (take n ?s)) = scanNotification (?s ! (n - 1))"
      using ne by (simp add: last_map)
    then show ?thesis
      using q True n by (simp add: repo_List_def Let_def take_map row_cursor_def min_def)
  next
    case False
    then show ?thesis using q n by (simp add: repo_List_def Let_def)
  qed
qed

text \<open>
  One page of a listing: the newest matching notifications, strictly descending by time of
  creation and identifier, as many as the limit, which is between 1 and 100 whatever was asked;
  and a cursor exactly when more match, naming the last notification of the page.
\<close>

theorem List_page:
  assumes "no_faults d" "rows_ok (db_tables d)" "\<not> filter_type_error f"
    and "NotificationService_List f d = (res, d')"
  shows "\<exists>page. res = Inr page \<and> db_tables d' = db_tables d \<and>
    (let n = nat (if f_limit f \<le> 0 \<or> f_limit f > 100 then 50 else f_limit f); rows = listed f d in
      set rows = {r \<in> set (notifications (db_tables d)). filter_matches f r} \<and>
      sorted_wrt (\<lambda>a b. row_cursor b < row_cursor a) rows \<and>
      l_notifications page = map scanNotification (take n rows) \<and>
      l_next_cursor page = (if n < length rows then Some (row_cursor (rows ! (n - 1))) else None))"
  using repo_List_result [OF assms(1,3) refl] assms(4)
    newest_first_descending [OF listed_distinct [OF assms(2)], of f]
  by (auto simp: NotificationService_List_def Let_def listed_def effective_limit_def)

definition any_filter :: "int \<Rightarrow> notification_filter" where
  "any_filter limit = \<lparr>f_status = None, f_channel = None, f_batch_id = None, f_cursor = None, f_limit = limit\<rparr>"

lemma any_filter_simps [simp]: "\<not> filter_type_error (any_filter l)" "filter_matches (any_filter l) r"
  "f_limit (any_filter l) = l" "f_cursor (any_filter l) = None"
  by (simp_all add: any_filter_def filter_type_error_def filter_matches_def)

theorem List_page_witness:
  "\<exists>page d'. NotificationService_List (any_filter 10) (demo_db [demo_row 0 ''queued'']) = (Inr page, d') \<and>
     map n_id (l_notifications page) = [1] \<and> l_next_cursor page = None"
proof -
  let ?d = "demo_db [demo_row 0 ''queued'']"
  obtain res d' where c: "NotificationService_List (any_filter 10) ?d = (res, d')" by (metis surj_pair)
  have rows: "rows_ok (db_tables ?d)" by (simp add: demo_row_ok)
  have "listed (any_filter 10) ?d = [demo_row 0 ''queued'']" by (simp add: listed_def newest_first_def)
  then show ?thesis
    using List_page [OF demo_faultless rows _ c] c by (auto simp: Let_def)
qed

section \<open>Following the cursors\<close>

text \<open>
  A client that asks for page after page: the notifications of all pages together, \<open>None\<close> when
  the fuel ran out before the last page.
\<close>

fun list_pages ::
  "nat \<Rightarrow> notification_filter \<Rightarrow> db \<Rightarrow> (go_error + notification list) option \<times> db" where
  "list_pages 0 f d = (None, d)"
| "list_pages (Suc k) f d =
     (case NotificationService_List f d of
        (Inl e, d) \<Rightarrow> (Some (Inl e), d)
      | (Inr page, d) \<Rightarrow>
         (case l_next_cursor page of
            None \<Rightarrow> (Some (Inr (l_notifications page)), d)
          | Some c \<Rightarrow>
             (case list_pages k (f\<lparr>f_cursor := Some c\<rparr>) d of
                (Some (Inr rest), d) \<Rightarrow> (Some (Inr (l_notifications page @ rest)), d)
              | (r, d) \<Rightarrow> (r, d))))"

lemma listed_after:
  assumes "rows_ok (db_tables d)" "0 < n" "n \<le> length (listed f d)"
  shows "listed (f\<lparr>f_cursor := Some (row_cursor (listed f d ! (n - 1)))\<rparr>) d = drop n (listed f d)"
proof -
  let ?s = "listed f d" and ?c = "row_cursor (listed f d ! (n - 1))"
  let ?g = "f\<lparr>f_cursor := Some ?c\<rparr>"
  let ?all = "newest_first (filter (filter_matches (f\<lparr>f_cursor := None\<rparr>)) (notifications (db_tables d)))"
  have mem: "?s ! (n - 1) \<in> set ?s" using assms(2,3) by (intro nth_mem) simp
  then have "row_ok (?s ! (n - 1))" using assms(1) by (auto simp: listed_def rows_ok_def)
  then have param: "cursor_param ?c = ?c" by (simp add: cursor_param_def row_cursor_def row_ok_def)
  have split: "filter_matches ?g r \<longleftrightarrow> filter_matches f r \<and> row_cursor r < ?c" if "filter_matches ?g r \<or> filter_matches f r" for r
  proof -
    have "row_cursor r < ?c \<Longrightarrow> filter_matches (f\<lparr>f_cursor := None\<rparr>) r \<Longrightarrow> filter_matches f r"
    proof (cases "f_cursor f")
      case (Some c0)
      assume a: "row_cursor r < ?c" "filter_matches (f\<lparr>f_cursor := None\<rparr>) r"
      have "row_cursor (?s ! (n - 1)) < cursor_param c0"
        using mem Some by (auto simp: listed_def filter_matches_def)
      then have "row_cursor r < cursor_param c0" using a(1) by (rule less_trans [rotated])
      then show ?thesis using a(2) Some by (simp add: filter_matches_def)
    qed (simp add: filter_matches_def)
    then show ?thesis using param that by (auto simp: filter_matches_def split: option.splits)
  qed
  have "filter (filter_matches ?g) (notifications (db_tables d)) =
      filter (\<lambda>r. row_cursor r < ?c) (filter (filter_matches f) (notifications (db_tables d)))"
    using split by (auto simp: filter_filter intro!: filter_cong)
  then have "listed ?g d = filter (\<lambda>r. row_cursor r < ?c) ?s"
    by (simp only: listed_def newest_first_filter)
  also have "\<dots> = drop n ?s"
    using descending_rest [OF newest_first_descending [OF listed_distinct [OF assms(1)], of f]] assms(2,3)
    by (simp add: listed_def)
  finally show ?thesis .
qed

lemma list_pages_result:
  assumes "no_faults d" "rows_ok (db_tables d)" "\<not> filter_type_error f" "length (listed f d) < k"
  shows "fst (list_pages k f d) = Some (Inr (map scanNotification (listed f d)))"
  using assms
proof (induction k arbitrary: f d)
  case (Suc k)
  define n where "n = nat (effective_limit (f_limit f))"
  have n: "0 < n" using effective_limit_bounds [of "f_limit f"] by (simp add: n_def)
  let ?s = "listed f d" and ?d = "d\<lparr>db_calls := Suc (db_calls d)\<rparr>"
  note page = repo_List_result [OF Suc.prems(1,3) n_def]
  show ?case
  proof (cases "n < length ?s")
    case False
    then show ?thesis by (simp add: NotificationService_List_def page)
  next
    case True
    let ?g = "f\<lparr>f_cursor := Some (row_cursor (?s ! (n - 1)))\<rparr>"
    have rest: "listed ?g ?d = drop n ?s"
      using listed_after [OF Suc.prems(2) n, of f] True by (simp add: listed_def)
    have g: "\<not> filter_type_error ?g" using Suc.prems(3) by (simp add: filter_type_error_def)
    have ih: "fst (list_pages k ?g ?d) = Some (Inr (map scanNotification (drop n ?s)))"
      using Suc.IH [of ?d ?g] Suc.prems(1,2,4) g rest True n by simp
    obtain d2 where run: "list_pages k ?g ?d = (Some (Inr (map scanNotification (drop n ?s))), d2)"
      using ih by (metis prod.collapse)
    have "map scanNotification (take n ?s) @ map scanNotification (drop n ?s) = map scanNotification ?s"
      by (simp only: map_append [symmetric] append_take_drop_id)
    then show ?thesis using True run by (simp add: NotificationService_List_def page)
  qed
qed simp

text \<open>
  Property C12. Following the cursors is complete: whatever page size is asked for, the pages put together
  are all matching notifications, newest first, none twice and none left out, and the walk ends
  after no more pages than there are matches, plus one.
\<close>

theorem List_pages_complete:
  assumes "no_faults d" "rows_ok (db_tables d)" "\<not> filter_type_error f" "f_cursor f = None"
  shows "\<exists>ns. fst (list_pages (Suc (length (notifications (db_tables d)))) f d) = Some (Inr ns) \<and>
    ns = map scanNotification (listed f d) \<and> distinct (map n_id ns) \<and>
    set ns = scanNotification ` {r \<in> set (notifications (db_tables d)). filter_matches f r}"
proof -
  have "length (listed f d) < Suc (length (notifications (db_tables d)))" by (simp add: listed_def less_Suc_eq_le)
  note res = list_pages_result [OF assms(1-3) this]
  have "distinct (map r_id (listed f d))"
    using listed_distinct [OF assms(2), of f] by (simp add: listed_def newest_first_def distinct_map)
  then have "distinct (map n_id (map scanNotification (listed f d)))" by (simp add: comp_def)
  moreover have "set (map scanNotification (listed f d)) =
      scanNotification ` {r \<in> set (notifications (db_tables d)). filter_matches f r}"
    by (simp add: listed_def)
  ultimately show ?thesis using res by blast
qed

theorem List_pages_complete_witness:
  "\<exists>ns. fst (list_pages 3 (any_filter 1) (demo_db [demo_row 0 ''queued'', (demo_row 1 ''failed'')\<lparr>r_id := 2\<rparr>])) =
     Some (Inr ns) \<and> length ns = 2"
proof -
  let ?d = "demo_db [demo_row 0 ''queued'', (demo_row 1 ''failed'')\<lparr>r_id := 2\<rparr>]"
  have rows: "rows_ok (db_tables ?d)"
    by (simp add: rows_ok_def row_ok_def demo_row_def channel_type_def priority_type_def
        status_type_def int4_ok_def timestamptz_def)
  have n: "Suc (length (notifications (db_tables ?d))) = 3" by simp
  from List_pages_complete [OF demo_faultless rows, of "any_filter 1"] show ?thesis
    unfolding n by (auto simp: listed_def)
qed

section \<open>Truncated answers\<close>

text \<open>
  \<open>rows.Err()\<close> is never asked, so a listing cannot fail once the query was sent: a status or
  channel outside the enumeration, which the server refuses, and a connection that breaks after
  some rows are both reported as a complete page without a cursor, empty or cut short.
\<close>

theorem List_hides_errors:
  assumes "filter_type_error f \<and> no_faults d \<and> n = 0 \<or>
      \<not> filter_type_error f \<and> db_faults d (db_calls d) = Some (RowsCut n) \<and>
        n \<le> nat (effective_limit (f_limit f))"
  shows "fst (NotificationService_List f d) =
    Inr \<lparr>l_notifications = map scanNotification (take n (listed f d)), l_next_cursor = None\<rparr>"
  using assms
proof (elim disjE conjE)
  assume "filter_type_error f" "no_faults d" "n = 0"
  then show ?thesis
    using effective_limit_bounds [of "f_limit f"]
    by (simp add: NotificationService_List_def repo_List_def pg_query_faultless
        sql_list_notifications_def rows_seen_def Let_def)
next
  assume a: "\<not> filter_type_error f" "db_faults d (db_calls d) = Some (RowsCut n)"
    "n \<le> nat (effective_limit (f_limit f))"
  let ?l = "effective_limit (f_limit f)"
  have l: "0 < ?l" "n \<le> nat (?l + 1)" using effective_limit_bounds [of "f_limit f"] a(3) by auto
  then have "take n (take (nat (?l + 1)) (listed f d)) = take n (listed f d)" by (simp add: min_def)
  moreover have "\<not> ?l < int (length (take n (listed f d)))" using a(3) l by auto
  ultimately show ?thesis
    using a(1,2)
    by (simp add: NotificationService_List_def repo_List_def pg_query_def next_call_def
        sql_list_notifications_def rows_seen_def Let_def listed_def)
qed

theorem List_hides_errors_witness:
  "fst (NotificationService_List ((any_filter 10)\<lparr>f_status := Some ''sent''\<rparr>)
     (demo_db [demo_row 0 ''queued''])) = Inr \<lparr>l_notifications = [], l_next_cursor = None\<rparr>"
  using List_hides_errors [of "(any_filter 10)\<lparr>f_status := Some ''sent''\<rparr>" "demo_db [demo_row 0 ''queued'']" 0]
  by (simp add: filter_type_error_def status_type_def any_filter_def)

end
