(* ===== verification/Races.thy ===== *)
theory Races
  imports Delivery_Bound Handler_Steps
begin

text \<open>
  Three interleavings of handlers that share a row. \<open>Create\<close> marks the notification queued after it has
  handed it to the queue, and the worker marks it processing after it has read it; neither update
  looks at the status it replaces, and the worker counts an attempt only after the provider has been
  called.
\<close>

text \<open>
  Property C28. A cancellation that succeeds can be overtaken: when it falls between the worker's read of
  the notification and its first update, the caller is told that the notification is cancelled,
  and it is sent and ends delivered all the same.
\<close>

theorem Cancel_overtaken:
  assumes "no_faults (w_db w)" "rows_ok (db_tables (w_db w))" "row_at i (db_tables (w_db w)) = Some r"
    and "cancellable (r_status r)" "NotificationService_Cancel now i (w_db w) = (err, d)"
    and "d_providers D (r_channel r) = Some send" "res_error (send (scanNotification r)) = None"
  shows "err = None \<and> map_option r_status (row_at i (db_tables d)) = Some StatusCancelled \<and>
    (let w' = process_fetched D clock aid msg (scanNotification r) (w\<lparr>w_db := d\<rparr>) in
      map_option r_status (row_at i (db_tables (w_db w'))) = Some StatusDelivered \<and>
      w_sent w' = w_sent w @ [scanNotification r])"
proof -
  have id: "r_id r = i" using row_at_id [OF assms(3)] .
  have c: "repo_Cancel now i (w_db w) = (err, d)"
    using assms(5) by (auto simp: NotificationService_Cancel_def split: prod.splits option.splits)
  have cancelled: "err = None" "row_at i (db_tables d) = Some (cancelled_row now r)"
    using repo_Cancel_cases [OF assms(1) rows_ok_distinct [OF assms(2)], where i = i and now = now] assms(3,4) c
    by simp_all
  have d: "no_faults d" "rows_ok (db_tables d)"
    using repo_Cancel_faults [of now i "w_db w"] rows.inv_repo_Cancel [OF assms(2), of now i] assms(1) c
    by simp_all
  let ?w = "set_status (clock 0) i StatusProcessing '''' (w\<lparr>w_db := d\<rparr>)"
  let ?w1 = "record_attempt clock aid (scanNotification r) (send (scanNotification r))
      (?w\<lparr>w_sent := w_sent w @ [scanNotification r]\<rparr>)"
  have live: "\<not> terminal (r_status r)"
    using assms(4) by (auto simp: cancellable_def terminal_def source_consts)
  have run: "process_fetched D clock aid msg (scanNotification r) (w\<lparr>w_db := d\<rparr>) =
      on_success D clock msg (scanNotification r) ?w1"
    using live assms(6,7) by (simp add: process_fetched_def deliver_def Let_def id)
  have f: "no_faults (w_db ?w)" "rows_ok (db_tables (w_db ?w))"
    using d status_update_rows_ok [OF d(2)] by simp_all
  have "row_at i (db_tables (w_db ?w)) =
      Some (status_effect (clock 0) StatusProcessing '''' (cancelled_row now r))"
    using repo_UpdateStatus_row [OF d(1) text_ok_Nil] cancelled(2) by simp
  then obtain rc where "row_at i (db_tables (w_db ?w1)) = Some rc"
    using record_attempt_any [of "?w\<lparr>w_sent := w_sent w @ [scanNotification r]\<rparr>" "scanNotification r" _
        clock aid "send (scanNotification r)"] f id by auto
  moreover have "no_faults (w_db ?w1)" using f by simp
  ultimately have "map_option r_status (row_at i (db_tables (w_db (on_success D clock msg (scanNotification r) ?w1)))) =
      Some StatusDelivered"
    by (simp add: on_success_def id repo_UpdateStatus_row)
  moreover have "w_sent (on_success D clock msg (scanNotification r) ?w1) = w_sent w @ [scanNotification r]"
    by (simp add: on_success_def record_attempt_def Let_def)
  moreover have "map_option r_status (row_at i (db_tables d)) = Some StatusCancelled"
    using cancelled(2) by (simp add: cancelled_row_def source_consts)
  ultimately show ?thesis using cancelled(1) unfolding run Let_def by simp
qed

theorem Cancel_overtaken_witness:
  "\<exists>d. NotificationService_Cancel 3 1 (demo_db [demo_row 0 ''queued'']) = (None, d) \<and>
     w_sent (process_fetched (demo_dispatcher True) (\<lambda>k. int k) 9 demo_message
       (scanNotification (demo_row 0 ''queued'')) ((demo_world [demo_row 0 ''queued''])\<lparr>w_db := d\<rparr>)) \<noteq> []"
proof -
  let ?w = "demo_world [demo_row 0 ''queued'']"
  obtain err d where c: "NotificationService_Cancel 3 1 (w_db ?w) = (err, d)" by (metis surj_pair)
  have w: "no_faults (w_db ?w)" "rows_ok (db_tables (w_db ?w))"
    "row_at 1 (db_tables (w_db ?w)) = Some (demo_row 0 ''queued'')"
    by (simp_all add: demo_row_ok row_at_def)
  have "d_providers (demo_dispatcher True) (r_channel (demo_row 0 ''queued'')) = Some (demo_send True)"
    "res_error (demo_send True (scanNotification (demo_row 0 ''queued''))) = None"
    "cancellable (r_status (demo_row 0 ''queued''))"
    by (simp_all add: demo_provider demo_send_error cancellable_def)
  from Cancel_overtaken [OF w this(3) c this(1,2), where clock = "\<lambda>k. int k" and aid = 9 and msg = demo_message]
  have "err = None"
    "w_sent (process_fetched (demo_dispatcher True) (\<lambda>k. int k) 9 demo_message
       (scanNotification (demo_row 0 ''queued'')) (?w\<lparr>w_db := d\<rparr>)) \<noteq> []"
    by (simp_all add: Let_def)
  then show ?thesis using c by auto
qed



text \<open>
  Property C37. The retry limit is not enforced between handlers: when two workers hold messages of the same
  notification, which two pops of the delayed set can produce, and the second reads the row before the
  first has counted its attempt, both hand it to the provider, even if a single attempt is left. The
  bound of property C1 is one of handlers that do not overlap.
\<close>

theorem overlapping_handlers_send_twice:
  assumes "no_faults (w_db w)" "rows_ok (db_tables (w_db w))" "row_at i (db_tables (w_db w)) = Some r"
    and "\<not> terminal (r_status r)" "d_providers D (r_channel r) = Some send"
  shows "\<exists>n n' w1 w2 w3. handler_run D False [x1, x2] msg1 (AtFetch i) w = (AtSend n send, w1) \<and>
    handler_run D False [x3, x4, x5] msg2 (AtFetch i) w1 = (AtIncrement n' (send n'), w2) \<and>
    handler_run D False [x6] msg1 (AtSend n send) w2 = (AtIncrement n (send n), w3) \<and>
    n_id n = i \<and> n_id n' = i \<and> w_sent w3 = w_sent w @ [n', n]"
proof -
  have id: "r_id r = i" using row_at_id [OF assms(3)] .
  let ?n = "scanNotification r"
  let ?d = "(w_db w)\<lparr>db_calls := Suc (db_calls (w_db w))\<rparr>"
  define w1 where "w1 = set_status (mo_now x2) i StatusProcessing '''' (w\<lparr>w_db := ?d\<rparr>)"
  let ?r = "status_effect (mo_now x2) StatusProcessing '''' r"
  let ?n' = "scanNotification ?r"
  have one: "handler_run D False [x1, x2] msg1 (AtFetch i) w = (AtSend ?n send, w1)"
    using repo_GetByID_found [OF assms(1,3)] assms(4,5) by (simp add: calling_def id w1_def)
  have f: "no_faults (w_db w1)" using assms(1) by (simp add: w1_def)
  have row: "row_at i (db_tables (w_db w1)) = Some ?r"
    using set_status_row [of "w\<lparr>w_db := ?d\<rparr>" "''''" i "mo_now x2" i StatusProcessing] assms(1,3)
    by (simp add: w1_def)
  have r: "r_id ?r = i" "r_channel ?r = r_channel r" "\<not> terminal (r_status ?r)"
    using id by (simp_all add: terminal_def source_consts)
  obtain w2 where two: "handler_run D False [x3, x4, x5] msg2 (AtFetch i) w1 = (AtIncrement ?n' (send ?n'), w2)"
    "w_sent w2 = w_sent w1 @ [?n']"
    using repo_GetByID_found [OF f row] r assms(5) by (simp add: calling_def)
  have "w_sent w1 = w_sent w" by (simp add: w1_def)
  then have three: "handler_run D False [x6] msg1 (AtSend ?n send) w2 =
      (AtIncrement ?n (send ?n), w2\<lparr>w_sent := w_sent w @ [?n', ?n]\<rparr>)" using two(2) by simp
  show ?thesis
    by (intro exI conjI, rule one, rule two(1), rule three) (use id r(1) in simp_all)
qed

theorem overlapping_handlers_send_twice_witness:
  "\<exists>w1 w2 w3 h1 h2 h3. handler_run (demo_dispatcher False) False [moment_of 0 0 0, moment_of 1 0 0] demo_message (AtFetch 1)
       (demo_world [demo_row 2 ''queued'']) = (h1, w1) \<and>
     handler_run (demo_dispatcher False) False [moment_of 2 0 0, moment_of 3 0 0, moment_of 4 0 0]
       (demo_message\<lparr>m_message_id := ''1''\<rparr>) (AtFetch 1) w1 = (h2, w2) \<and>
     handler_run (demo_dispatcher False) False [moment_of 5 0 0] demo_message h1 w2 = (h3, w3) \<and> length (w_sent w3) = 2"
proof -
  let ?w = "demo_world [demo_row 2 ''queued'']"
  have w: "no_faults (w_db ?w)" "rows_ok (db_tables (w_db ?w))" "row_at 1 (db_tables (w_db ?w)) = Some (demo_row 2 ''queued'')"
    by (simp_all add: demo_row_ok row_at_def)
  have r: "\<not> terminal (r_status (demo_row 2 ''queued''))"
    "d_providers (demo_dispatcher False) (r_channel (demo_row 2 ''queued'')) = Some (demo_send False)"
    by (simp_all add: terminal_def source_consts demo_provider)
  from overlapping_handlers_send_twice [OF w r, of "moment_of 0 0 0" "moment_of 1 0 0" demo_message "moment_of 2 0 0" "moment_of 3 0 0"
      "moment_of 4 0 0" "demo_message\<lparr>m_message_id := ''1''\<rparr>" "moment_of 5 0 0"]
  obtain n n' w1 w2 w3 where s: "handler_run (demo_dispatcher False) False [moment_of 0 0 0, moment_of 1 0 0] demo_message (AtFetch 1) ?w =
      (AtSend n (demo_send False), w1)"
    "handler_run (demo_dispatcher False) False [moment_of 2 0 0, moment_of 3 0 0, moment_of 4 0 0]
      (demo_message\<lparr>m_message_id := ''1''\<rparr>) (AtFetch 1) w1 = (AtIncrement n' (demo_send False n'), w2)"
    "handler_run (demo_dispatcher False) False [moment_of 5 0 0] demo_message (AtSend n (demo_send False)) w2 =
      (AtIncrement n (demo_send False n), w3)" "w_sent w3 = w_sent ?w @ [n', n]" by blast
  moreover have "length (w_sent w3) = 2" using s(4) by (simp add: demo_world_def)
  ultimately show ?thesis by blast
qed

end
