(* ===== verification/Startup.thy ===== *)
theory Startup
  imports Liveness Config
begin

text \<open>
  \<open>internal/api/server.go\<close> and \<open>cmd/notifier/main.go\<close>: the HTTP server, the wiring of the components
  from the configuration, and \<open>run\<close> with its deferred releases. What the outside answers is a record;
  the result of \<open>run\<close> is its error, the sequence of what it did, and the state of Redis.
\<close>

section \<open>The HTTP server\<close>

record http_server =
  hs_addr :: string
  hs_read_timeout :: int
  hs_write_timeout :: int
  hs_idle_timeout :: int

definition NewServer :: "server_config \<Rightarrow> http_server" where
  "NewServer cfg = \<lparr>hs_addr = Addr cfg, hs_read_timeout = cf_read_timeout cfg,
     hs_write_timeout = cf_write_timeout cfg, hs_idle_timeout = cf_idle_timeout cfg\<rparr>"

datatype listen_error = ErrServerClosed | ListenError string

definition Server_Start :: "listen_error option \<Rightarrow> go_error option" where
  "Server_Start err =
     (case err of
        Some (ListenError e) \<Rightarrow> Some (Errorf ''HTTP server error: '' (Plain e) '''')
      | _ \<Rightarrow> None)"

text \<open>\<open>Shutdown\<close> gives the library fifteen seconds.\<close>

definition Server_Shutdown :: "(int \<Rightarrow> string option) \<Rightarrow> string option" where
  "Server_Shutdown shut = shut (15 * 1000000000)"

section \<open>Wiring\<close>

text \<open>An \<open>http.Client\<close> is what a timeout makes of the network; \<open>ms\<close> is the measured duration.\<close>

definition NewEmailProvider ::
  "(int \<Rightarrow> http_client) \<Rightarrow> int \<Rightarrow> string \<Rightarrow> string \<Rightarrow> int \<Rightarrow> notification \<Rightarrow> result" where
  "NewEmailProvider clients ms baseURL path timeout = EmailProvider_Send baseURL path (clients timeout) ms"

definition NewSMSProvider ::
  "(int \<Rightarrow> http_client) \<Rightarrow> int \<Rightarrow> string \<Rightarrow> string \<Rightarrow> int \<Rightarrow> notification \<Rightarrow> result" where
  "NewSMSProvider clients ms baseURL path timeout = SMSProvider_Send baseURL path (clients timeout) ms"

definition NewPushProvider ::
  "(int \<Rightarrow> http_client) \<Rightarrow> int \<Rightarrow> string \<Rightarrow> string \<Rightarrow> int \<Rightarrow> notification \<Rightarrow> result" where
  "NewPushProvider clients ms baseURL path timeout = PushProvider_Send baseURL path (clients timeout) ms"

definition new_providers ::
  "(int \<Rightarrow> http_client) \<Rightarrow> int \<Rightarrow> delivery_config \<Rightarrow> channel \<Rightarrow> (notification \<Rightarrow> result) option" where
  "new_providers clients ms cfg = [
     ChannelEmail \<mapsto> NewEmailProvider clients ms (cf_webhook_base_url cfg) (cf_email_path cfg) (cf_timeout cfg),
     ChannelSMS \<mapsto> NewSMSProvider clients ms (cf_webhook_base_url cfg) (cf_sms_path cfg) (cf_timeout cfg),
     ChannelPush \<mapsto> NewPushProvider clients ms (cf_webhook_base_url cfg) (cf_push_path cfg) (cf_timeout cfg)]"

definition NewDispatcher ::
  "lib \<Rightarrow> 'r redis \<Rightarrow> (channel \<Rightarrow> (notification \<Rightarrow> result) option) \<Rightarrow> limiter \<Rightarrow> 'r dispatcher" where
  "NewDispatcher L R providers l =
     \<lparr>d_lib = L, d_redis = R, d_limiter = l, d_providers = providers\<rparr>"

definition wire ::
  "lib \<Rightarrow> codec \<Rightarrow> 'r redis \<Rightarrow> (int \<Rightarrow> http_client) \<Rightarrow> int \<Rightarrow> config \<Rightarrow> 'r wiring" where
  "wire L C R clients ms cfg = \<lparr>
     wi_dispatcher = NewDispatcher L R (new_providers clients ms (cf_delivery cfg))
       (NewLimiter (cf_rate_limit (cf_worker cfg))),
     wi_scheduler = NewScheduler (cf_scheduler_interval (cf_worker cfg)) (cf_batch_size (cf_worker cfg)),
     wi_codec = C,
     wi_max_retries = NewNotificationService_retries (cf_max_retries (cf_worker cfg)),
     wi_consumer = ''worker-0''\<rparr>"

text \<open>The goroutines that \<open>run\<close> starts, over the stores as it finds them and an empty hub.\<close>

definition started :: "config \<Rightarrow> 'r wiring \<Rightarrow> db \<Rightarrow> 'r \<Rightarrow> 'r program" where
  "started cfg S d r = \<lparr>pg_done = False, pg_pool = Pool_Start (cf_pool_size (cf_worker cfg)),
     pg_delayed = ProcessDelayed_start, pg_scheduler = Scheduler_start (wi_scheduler S),
     pg_world = \<lparr>w_db = d, w_redis = r, w_hub = NewHub, w_writes = [], w_processed = [],
       w_retried = 0, w_dlq = 0, w_sent = []\<rparr>\<rparr>"

section \<open>run\<close>

datatype resource = SignalContext | TracingShutdown shutdown_func | PostgresPool | RedisClient | Migrator

datatype run_event =
    Opened resource | Released resource
  | MigrationsApplied | GroupsEnsured
  | WorkersStarted int | ProcessorStarted | SchedulerStarted | ServerStarted http_server
  | ServerShutDown "string option" | ContextCancelled | WorkersAwaited

datatype migrate_error = ErrNoChange | MigrateError string

datatype run_end = SignalReceived | ServerReturned "listen_error option"

record outside =
  ou_env :: env_lib
  ou_otel :: otel
  ou_parse_dsn :: "string \<Rightarrow> string option"
  ou_connect :: "string option"
  ou_pg_ping :: "string option"
  ou_migrate_new :: "string \<Rightarrow> string option"
  ou_migrate_up :: "migrate_error option"
  ou_redis_ping :: "string option"
  ou_end :: run_end
  ou_shutdown :: "int \<Rightarrow> string option"

text \<open>\<open>defer\<close>: what follows runs to its end, with or without an error, and then the release runs.\<close>

definition deferred ::
  "resource \<Rightarrow> go_error option \<times> run_event list \<times> 'r \<Rightarrow> go_error option \<times> run_event list \<times> 'r" where
  "deferred x p = (case p of (e, evs, r) \<Rightarrow> (e, Opened x # evs @ [Released x], r))"

definition emit :: "run_event list \<Rightarrow> go_error option \<times> run_event list \<times> 'r \<Rightarrow>
    go_error option \<times> run_event list \<times> 'r" where
  "emit evs p = (case p of (e, evs', r) \<Rightarrow> (e, evs @ evs', r))"

definition runMigrations :: "outside \<Rightarrow> string \<Rightarrow> go_error option \<times> run_event list" where
  "runMigrations X dsn =
     (case ou_migrate_new X dsn of
        Some e \<Rightarrow> (Some (Errorf ''creating migrator: '' (Plain e) ''''), [])
      | None \<Rightarrow>
         (case ou_migrate_up X of
            Some (MigrateError e) \<Rightarrow>
              (Some (Errorf ''applying migrations: '' (Plain e) ''''), [Opened Migrator, Released Migrator])
          | _ \<Rightarrow> (None, [Opened Migrator, MigrationsApplied, Released Migrator])))"

text \<open>From the start of the workers to the end; an error of \<open>Shutdown\<close> is logged only.\<close>

definition run_service :: "outside \<Rightarrow> config \<Rightarrow> 'r \<Rightarrow> go_error option \<times> run_event list \<times> 'r" where
  "run_service X cfg r =
     emit [WorkersStarted (cf_pool_size (cf_worker cfg)), ProcessorStarted, SchedulerStarted,
         ServerStarted (NewServer (cf_server cfg))]
       (case (case ou_end X of SignalReceived \<Rightarrow> None | ServerReturned err \<Rightarrow> Server_Start err) of
          Some e \<Rightarrow> (Some (Errorf ''server error: '' e ''''), [], r)
        | None \<Rightarrow> (None, [ServerShutDown (Server_Shutdown (ou_shutdown X)), ContextCancelled, WorkersAwaited], r))"

definition run_redis :: "outside \<Rightarrow> 'r redis \<Rightarrow> config \<Rightarrow> 'r \<Rightarrow> go_error option \<times> run_event list \<times> 'r" where
  "run_redis X R cfg r =
     deferred RedisClient
       (case ou_redis_ping X of
          Some e \<Rightarrow> (Some (Errorf ''connecting to redis: '' (Plain e) ''''), [], r)
        | None \<Rightarrow>
           (case EnsureGroups R r of
              (Some e, r) \<Rightarrow> (Some (Errorf ''ensuring consumer groups: '' e ''''), [], r)
            | (None, r) \<Rightarrow> emit [GroupsEnsured] (run_service X cfg r)))"

definition run_postgres :: "outside \<Rightarrow> 'r redis \<Rightarrow> config \<Rightarrow> 'r \<Rightarrow> go_error option \<times> run_event list \<times> 'r" where
  "run_postgres X R cfg r =
     (case ou_parse_dsn X (cf_dsn (cf_postgres cfg)) of
        Some e \<Rightarrow> (Some (Errorf ''parsing postgres config: '' (Plain e) ''''), [], r)
      | None \<Rightarrow>
         (case ou_connect X of
            Some e \<Rightarrow> (Some (Errorf ''connecting to postgres: '' (Plain e) ''''), [], r)
          | None \<Rightarrow>
             deferred PostgresPool
               (case ou_pg_ping X of
                  Some e \<Rightarrow> (Some (Errorf ''pinging postgres: '' (Plain e) ''''), [], r)
                | None \<Rightarrow>
                   (case runMigrations X (cf_dsn (cf_postgres cfg)) of
                      (Some e, evs) \<Rightarrow> (Some (Errorf ''running migrations: '' e ''''), evs, r)
                    | (None, evs) \<Rightarrow> emit evs (run_redis X R cfg r)))))"

definition run :: "outside \<Rightarrow> 'r redis \<Rightarrow> 'r \<Rightarrow> go_error option \<times> run_event list \<times> 'r" where
  "run X R r =
     deferred SignalContext
       (case Load (ou_env X) of
          Inl e \<Rightarrow> (Some (Errorf ''loading config: '' e ''''), [], r)
        | Inr cfg \<Rightarrow>
           (case Tracing_Setup (ou_otel X) (cf_tracing cfg) of
              Inl e \<Rightarrow> (Some (Errorf ''setting up tracing: '' e ''''), [], r)
            | Inr shutdownTracing \<Rightarrow>
                deferred (TracingShutdown shutdownTracing) (run_postgres X R cfg r)))"

text \<open>\<open>main\<close>: the exit code.\<close>

definition main_exit :: "go_error option \<Rightarrow> int" where
  "main_exit e = (case e of None \<Rightarrow> 0 | Some _ \<Rightarrow> 1)"

section \<open>What run does\<close>

text \<open>Resources are released in the reverse order of their opening: the stack of those still open.\<close>

fun still_open :: "resource list \<Rightarrow> run_event list \<Rightarrow> resource list option" where
  "still_open xs [] = Some xs"
| "still_open xs (Opened x # es) = still_open (x # xs) es"
| "still_open [] (Released x # es) = None"
| "still_open (y # xs) (Released x # es) = (if x = y then still_open xs es else None)"
| "still_open xs (_ # es) = still_open xs es"

lemma still_open_append:
  "still_open xs (es @ es') = (case still_open xs es of None \<Rightarrow> None | Some ys \<Rightarrow> still_open ys es')"
  by (induction xs es rule: still_open.induct) auto

definition balanced :: "go_error option \<times> run_event list \<times> 'r \<Rightarrow> bool" where
  "balanced p \<longleftrightarrow> (\<forall>xs. still_open xs (fst (snd p)) = Some xs)"

lemma balanced_deferred: "balanced p \<Longrightarrow> balanced (deferred x p)"
  by (cases p) (simp add: balanced_def deferred_def still_open_append)

lemma balanced_emit:
  "balanced p \<Longrightarrow> (\<And>xs. still_open xs evs = Some xs) \<Longrightarrow> balanced (emit evs p)"
  by (cases p) (simp add: balanced_def emit_def still_open_append)

lemma balanced_run: "balanced (run X R r)"
proof -
  have service: "balanced (run_service X cfg q)" for cfg q
    unfolding run_service_def
    by (rule balanced_emit) (auto simp: balanced_def split: option.splits)
  have redis: "balanced (run_redis X R cfg q)" for cfg q
    unfolding run_redis_def
    by (rule balanced_deferred)
      (auto simp: balanced_def [of "(_, [], _)"] split: option.splits prod.splits intro!: balanced_emit service)
  have migrations: "still_open xs evs = Some xs" if "runMigrations X dsn = (e, evs)" for xs evs dsn e
    using that by (auto simp: runMigrations_def split: option.splits migrate_error.splits)
  have "balanced (run_postgres X R cfg q)" for cfg q
    unfolding run_postgres_def
    by (auto simp: balanced_def [of "(_, [], _)"] balanced_def [of "(Some _, _, _)"] migrations
        split: option.splits prod.splits intro!: balanced_deferred balanced_emit redis)
  then show ?thesis
    unfolding run_def
    by (intro balanced_deferred) (auto simp: balanced_def [of "(_, [], _)"] split: sum.splits intro!: balanced_deferred)
qed

definition startup_ok :: "outside \<Rightarrow> 'r redis \<Rightarrow> 'r \<Rightarrow> config \<Rightarrow> shutdown_func \<Rightarrow> bool" where
  "startup_ok X R r cfg td \<longleftrightarrow>
     Load (ou_env X) = Inr cfg \<and> Tracing_Setup (ou_otel X) (cf_tracing cfg) = Inr td \<and>
     ou_parse_dsn X (cf_dsn (cf_postgres cfg)) = None \<and> ou_connect X = None \<and> ou_pg_ping X = None \<and>
     fst (runMigrations X (cf_dsn (cf_postgres cfg))) = None \<and> ou_redis_ping X = None \<and>
     fst (EnsureGroups R r) = None"

definition start_events :: "config \<Rightarrow> shutdown_func \<Rightarrow> run_event list" where
  "start_events cfg td = [Opened SignalContext, Opened (TracingShutdown td), Opened PostgresPool,
     Opened Migrator, MigrationsApplied, Released Migrator, Opened RedisClient, GroupsEnsured,
     WorkersStarted (cf_pool_size (cf_worker cfg)), ProcessorStarted, SchedulerStarted,
     ServerStarted (NewServer (cf_server cfg))]"

definition release_events :: "shutdown_func \<Rightarrow> run_event list" where
  "release_events td =
     [Released RedisClient, Released PostgresPool, Released (TracingShutdown td), Released SignalContext]"

definition server_failure :: "outside \<Rightarrow> go_error option" where
  "server_failure X = (case ou_end X of ServerReturned (Some (ListenError e)) \<Rightarrow>
     Some (Errorf ''server error: '' (Errorf ''HTTP server error: '' (Plain e) '''') '''') | _ \<Rightarrow> None)"

lemma run_started_ok:
  assumes "startup_ok X R r cfg td" "run X R r = (res, evs, r')"
  shows "res = server_failure X" "r' = snd (EnsureGroups R r)"
    "evs = start_events cfg td @
       (if res = None then [ServerShutDown (Server_Shutdown (ou_shutdown X)), ContextCancelled, WorkersAwaited] else []) @ release_events td"
proof -
  obtain q where q: "EnsureGroups R r = (None, q)"
    using assms(1) unfolding startup_ok_def by (metis prod.collapse)
  have "res = server_failure X \<and> r' = q \<and> evs = start_events cfg td @
       (if res = None then [ServerShutDown (Server_Shutdown (ou_shutdown X)), ContextCancelled, WorkersAwaited] else []) @ release_events td"
    using assms q
    by (auto simp: startup_ok_def run_def run_postgres_def run_redis_def run_service_def deferred_def emit_def
        runMigrations_def start_events_def release_events_def server_failure_def Server_Start_def
        split: option.splits migrate_error.splits run_end.splits listen_error.splits)
  then show "res = server_failure X" "r' = snd (EnsureGroups R r)"
    "evs = start_events cfg td @
       (if res = None then [ServerShutDown (Server_Shutdown (ou_shutdown X)), ContextCancelled, WorkersAwaited] else []) @ release_events td"
    using q by simp_all
qed

definition nothing_started :: "run_event list \<Rightarrow> bool" where
  "nothing_started evs \<longleftrightarrow> (\<forall>n. WorkersStarted n \<notin> set evs) \<and> ProcessorStarted \<notin> set evs \<and>
     SchedulerStarted \<notin> set evs \<and> (\<forall>h. ServerStarted h \<notin> set evs)"

lemma run_start_failed:
  assumes "\<And>cfg td. \<not> startup_ok X R r cfg td" "run X R r = (res, evs, r')"
  shows "res \<noteq> None \<and> nothing_started evs"
proof (cases "Load (ou_env X)")
  case (Inl e)
  then show ?thesis using assms(2) by (auto simp: run_def deferred_def nothing_started_def)
next
  case load: (Inr cfg)
  show ?thesis
  proof (cases "Tracing_Setup (ou_otel X) (cf_tracing cfg)")
    case (Inl e)
    then show ?thesis using assms(2) load by (auto simp: run_def deferred_def nothing_started_def)
  next
    case (Inr td)
    then show ?thesis
      using assms(1) [of cfg td] assms(2) load
      by (auto simp: startup_ok_def run_def run_postgres_def run_redis_def deferred_def emit_def
          runMigrations_def nothing_started_def
          split: option.splits migrate_error.splits prod.splits)
  qed
qed

text \<open>
  Property C40. The order of \<open>run\<close>: whatever fails, every resource that was opened is released, in reverse
  order. Nothing is started unless the whole start-up has succeeded. After a shutdown signal the server
  is shut down, the context cancelled and the workers awaited before Redis and Postgres are closed; but
  after a failure of the server the stores are closed under the running workers, which are neither
  cancelled nor awaited. The two ticker loops are awaited in no case.
\<close>

theorem run_outcome:
  assumes "run X R r = (res, evs, r')"
  shows "still_open [] evs = Some [] \<and>
    (if \<exists>cfg td. startup_ok X R r cfg td
     then \<exists>cfg td. startup_ok X R r cfg td \<and> res = server_failure X \<and>
       evs = start_events cfg td @
         (if res = None then [ServerShutDown (Server_Shutdown (ou_shutdown X)), ContextCancelled, WorkersAwaited] else []) @ release_events td
     else res \<noteq> None \<and> nothing_started evs)"
proof -
  have "still_open [] evs = Some []"
    using balanced_run [of X R r] assms by (simp add: balanced_def)
  then show ?thesis
    using run_started_ok [OF _ assms] run_start_failed [OF _ assms] by (auto simp only: if_split simp_thms) blast+
qed

definition demo_outside :: "run_end \<Rightarrow> outside" where
  "demo_outside ending = \<lparr>ou_env = default_env, ou_otel = \<lparr>ot_exporter = (\<lambda>_. None), ot_merge = None\<rparr>,
     ou_parse_dsn = (\<lambda>_. None), ou_connect = None, ou_pg_ping = None, ou_migrate_new = (\<lambda>_. None),
     ou_migrate_up = Some ErrNoChange, ou_redis_ping = None, ou_end = ending, ou_shutdown = (\<lambda>_. None)\<rparr>"

lemma demo_startup: "\<exists>cfg. startup_ok (demo_outside ending) redis_ref ref_empty cfg NoShutdown"
proof -
  obtain cfg where "Load default_env = Inr cfg" "\<not> cf_enabled (cf_tracing cfg)"
    using default_config by blast
  then show ?thesis
    by (intro exI [of _ cfg])
      (simp add: startup_ok_def demo_outside_def Tracing_Setup_def runMigrations_def EnsureGroups_def
        priority_streams_def redis_ref_def)
qed

theorem run_outcome_witness:
  "WorkersAwaited \<in> set (fst (snd (run (demo_outside SignalReceived) redis_ref ref_empty))) \<and>
   WorkersAwaited \<notin> set (fst (snd (run (demo_outside (ServerReturned (Some (ListenError ''address in use''))))
     redis_ref ref_empty)))"
proof -
  obtain res evs q where a: "run (demo_outside SignalReceived) redis_ref ref_empty = (res, evs, q)"
    by (metis surj_pair)
  obtain res' evs' q' where b: "run (demo_outside (ServerReturned (Some (ListenError ''address in use''))))
      redis_ref ref_empty = (res', evs', q')" by (metis surj_pair)
  show ?thesis
    using run_outcome [OF a] run_outcome [OF b] demo_startup [of SignalReceived]
      demo_startup [of "ServerReturned (Some (ListenError ''address in use''))"]
    unfolding a b
    by (auto simp: server_failure_def demo_outside_def start_events_def release_events_def split: if_splits)
qed

end
