(* ===== verification/Spec2Isabelle.thy ===== *)
theory Spec2Isabelle
  imports Delivery_Bound Interleaving Sending Throttling Retrying Broadcasts Listing Races Api Startup
begin

text \<open>
  Verification of the event-driven notification service (Go module
  \<open>github.com/insiderone/notifier\<close>).

  \<^bold>\<open>The program.\<close> An HTTP API stores notifications in Postgres and appends them to a Redis stream per
  priority. Workers read the streams through a consumer group, ask a sliding-window limiter, call
  the webhook provider of the channel, record the attempt and set the final status. A refused
  delivery is put in a sorted set of delayed retries, or, when its attempts are used up, in a dead
  letter stream. A scheduler polls Postgres for scheduled notifications that are due, and websocket
  clients are told how deliveries end.

  \<^bold>\<open>Theories and sources\<close> (paths under \<open>src/internal\<close>).
  \<^item> \<open>Prelude\<close>: identifiers, times, decimal text, UTF-8, rows as lists.
  \<^item> \<open>Domain\<close>: \<open>domain/*.go\<close>, the constants, structs and sentinel errors.
  \<^item> \<open>Environment\<close>: third-party code (uuid, net/mail, text/template, struct validator) as a record of
    functions, and the laws properties assume of it.
  \<^item> \<open>Validator\<close>: \<open>validator/validator.go\<close>. \<open>Delivery\<close>: \<open>delivery/*.go\<close>, the retry schedule and the
    providers, with the interface \<open>Provider\<close> as a locale.
  \<^item> \<open>Redis_Api\<close>: the Redis commands the code issues as a record, their documented effect as the
    locale \<open>redis_service\<close> over a view of the state, and a reference implementation. \<open>Queue\<close>:
    \<open>queue/*.go\<close>. \<open>Limiter\<close>: \<open>ratelimit/limiter.go\<close> with its Lua script.
  \<^item> \<open>Postgres\<close>: the tables of \<open>src/migrations\<close>, every SQL statement of \<open>repository/*.go\<close> as a function
    on the tables, and the calls that run them under a script of faults. The locale
    \<open>tables_invariant\<close> is the contract of a predicate that every statement keeps.
    \<open>Notification_Repo\<close>, \<open>Template_Repo\<close>: the methods of \<open>repository/*.go\<close>.
  \<^item> \<open>Services\<close>: \<open>service/*.go\<close>. \<open>Hub\<close>: \<open>api/websocket/hub.go\<close>, with the aliasing of its inner maps.
  \<^item> \<open>Dispatcher\<close>: \<open>worker/dispatcher.go\<close> and the poll of \<open>worker/scheduler.go\<close>.
  \<^item> \<open>Workers\<close>: the loops of \<open>worker/*.go\<close> and the pool, as state machines with one state per point where a
    goroutine can be. \<open>Handler_Steps\<close>: \<open>processMessage\<close> once more, as a state machine with one state per call
    of Redis, Postgres, the limiter or the provider, under a context that may be done.
  \<^item> \<open>Http\<close>: \<open>api/handler/*.go\<close> and the websocket endpoint, as what each handler calls and writes. \<open>Router\<close>:
    \<open>api/router.go\<close> and \<open>api/middleware/*.go\<close>.
  \<^item> \<open>Program\<close>: requests through the router, workers, ticker loops and the shutdown signal as events on
    one state; a run is a list of events in any order. \<open>Interleaving\<close>: the same program with every call
    of a handler an event of its own.
  \<^item> \<open>Config\<close>: \<open>config/config.go\<close> and \<open>tracing/tracing.go\<close>. \<open>Startup\<close>: \<open>api/server.go\<close> and
    \<open>src/cmd/notifier/main.go\<close>, the wiring and \<open>run\<close> with its deferred releases.
  \<^item> \<open>Fixtures\<close>: a small concrete world for the witnesses.

  \<^bold>\<open>State.\<close> Stateful Go code is a function from the state to the result and the new state: the
  database (\<open>db\<close>: tables, fault script, number of calls), the state of Redis (a type parameter,
  seen through a view), the hub, and for a worker the record \<open>world\<close> of these and of what it emits.
  A Go \<open>error\<close> is an option of \<open>go_error\<close>, \<open>(T, error)\<close> is a sum, a possible panic an option whose
  \<open>None\<close> is the panic. Readings of the clock, generated identifiers, random draws and the rows other
  transactions hold locked are arguments.

  \<^bold>\<open>What is proved.\<close>
  \<^item> \<open>Processing\<close>: every outcome of one handled message, its acknowledgement and its attempts.
  \<^item> \<open>History\<close>, \<open>System\<close>: the program as a step relation \<open>sys_step\<close>; each run is a path of SQL
    statement steps, the tables stay consistent, rows change in admissible ways only, and the
    streams stay readable. \<open>Streams\<close>: every operation is a path of steps on the view of Redis.
  \<^item> \<open>Program\<close>: a run of the whole program is a path of \<open>sys_step\<close>. \<open>Consumption\<close>: no message is held by two
    workers, and one that a dead process held is never handled. \<open>Liveness\<close>: under fair scheduling every
    queued message is handled and acknowledged. \<open>Tracking\<close>, \<open>Accounting\<close>: where every notification is
    between the database and Redis. \<open>Completion\<close>: one that no provider refuses is delivered.
    \<open>Finishing\<close>: any one is delivered, failed or cancelled in the end, since each cycle of retries
    spends some of its limit. These take a request, a handled message or a poll as one step.
  \<^item> \<open>Handler_Steps\<close>: the calls of a handler, uninterrupted, amount to \<open>processMessage\<close>. \<open>Interleaving\<close>: no
    notification is lost even when handlers are interleaved call by call or stopped between two
    calls; once the signal has come the workers return, and nothing they do has an effect. \<open>Races\<close>:
    what overlapping handlers, a cancellation and the end of \<open>Create\<close> do to each other.
  \<^item> \<open>Api\<close>: the routes are unambiguous, what a client sees of a creation is what happened, panics are
    answered, and no websocket is accepted. \<open>Startup\<close>: the order of start-up and shutdown.
  \<^item> \<open>Creation\<close>: single and batch creation, atomicity under faults. \<open>Cancellation\<close>: cancel, the
    scheduler's fetch and poll. \<open>Listing\<close>: pages and cursors. \<open>Delivery_Bound\<close>: a notification is
    never sent more often than its retry limit allows. \<open>Sending\<close>: content rules, providers,
    backoff. \<open>Throttling\<close>: what the limiter bounds. \<open>Retrying\<close>: reading the streams, the delayed
    set. \<open>Broadcasts\<close>: the hub against its abstract subscriptions.

  Each property is a theorem that a text block numbers; a property with hypotheses is followed by a
  witness that discharges them on a concrete input.

  \<^bold>\<open>Bounds and fuel.\<close> The rate-limit loop takes the list of its turns, and \<open>Waiting\<close> is a loop that has
  not ended; a worker whose wait has not ended goes on with it in its next step, and the liveness
  properties say which turns they need. The walk over the pages of a listing takes fuel; one more than the number of stored
  notifications is shown to be enough. Fair rounds, cycles of retries and calls after the signal are
  counted in the properties that need them. Postgres integers are bounded as their columns are; the
  attempt counter refuses to overflow as the column does. Go \<open>int\<close> values that never leave the
  32-bit range are integers.

  \<^bold>\<open>Not modelled.\<close> Logging, metrics histograms, contexts other than the points where the code tests
  them (theories \<open>Handler_Steps\<close> and \<open>Interleaving\<close> do model that calls fail once the context of the workers
  is done; elsewhere a run after the signal takes the calls to be answered), connection pools, the effect of a Redis command that answered with an error, the silent
  truncation of trailing blanks by \<open>VARCHAR(n)\<close>, the text of JSON bodies (a body is the value that is
  encoded), the Prometheus endpoint, and the parts of \<open>net/http\<close>, the JSON, environment and OpenTelemetry
  libraries beyond the calls the code makes, which are parameters.
\<close>

end
